(* ===== verification/Bloop_Prelude.thy ===== *)
theory Bloop_Prelude
  imports Complex_Main "HOL-Library.Word" "HOL-Library.Sublist" "HOL-Library.Monad_Syntax"
begin

text \<open>
  Shared vocabulary of the development: the Go types the program computes with, Go's
  \<open>error\<close> values, the fragments of the Go standard library the sources call
  (\<open>strings\<close>, \<open>strconv\<close>, \<open>errors\<close>), and the generic lemmas about them that the
  component theories use.

  A Go \<open>string\<close> is a byte sequence and is modelled by \<^typ>\<open>string\<close> (a list of 8-bit
  characters). The functions of package \<open>strings\<close> are written out for ASCII text: on bytes
  above 127 they act byte-wise, where Go would decode UTF-8. Everything the program passes to
  them (network names, currencies, hexadecimal and Base58 addresses, URLs) is ASCII.

  \<open>uint64\<close> and \<open>uint32\<close> are words, so that \<open>+\<close> and \<open>-\<close> wrap as in Go. Go's \<open>int\<close>
  (64 bits on the supported platforms) is an \<^typ>\<open>int\<close>; where a sum or product of configured
  values could leave the range, the wrap-around is written out with \<open>go_int\<close>.
\<close>

section \<open>Results as pairs\<close>

lemma pair_fst: "fst p = x \<Longrightarrow> p = (x, snd p)"
  by (cases p) simp

section \<open>Machine integers\<close>

type_synonym u64 = "64 word"
type_synonym u32 = "32 word"
type_synonym byte = "8 word"

definition go_int :: "int \<Rightarrow> int" where
  "go_int x = signed_take_bit 63 x"

text \<open>Go's conversion \<open>uint64(x)\<close> of an \<open>int\<close>: reduction modulo \<open>2^64\<close>.\<close>

definition to_uint64 :: "int \<Rightarrow> u64" where
  "to_uint64 x = word_of_int x"

lemma unat_to_uint64: "0 \<le> x \<Longrightarrow> x < 2 ^ 64 \<Longrightarrow> unat (to_uint64 x) = nat x"
  by (simp add: to_uint64_def unat_eq_nat_uint uint_word_of_int_eq take_bit_int_eq_self)

lemma word_plus_one_gt: "(x :: 'a::len word) < y \<Longrightarrow> unat (x + 1) = Suc (unat x)"
proof -
  assume "x < y"
  then have "unat x < unat y" by (simp add: word_less_nat_alt)
  moreover have "unat y < 2 ^ LENGTH('a)" by (rule unsigned_less)
  ultimately have "Suc (unat x) < 2 ^ LENGTH('a)" by linarith
  then show ?thesis by (simp add: unat_word_ariths unsigned_1)
qed

lemma unat_plus_one_u64: "unat (x :: u64) < 2 ^ 64 - 1 \<Longrightarrow> unat (x + 1) = Suc (unat x)"
  by (simp add: unat_word_ariths)

section \<open>Errors and results\<close>

text \<open>
  Error values. The sentinels are the ones the code compares with (\<open>context.Canceled\<close>,
  \<open>net.ErrClosed\<close>, \<open>redis.Nil\<close>); \<open>ErrorString\<close> is \<open>errors.New\<close> or \<open>fmt.Errorf\<close>
  without a wrapped error, \<open>Wrap p e\<close> is \<open>fmt.Errorf("p: %w", e)\<close>.
\<close>

datatype error = ContextCanceled | DeadlineExceeded | NetErrClosed | RedisNil
  | ErrorString string | Wrap string error

fun error_msg :: "error \<Rightarrow> string" where
  "error_msg ContextCanceled = ''context canceled''"
| "error_msg DeadlineExceeded = ''context deadline exceeded''"
| "error_msg NetErrClosed = ''use of closed network connection''"
| "error_msg RedisNil = ''redis: nil''"
| "error_msg (ErrorString s) = s"
| "error_msg (Wrap p e) = p @ '': '' @ error_msg e"

text \<open>\<open>errors.Is\<close>: the target occurs on the chain of wrapped errors.\<close>

fun errors_Is :: "error \<Rightarrow> error \<Rightarrow> bool" where
  "errors_Is (Wrap p e) t = (Wrap p e = t \<or> errors_Is e t)"
| "errors_Is e t = (e = t)"

type_synonym 'a res = "error + 'a"

section \<open>Package strings, on ASCII\<close>

definition isSpace :: "char \<Rightarrow> bool" where
  "isSpace c \<longleftrightarrow> of_char c \<in> {9, 10, 11, 12, 13, 32 :: nat}"

definition TrimSpace :: "string \<Rightarrow> string" where
  "TrimSpace s = rev (dropWhile isSpace (rev (dropWhile isSpace s)))"

definition lower_char :: "char \<Rightarrow> char" where
  "lower_char c = (let n = of_char c :: nat in if 65 \<le> n \<and> n \<le> 90 then char_of (n + 32) else c)"

definition upper_char :: "char \<Rightarrow> char" where
  "upper_char c = (let n = of_char c :: nat in if 97 \<le> n \<and> n \<le> 122 then char_of (n - 32) else c)"

definition ToLower :: "string \<Rightarrow> string" where
  "ToLower s = map lower_char s"

definition ToUpper :: "string \<Rightarrow> string" where
  "ToUpper s = map upper_char s"

definition HasPrefix :: "string \<Rightarrow> string \<Rightarrow> bool" where
  "HasPrefix s p \<longleftrightarrow> take (length p) s = p"

definition TrimPrefix :: "string \<Rightarrow> string \<Rightarrow> string" where
  "TrimPrefix s p = (if HasPrefix s p then drop (length p) s else s)"

fun Contains :: "string \<Rightarrow> string \<Rightarrow> bool" where
  "Contains [] sub = (sub = [])"
| "Contains (c # s) sub = (HasPrefix (c # s) sub \<or> Contains s sub)"

definition EqualFold :: "string \<Rightarrow> string \<Rightarrow> bool" where
  "EqualFold s t \<longleftrightarrow> ToLower s = ToLower t"

lemma char_of_nat_inverse: "n < 256 \<Longrightarrow> of_char (char_of n :: char) = (n :: nat)"
  by (simp add: of_char_of)

lemma of_char_lt_256 [simp]: "of_char c < (256 :: nat)"
  by (cases c) (simp add: of_char_def horner_sum_bit_eq_take_bit)

lemma lower_char_idem [simp]: "lower_char (lower_char c) = lower_char c"
  by (auto simp: lower_char_def Let_def char_of_nat_inverse)

lemma upper_char_idem [simp]: "upper_char (upper_char c) = upper_char c"
  by (auto simp: upper_char_def Let_def char_of_nat_inverse)

lemma ToLower_idem [simp]: "ToLower (ToLower s) = ToLower s"
  by (simp add: ToLower_def)

lemma ToUpper_idem [simp]: "ToUpper (ToUpper s) = ToUpper s"
  by (simp add: ToUpper_def)

lemma length_ToLower [simp]: "length (ToLower s) = length s"
  by (simp add: ToLower_def)

lemma lower_upper_char [simp]: "lower_char (upper_char c) = lower_char c"
  by (auto simp: lower_char_def upper_char_def Let_def char_of_nat_inverse)

lemma ToLower_ToUpper [simp]: "ToLower (ToUpper s) = ToLower s"
  by (simp add: ToLower_def ToUpper_def comp_def)

lemma dropWhile_idem: "dropWhile P (dropWhile P xs) = dropWhile P xs"
  by (induction xs) auto

lemma dropWhile_hd_False: "xs \<noteq> [] \<Longrightarrow> \<not> P (hd xs) \<Longrightarrow> dropWhile P xs = xs"
  by (cases xs) auto

lemma TrimSpace_idem [simp]: "TrimSpace (TrimSpace s) = TrimSpace s"
proof -
  define t where "t = dropWhile isSpace s"
  define u where "u = rev (dropWhile isSpace (rev t))"
  have "dropWhile isSpace u = u"
  proof (cases "u = []")
    case False
    then have "hd u = hd t"
      using takeWhile_dropWhile_id [of isSpace "rev t"]
      by (metis u_def hd_append2 rev_append rev_rev_ident)
    moreover have "t \<noteq> []" using False by (auto simp: u_def)
    then have "\<not> isSpace (hd t)" unfolding t_def by (rule hd_dropWhile)
    ultimately show ?thesis using False by (simp add: dropWhile_hd_False)
  qed simp
  moreover have "TrimSpace s = u" by (simp add: TrimSpace_def t_def u_def)
  ultimately show ?thesis by (simp add: TrimSpace_def u_def dropWhile_idem)
qed

section \<open>Package strconv: unsigned decimals\<close>

definition digit_char :: "nat \<Rightarrow> char" where
  "digit_char d = char_of (48 + d)"

fun dec :: "nat \<Rightarrow> string" where
  "dec n = (if n < 10 then [digit_char n] else dec (n div 10) @ [digit_char (n mod 10)])"

declare dec.simps [simp del]

text \<open>The decimal rendering of a \<open>uint64\<close> (\<open>%d\<close>, and the encoding of a Redis argument).\<close>

definition FormatUint :: "u64 \<Rightarrow> string" where
  "FormatUint n = dec (unat n)"

text \<open>The decimal text of an \<open>int64\<close> (\<open>%d\<close>).\<close>

definition FormatInt :: "int \<Rightarrow> string" where
  "FormatInt n = (if n < 0 then CHR ''-'' # dec (nat (- n)) else dec (nat n))"

text \<open>To evaluate decimals: the digits of an integer.\<close>

function decz :: "int \<Rightarrow> string" where
  "decz i = (if i < 10 then [digit_char (nat i)] else decz (i div 10) @ [digit_char (nat (i mod 10))])"
  by pat_completeness auto

termination by (relation "measure nat") auto

declare decz.simps [simp del]

lemma dec_decz: "0 \<le> i \<Longrightarrow> dec (nat i) = decz i"
proof (induction i rule: decz.induct)
  case (1 i)
  show ?case
  proof (cases "i < 10")
    case True
    then show ?thesis by (simp add: dec.simps decz.simps)
  next
    case False
    with 1 show ?thesis
      by (simp add: dec.simps [of "nat i"] decz.simps [of i] nat_div_distrib nat_mod_distrib)
  qed
qed

lemma FormatUint_eval [code]: "FormatUint n = decz (uint n)"
  by (simp only: FormatUint_def unat_eq_nat_uint dec_decz uint_ge_0)

lemma FormatInt_eval [code]: "FormatInt n = (if n < 0 then CHR ''-'' # decz (- n) else decz n)"
  by (simp add: FormatInt_def dec_decz)

definition isDigit :: "char \<Rightarrow> bool" where
  "isDigit c \<longleftrightarrow> 48 \<le> (of_char c :: nat) \<and> of_char c \<le> (57 :: nat)"

fun digits_val :: "int \<Rightarrow> string \<Rightarrow> int option" where
  "digits_val acc [] = Some acc"
| "digits_val acc (c # cs) =
     (if isDigit c then digits_val (acc * 10 + (of_char c - 48)) cs else None)"

text \<open>\<open>strconv.ParseUint(s, 10, 64)\<close>: a syntax error or a range error is an error value.\<close>

definition ParseUint :: "string \<Rightarrow> u64 res" where
  "ParseUint s =
     (if s = [] then Inl (ErrorString ''invalid syntax'')
      else case digits_val 0 s of
        None \<Rightarrow> Inl (ErrorString ''invalid syntax'')
      | Some n \<Rightarrow> if n < 2 ^ 64 then Inr (word_of_int n) else Inl (ErrorString ''value out of range''))"

lemma digit_char_val: "d < 10 \<Longrightarrow> of_char (digit_char d) = 48 + d"
  by (simp add: digit_char_def char_of_nat_inverse)

lemma digit_char_int: "d < 10 \<Longrightarrow> of_char (digit_char d) = 48 + int d"
  using arg_cong [OF digit_char_val [of d], of int] by (simp add: of_nat_of_char)

lemma isDigit_digit_char: "d < 10 \<Longrightarrow> isDigit (digit_char d)"
  by (simp add: isDigit_def digit_char_val)

lemma digits_val_append:
  "digits_val acc (xs @ ys) =
     (case digits_val acc xs of None \<Rightarrow> None | Some a \<Rightarrow> digits_val a ys)"
  by (induction xs arbitrary: acc) auto

lemma dec_nonempty [simp]: "dec n \<noteq> []"
  by (subst dec.simps) simp

lemma digits_val_dec: "digits_val 0 (dec n) = Some (int n)"
proof (induction n rule: dec.induct)
  case (1 n)
  show ?case
  proof (cases "n < 10")
    case True
    then show ?thesis by (subst dec.simps) (simp add: isDigit_digit_char digit_char_int)
  next
    case False
    with 1 have "digits_val 0 (dec (n div 10)) = Some (int (n div 10))" by simp
    with False show ?thesis
      by (subst dec.simps) (simp add: digits_val_append isDigit_digit_char digit_char_int zdiv_int zmod_int)
  qed
qed

lemma isDigit_dec: "c \<in> set (dec n) \<Longrightarrow> isDigit c"
proof (induction n rule: dec.induct)
  case (1 n)
  then show ?case
    by (subst (asm) (2) dec.simps) (auto simp: isDigit_digit_char split: if_splits)
qed

lemma dec_inject [simp]: "dec m = dec n \<longleftrightarrow> m = n"
  by (metis digits_val_dec option.inject of_nat_eq_iff)

lemma ParseUint_FormatUint [simp]: "ParseUint (FormatUint n) = Inr n"
  using unsigned_less [of n, where ?'a = int]
  by (simp add: ParseUint_def FormatUint_def digits_val_dec)

lemma FormatUint_inject [simp]: "FormatUint m = FormatUint n \<longleftrightarrow> m = n"
  by (simp add: FormatUint_def word_unat_eq_iff)

lemma isDigit_not_colon: "isDigit c \<Longrightarrow> c \<noteq> CHR '':''"
  by (auto simp: isDigit_def)

text \<open>A key built as \<open>prefix:decimal\<close> determines both parts.\<close>

lemma colon_dec_inject:
  assumes "a @ CHR '':'' # dec m = b @ CHR '':'' # dec n"
  shows "a = b \<and> m = n"
proof -
  have no: "CHR '':'' \<notin> set (rev (dec k))" for k
    using isDigit_dec isDigit_not_colon by force
  have "rev (dec m) @ CHR '':'' # rev a = rev (dec n) @ CHR '':'' # rev b"
    using arg_cong [OF assms, of rev] by simp
  then have "takeWhile ((\<noteq>) CHR '':'') (rev (dec m) @ CHR '':'' # rev a) =
      takeWhile ((\<noteq>) CHR '':'') (rev (dec n) @ CHR '':'' # rev b)" by simp
  moreover have "takeWhile ((\<noteq>) CHR '':'') (rev (dec k) @ CHR '':'' # c) = rev (dec k)" for k c
    using no [of k] by (subst takeWhile_append2) auto
  ultimately have "rev (dec m) = rev (dec n)" by simp
  then have "dec m = dec n" by simp
  with assms show ?thesis by simp
qed

end
