(* ===== verification/Bloop_Types.thy ===== *)
theory Bloop_Types
  imports Bloop_Prelude
begin

text \<open>
  The shared data types of \<open>internal/types\<close>. Networks, currencies and statuses are Go string
  types: a configuration file may name any network, so they stay strings here and the declared
  constants are definitions. A \<open>time.Time\<close> is an \<^typ>\<open>int\<close> (nanoseconds since the epoch). The
  \<open>RawData\<close> fields of the two events are never set by the program and are left out.
\<close>

type_synonym BlockchainType = string
type_synonym Currency = string
type_synonym TransactionStatus = string
type_synonym go_time = int
type_synonym duration = int

definition Ethereum :: BlockchainType where "Ethereum = ''ETH''"
definition Bitcoin :: BlockchainType where "Bitcoin = ''BTC''"
definition BSC :: BlockchainType where "BSC = ''BSC''"
definition Litecoin :: BlockchainType where "Litecoin = ''LTC''"
definition Polygon :: BlockchainType where "Polygon = ''POLYGON''"
definition Solana :: BlockchainType where "Solana = ''SOLANA''"
definition Tron :: BlockchainType where "Tron = ''TRON''"

definition SOL :: Currency where "SOL = ''SOL''"
definition TRX :: Currency where "TRX = ''TRX''"

definition StatusConfirmed :: TransactionStatus where "StatusConfirmed = ''CONFIRMED''"

text \<open>Durations are in nanoseconds, as \<open>time.Duration\<close>.\<close>

definition Millisecond :: duration where "Millisecond = 1000000"
definition Second :: duration where "Second = 1000 * Millisecond"

record WalletInput =
  wiAddress :: string
  wiAmount :: string

record WalletOutput =
  woAddress :: string
  woAmount :: string

record WalletDeposit =
  dTxHash :: string
  dWalletID :: string
  dWalletAddress :: string
  dFromAddress :: string
  dInputs :: "WalletInput list"
  dAmount :: string
  dCurrency :: Currency
  dNetwork :: BlockchainType
  dBlockNumber :: u64
  dConfirmations :: u64
  dTimestamp :: go_time
  dNetworkFee :: string
  dStatus :: TransactionStatus

record WalletWithdrawal =
  wTxHash :: string
  wWalletID :: string
  wWalletAddress :: string
  wToAddress :: string
  wOutputs :: "WalletOutput list"
  wAmount :: string
  wCurrency :: Currency
  wNetwork :: BlockchainType
  wBlockNumber :: u64
  wConfirmations :: u64
  wTimestamp :: go_time
  wNetworkFee :: string
  wStatus :: TransactionStatus

text \<open>The payload of an event is one of the two wallet movements.\<close>

datatype payload = PDeposit WalletDeposit | PWithdrawal WalletWithdrawal

record Event =
  evType :: string
  evPayload :: payload
  evTimestamp :: go_time
  evSource :: string

definition EventTypeWalletDeposit :: string where
  "EventTypeWalletDeposit = ''wallet.deposit''"

definition EventTypeWalletWithdraw :: string where
  "EventTypeWalletWithdraw = ''wallet.withdrawal''"

text \<open>The statistics a tracker reports (\<open>types/tracker.go\<close>). \<open>Uptime\<close> is the duration before it is rendered as text.\<close>

record TrackerStats =
  tsNetwork :: BlockchainType
  tsIsRunning :: bool
  tsProcessedBlocks :: u64
  tsProcessedTxs :: u64
  tsWatchedWallets :: nat
  tsLastBlockHeight :: u64
  tsCurrentBlockHeight :: u64
  tsSafeHead :: u64
  tsBlockGap :: u64
  tsConfirmations :: int
  tsBlockQueueLen :: int
  tsBlockQueueCap :: int
  tsLastEnqueuedBlock :: u64
  tsLastDequeuedBlock :: u64
  tsLastProcessingBlock :: u64
  tsSkippedChannelFull :: u64
  tsSkippedProcessed :: u64
  tsBlockGapConsecutive :: u64
  tsInFlightTxs :: u64
  tsAPIProviders :: "string \<rightharpoonup> u64"
  tsAPIProviderErrors :: "string \<rightharpoonup> u64"
  tsAPIProviderLast :: string
  tsUptime :: duration
  tsErrorCount :: u64

end
