(* ===== verification/Storage_Interface.thy ===== *)
theory Storage_Interface
  imports Bloop_Types
begin

text \<open>
  The Go interface \<open>Storage\<close> (\<open>internal/storage/storage.go\<close>) as a record of its methods over a
  state \<open>'w\<close>, and what its clients may rely on, as two locales: \<open>progress_store\<close> for the
  per-network block progress (used by the base tracker) and \<open>wallet_store\<close> for the watched wallets
  (used by the block processors). The laws speak about abstract views of the state (which blocks
  are marked, the stored high-water mark, the watched wallets) and hold where the representation
  invariant \<open>pinv\<close> does; an operation that returns an error may or may not have taken effect.
\<close>

record 'w Storage =
  st_AddWatchedWallet :: "BlockchainType \<Rightarrow> string \<Rightarrow> string \<Rightarrow> 'w \<Rightarrow> error option \<times> 'w"
  st_RemoveWatchedWallet :: "BlockchainType \<Rightarrow> string \<Rightarrow> 'w \<Rightarrow> error option \<times> 'w"
  st_IsWatchedWallet :: "BlockchainType \<Rightarrow> string \<Rightarrow> 'w \<Rightarrow> (string \<times> bool) res \<times> 'w"
  st_GetWatchedWallets :: "BlockchainType \<Rightarrow> 'w \<Rightarrow> (string \<times> string) list res \<times> 'w"
  st_SetLastProcessedBlock :: "BlockchainType \<Rightarrow> u64 \<Rightarrow> 'w \<Rightarrow> error option \<times> 'w"
  st_ForceSetLastProcessedBlock :: "BlockchainType \<Rightarrow> u64 \<Rightarrow> 'w \<Rightarrow> error option \<times> 'w"
  st_GetLastProcessedBlock :: "BlockchainType \<Rightarrow> 'w \<Rightarrow> u64 res \<times> 'w"
  st_IsBlockProcessed :: "BlockchainType \<Rightarrow> u64 \<Rightarrow> 'w \<Rightarrow> bool res \<times> 'w"
  st_MarkBlockProcessed :: "BlockchainType \<Rightarrow> u64 \<Rightarrow> 'w \<Rightarrow> error option \<times> 'w"
  st_AdvanceHighWaterMark :: "BlockchainType \<Rightarrow> 'w \<Rightarrow> error option \<times> 'w"
  st_AddProcessedTransaction :: "BlockchainType \<Rightarrow> u64 \<Rightarrow> string \<Rightarrow> 'w \<Rightarrow> error option \<times> 'w"
  st_GetProcessedTransactions :: "BlockchainType \<Rightarrow> u64 \<Rightarrow> 'w \<Rightarrow> string list res \<times> 'w"
  st_ClearBlockProgress :: "BlockchainType \<Rightarrow> u64 \<Rightarrow> 'w \<Rightarrow> error option \<times> 'w"
  st_SetCache :: "string \<Rightarrow> string res \<Rightarrow> duration \<Rightarrow> 'w \<Rightarrow> error option \<times> 'w"
  st_GetCache :: "string \<Rightarrow> 'w \<Rightarrow> string res \<times> 'w"
  st_DeleteCache :: "string \<Rightarrow> 'w \<Rightarrow> error option \<times> 'w"
  st_Ping :: "'w \<Rightarrow> error option \<times> 'w"

text \<open>The key under which a block of a network is cached, dropped once the block is processed.\<close>

definition blockCacheKey :: "BlockchainType \<Rightarrow> u64 \<Rightarrow> string" where
  "blockCacheKey network blockNumber = network @ '':block:'' @ FormatUint blockNumber"

section \<open>Block progress\<close>

text \<open>
  \<open>hwm_safe marked last base\<close>: above the baseline \<open>base\<close>, the high-water mark \<open>last\<close> passes only
  blocks that are marked as processed.
\<close>

definition hwm_safe :: "(u64 \<Rightarrow> bool) \<Rightarrow> u64 \<Rightarrow> u64 \<Rightarrow> bool" where
  "hwm_safe mk last0 base \<longleftrightarrow> (\<forall>b. base < b \<and> b \<le> last0 \<longrightarrow> mk b)"

locale progress_store =
  fixes S :: "'w Storage" and network :: BlockchainType
    and pinv :: "'w \<Rightarrow> bool" and marked_in :: "'w \<Rightarrow> u64 \<Rightarrow> bool" and last_in :: "'w \<Rightarrow> u64"
  assumes isProcessed_reads:
      "pinv w \<Longrightarrow> st_IsBlockProcessed S network b w = (rb, w') \<Longrightarrow>
       pinv w' \<and> marked_in w' = marked_in w \<and> last_in w' = last_in w"
    and isProcessed_val:
      "pinv w \<Longrightarrow> st_IsBlockProcessed S network b w = (Inr vb, w') \<Longrightarrow> vb = marked_in w b"
    and mark_any:
      "pinv w \<Longrightarrow> st_MarkBlockProcessed S network b w = (eo, w') \<Longrightarrow>
       pinv w' \<and> last_in w' = last_in w \<and>
       (marked_in w' = marked_in w \<or> marked_in w' = (marked_in w)(b := True))"
    and mark_ok:
      "pinv w \<Longrightarrow> st_MarkBlockProcessed S network b w = (None, w') \<Longrightarrow> marked_in w' b"
    and getLast_reads:
      "pinv w \<Longrightarrow> st_GetLastProcessedBlock S network w = (rn, w') \<Longrightarrow>
       pinv w' \<and> marked_in w' = marked_in w \<and> last_in w' = last_in w"
    and getLast_val:
      "pinv w \<Longrightarrow> st_GetLastProcessedBlock S network w = (Inr vn, w') \<Longrightarrow> vn = last_in w"
    and setLast_any:
      "pinv w \<Longrightarrow> st_SetLastProcessedBlock S network b w = (eo, w') \<Longrightarrow>
       pinv w' \<and> marked_in w' = marked_in w \<and>
       (last_in w' = last_in w \<or> last_in w' = max (last_in w) b)"
    and setLast_ok:
      "pinv w \<Longrightarrow> st_SetLastProcessedBlock S network b w = (None, w') \<Longrightarrow> last_in w' = max (last_in w) b"
    and forceLast_any:
      "pinv w \<Longrightarrow> st_ForceSetLastProcessedBlock S network b w = (eo, w') \<Longrightarrow>
       pinv w' \<and> marked_in w' = marked_in w \<and> (last_in w' = last_in w \<or> last_in w' = b)"
    and forceLast_ok:
      "pinv w \<Longrightarrow> st_ForceSetLastProcessedBlock S network b w = (None, w') \<Longrightarrow> last_in w' = b"
    and advance_any:
      "pinv w \<Longrightarrow> st_AdvanceHighWaterMark S network w = (eo, w') \<Longrightarrow>
       pinv w' \<and> marked_in w' = marked_in w \<and> last_in w \<le> last_in w' \<and>
       (\<forall>b. last_in w < b \<and> b \<le> last_in w' \<longrightarrow> marked_in w b)"
    and deleteCache_any:
      "pinv w \<Longrightarrow> st_DeleteCache S (blockCacheKey network b) w = (eo, w') \<Longrightarrow>
       pinv w' \<and> marked_in w' = marked_in w \<and> last_in w' = last_in w"
begin

text \<open>What a client keeps of the safety of the high-water mark by each call.\<close>

definition safe_from :: "u64 \<Rightarrow> 'w \<Rightarrow> bool" where
  "safe_from base w \<longleftrightarrow> pinv w \<and> hwm_safe (marked_in w) (last_in w) base"

lemma safe_isProcessed:
  "safe_from base w \<Longrightarrow> st_IsBlockProcessed S network b w = (r, w') \<Longrightarrow> safe_from base w'"
  using isProcessed_reads unfolding safe_from_def by metis

lemma safe_getLast:
  "safe_from base w \<Longrightarrow> st_GetLastProcessedBlock S network w = (r, w') \<Longrightarrow> safe_from base w'"
  using getLast_reads unfolding safe_from_def by metis

lemma safe_deleteCache:
  "safe_from base w \<Longrightarrow> st_DeleteCache S (blockCacheKey network b) w = (r, w') \<Longrightarrow> safe_from base w'"
  using deleteCache_any unfolding safe_from_def by metis

lemma safe_mark:
  assumes "safe_from base w" and "st_MarkBlockProcessed S network b w = (r, w')"
  shows "safe_from base w'"
proof -
  have "pinv w" using assms(1) by (simp add: safe_from_def)
  from mark_any [OF this assms(2)] assms(1) show ?thesis
    by (auto simp: safe_from_def hwm_safe_def)
qed

lemma safe_advance:
  assumes "safe_from base w" and "st_AdvanceHighWaterMark S network w = (r, w')"
  shows "safe_from base w'"
proof -
  have "pinv w" using assms(1) by (simp add: safe_from_def)
  from advance_any [OF this assms(2)] assms(1) show ?thesis
    unfolding safe_from_def hwm_safe_def by (metis not_le_imp_less)
qed

lemma safe_forceLast:
  assumes "safe_from base w" and "st_ForceSetLastProcessedBlock S network b w = (r, w')"
    and "b \<le> last_in w"
  shows "safe_from base w'"
proof -
  have "pinv w" using assms(1) by (simp add: safe_from_def)
  from forceLast_any [OF this assms(2)] assms(1,3) show ?thesis
    unfolding safe_from_def hwm_safe_def by (metis order_trans)
qed

text \<open>The contract holds as well under a stronger invariant that no call can break.\<close>

lemma conj_store: "progress_store S network (\<lambda>w. pinv w \<and> C) marked_in last_in"
  apply unfold_locales
  subgoal using isProcessed_reads by blast
  subgoal using isProcessed_val by blast
  subgoal using mark_any by blast
  subgoal using mark_ok by blast
  subgoal using getLast_reads by blast
  subgoal using getLast_val by blast
  subgoal using setLast_any by blast
  subgoal using setLast_ok by blast
  subgoal using forceLast_any by blast
  subgoal using forceLast_ok by blast
  subgoal using advance_any by blast
  subgoal using deleteCache_any by blast
  done

lemmas safe_calls = safe_isProcessed safe_getLast safe_deleteCache safe_mark safe_advance

end

section \<open>Watched wallets\<close>

text \<open>
  A client's sequence of changes to the watch list, run on a storage (stopping at the first error)
  and on a plain map.
\<close>

datatype wallet_op = OpAdd string string | OpRemove string

fun wallet_run :: "'w Storage \<Rightarrow> BlockchainType \<Rightarrow> wallet_op list \<Rightarrow> 'w \<Rightarrow> 'w option" where
  "wallet_run S n [] w = Some w"
| "wallet_run S n (OpAdd a i # ops) w =
     (case st_AddWatchedWallet S n a i w of
        (None, w') \<Rightarrow> wallet_run S n ops w' | (Some _, _) \<Rightarrow> None)"
| "wallet_run S n (OpRemove a # ops) w =
     (case st_RemoveWatchedWallet S n a w of
        (None, w') \<Rightarrow> wallet_run S n ops w' | (Some _, _) \<Rightarrow> None)"

fun wallet_map :: "wallet_op list \<Rightarrow> (string \<rightharpoonup> string) \<Rightarrow> (string \<rightharpoonup> string)" where
  "wallet_map [] m = m"
| "wallet_map (OpAdd a i # ops) m = wallet_map ops (m(a \<mapsto> i))"
| "wallet_map (OpRemove a # ops) m = wallet_map ops (m(a := None))"

locale wallet_store =
  fixes S :: "'w Storage" and network :: BlockchainType
    and winv :: "'w \<Rightarrow> bool" and watched_in :: "'w \<Rightarrow> string \<Rightarrow> string option"
  assumes isWatched_reads:
      "winv w \<Longrightarrow> st_IsWatchedWallet S network a w = (r, w') \<Longrightarrow>
       winv w' \<and> watched_in w' = watched_in w"
    and isWatched_val:
      "winv w \<Longrightarrow> st_IsWatchedWallet S network a w = (Inr v, w') \<Longrightarrow>
       v = (case watched_in w a of None \<Rightarrow> ('''', False) | Some i \<Rightarrow> (i, True))"
    and addWatched_ok:
      "winv w \<Longrightarrow> st_AddWatchedWallet S network a i w = (None, w') \<Longrightarrow>
       winv w' \<and> watched_in w' = (watched_in w)(a \<mapsto> i)"
    and removeWatched_any:
      "winv w \<Longrightarrow> st_RemoveWatchedWallet S network a w = (eo, w') \<Longrightarrow>
       winv w' \<and> (watched_in w' = watched_in w \<or> watched_in w' = (watched_in w)(a := None))"
    and removeWatched_ok:
      "winv w \<Longrightarrow> st_RemoveWatchedWallet S network a w = (None, w') \<Longrightarrow>
       watched_in w' = (watched_in w)(a := None)"
begin

lemma wallet_run_map:
  "winv w \<Longrightarrow> wallet_run S network ops w = Some w' \<Longrightarrow>
   winv w' \<and> watched_in w' = wallet_map ops (watched_in w)"
proof (induction ops arbitrary: w)
  case (Cons op ops)
  show ?case
  proof (cases op)
    case (OpAdd a i)
    obtain r w1 where c: "st_AddWatchedWallet S network a i w = (r, w1)"
      by (cases "st_AddWatchedWallet S network a i w")
    with OpAdd Cons.prems(2) have "r = None" "wallet_run S network ops w1 = Some w'"
      by (auto split: option.splits)
    with addWatched_ok [OF Cons.prems(1)] c Cons.IH [of w1] OpAdd show ?thesis by (simp add: fun_upd_def)
  next
    case (OpRemove a)
    obtain r w1 where c: "st_RemoveWatchedWallet S network a w = (r, w1)"
      by (cases "st_RemoveWatchedWallet S network a w")
    with OpRemove Cons.prems(2) have "r = None" "wallet_run S network ops w1 = Some w'"
      by (auto split: option.splits)
    with removeWatched_any [OF Cons.prems(1)] removeWatched_ok [OF Cons.prems(1)] c
      Cons.IH [of w1] OpRemove show ?thesis by (simp add: fun_upd_def)
  qed
qed simp

lemma watched_after_run:
  assumes "winv w" "wallet_run S network ops w = Some w1"
    and "st_IsWatchedWallet S network a w1 = (Inr v, w2)"
  shows "v = (case wallet_map ops (watched_in w) a of None \<Rightarrow> ('''', False) | Some i \<Rightarrow> (i, True))"
  using wallet_run_map [OF assms(1,2)] isWatched_val [OF _ assms(3)] by simp

end

end
