(* ===== verification/Tracker_Concurrency.thy ===== *)
theory Tracker_Concurrency
  imports Storage_Interface
begin

text \<open>
  The workers and the polling loop of one tracker, running concurrently. \<open>Base_Tracker\<close> describes a
  job as one function; here the same code is cut at every point where another goroutine can come
  between: at each use of the tracker's mutex and at each command sent to Redis. The state is the
  part those goroutines share: the marked blocks and the stored mark of the network (in Redis, so
  they survive), the in-flight set, and a program counter per goroutine. \<open>cDone\<close> is a ghost: the
  blocks some run of the processor has reported as completely handled.

  Every command to Redis may fail; a write that fails may or may not have taken effect. The answers
  of the processor and of the chain are left open (every answer has a step). The first start of a
  network, which sets the mark, comes before these steps.
\<close>

datatype pc =
    Idle
  | Query u64
  | Height u64
  | Process u64
  | Mark u64
  | DropCache u64
  | AdvGet "u64 option"
  | AdvWalk "u64 option" u64 u64
  | AdvSetGet "u64 option" u64
  | AdvSet "u64 option" u64
  | Release u64
  | ReleaseAdv u64
  | PollForce u64

text \<open>The block a goroutine has in flight. \<open>AdvanceHighWaterMark\<close> runs with or without one.\<close>

fun held :: "pc \<Rightarrow> u64 option" where
  "held (Query b) = Some b"
| "held (Height b) = Some b"
| "held (Process b) = Some b"
| "held (Mark b) = Some b"
| "held (DropCache b) = Some b"
| "held (AdvGet h) = h"
| "held (AdvWalk h _ _) = h"
| "held (AdvSetGet h _) = h"
| "held (AdvSet h _) = h"
| "held (Release b) = Some b"
| "held (ReleaseAdv b) = Some b"
| "held _ = None"

text \<open>Where \<open>AdvanceHighWaterMark\<close> returns to: the deferred release, or the end of the job.\<close>

fun ret :: "u64 option \<Rightarrow> pc" where
  "ret None = Idle"
| "ret (Some b) = Release b"

definition walked :: "u64 option \<Rightarrow> u64 \<Rightarrow> u64 \<Rightarrow> pc" where
  "walked h l a = (if a > l then AdvSetGet h a else ret h)"

record conc =
  cMarked :: "u64 \<Rightarrow> bool"
  cLast :: u64
  cInFlight :: "u64 set"
  cDone :: "u64 set"
  cPc :: "nat \<Rightarrow> pc"

definition goto :: "nat \<Rightarrow> pc \<Rightarrow> conc \<Rightarrow> conc" where
  "goto i p s = s\<lparr>cPc := (cPc s)(i := p)\<rparr>"

inductive cstep :: "nat \<Rightarrow> conc \<Rightarrow> conc \<Rightarrow> bool" for i where
  take_duplicate: "cPc s i = Idle \<Longrightarrow> b \<in> cInFlight s \<Longrightarrow> cstep i s s"
| take: "cPc s i = Idle \<Longrightarrow> b \<notin> cInFlight s \<Longrightarrow>
    cstep i s (goto i (Query b) (s\<lparr>cInFlight := insert b (cInFlight s)\<rparr>))"
| query_error: "cPc s i = Query b \<Longrightarrow> cstep i s (goto i (Release b) s)"
| query_done: "cPc s i = Query b \<Longrightarrow> cMarked s b \<Longrightarrow> cstep i s (goto i (ReleaseAdv b) s)"
| query_new: "cPc s i = Query b \<Longrightarrow> \<not> cMarked s b \<Longrightarrow> cstep i s (goto i (Height b) s)"
| height_leave: "cPc s i = Height b \<Longrightarrow> cstep i s (goto i (Release b) s)"
| height_deep: "cPc s i = Height b \<Longrightarrow> cstep i s (goto i (Process b) s)"
| process_leave: "cPc s i = Process b \<Longrightarrow> cstep i s (goto i (Release b) s)"
| process_true: "cPc s i = Process b \<Longrightarrow> cstep i s (goto i (Mark b) (s\<lparr>cDone := insert b (cDone s)\<rparr>))"
| mark_ok: "cPc s i = Mark b \<Longrightarrow>
    cstep i s (goto i (DropCache b) (s\<lparr>cMarked := (cMarked s)(b := True)\<rparr>))"
| mark_error: "cPc s i = Mark b \<Longrightarrow> cstep i s (goto i (Release b) s)"
| mark_error_done: "cPc s i = Mark b \<Longrightarrow>
    cstep i s (goto i (Release b) (s\<lparr>cMarked := (cMarked s)(b := True)\<rparr>))"
| drop_cache: "cPc s i = DropCache b \<Longrightarrow> cstep i s (goto i (AdvGet (Some b)) s)"
| advance_error: "cPc s i = AdvGet h \<Longrightarrow> cstep i s (goto i (ret h) s)"
| advance_read: "cPc s i = AdvGet h \<Longrightarrow> cstep i s (goto i (AdvWalk h (cLast s) (cLast s)) s)"
| walk_error: "cPc s i = AdvWalk h l a \<Longrightarrow> cstep i s (goto i (ret h) s)"
| walk_end: "cPc s i = AdvWalk h l a \<Longrightarrow> \<not> cMarked s (a + 1) \<Longrightarrow> cstep i s (goto i (walked h l a) s)"
| walk_next: "cPc s i = AdvWalk h l a \<Longrightarrow> cMarked s (a + 1) \<Longrightarrow> \<not> a + 1 - l > 10000 \<Longrightarrow>
    cstep i s (goto i (AdvWalk h l (a + 1)) s)"
| walk_limit: "cPc s i = AdvWalk h l a \<Longrightarrow> cMarked s (a + 1) \<Longrightarrow> a + 1 - l > 10000 \<Longrightarrow>
    cstep i s (goto i (walked h l (a + 1)) s)"
| set_read_error: "cPc s i = AdvSetGet h a \<Longrightarrow> cstep i s (goto i (ret h) s)"
| set_backwards: "cPc s i = AdvSetGet h a \<Longrightarrow> a < cLast s \<Longrightarrow> cstep i s (goto i (ret h) s)"
| set_forwards: "cPc s i = AdvSetGet h a \<Longrightarrow> \<not> a < cLast s \<Longrightarrow> cstep i s (goto i (AdvSet h a) s)"
| set_error: "cPc s i = AdvSet h a \<Longrightarrow> cstep i s (goto i (ret h) s)"
| set_done: "cPc s i = AdvSet h a \<Longrightarrow> cstep i s (goto i (ret h) (s\<lparr>cLast := a\<rparr>))"
| release: "cPc s i = Release b \<Longrightarrow>
    cstep i s (goto i Idle (s\<lparr>cInFlight := cInFlight s - {b}\<rparr>))"
| release_advance: "cPc s i = ReleaseAdv b \<Longrightarrow>
    cstep i s (goto i (AdvGet None) (s\<lparr>cInFlight := cInFlight s - {b}\<rparr>))"
| poll_read: "cPc s i = Idle \<Longrightarrow> v < cLast s \<Longrightarrow> cstep i s (goto i (PollForce v) s)"
| poll_error: "cPc s i = PollForce v \<Longrightarrow> cstep i s (goto i Idle s)"
| poll_force: "cPc s i = PollForce v \<Longrightarrow> cstep i s (goto i Idle (s\<lparr>cLast := v\<rparr>))"

inductive_cases cstepE: "cstep i s s'"

definition csteps :: "conc \<Rightarrow> conc \<Rightarrow> bool" where
  "csteps = (\<lambda>s s'. \<exists>i. cstep i s s')\<^sup>*\<^sup>*"

text \<open>A start of the concurrent run: nothing in flight, every goroutine idle.\<close>

definition cinit :: "conc \<Rightarrow> bool" where
  "cinit s \<longleftrightarrow> cInFlight s = {} \<and> cDone s = {} \<and> (\<forall>i. cPc s i = Idle)"

section \<open>The invariant\<close>

text \<open>
  What a goroutine relies on at each program point: a block it is about to process or mark is not
  marked, and a value it may still write as the mark has only marked blocks below it.
\<close>

fun pc_ok :: "u64 \<Rightarrow> conc \<Rightarrow> pc \<Rightarrow> bool" where
  "pc_ok base s (Height b) \<longleftrightarrow> \<not> cMarked s b"
| "pc_ok base s (Process b) \<longleftrightarrow> \<not> cMarked s b"
| "pc_ok base s (Mark b) \<longleftrightarrow> \<not> cMarked s b \<and> b \<in> cDone s"
| "pc_ok base s (AdvWalk h l a) \<longleftrightarrow> hwm_safe (cMarked s) a base"
| "pc_ok base s (AdvSetGet h a) \<longleftrightarrow> hwm_safe (cMarked s) a base"
| "pc_ok base s (AdvSet h a) \<longleftrightarrow> hwm_safe (cMarked s) a base"
| "pc_ok base s (PollForce v) \<longleftrightarrow> hwm_safe (cMarked s) v base"
| "pc_ok base s _ \<longleftrightarrow> True"

definition exclusive :: "conc \<Rightarrow> bool" where
  "exclusive s \<longleftrightarrow>
     (\<forall>i b. held (cPc s i) = Some b \<longrightarrow> b \<in> cInFlight s) \<and>
     (\<forall>i j b. held (cPc s i) = Some b \<and> held (cPc s j) = Some b \<longrightarrow> i = j)"

definition cinv :: "u64 \<Rightarrow> (u64 \<Rightarrow> bool) \<Rightarrow> conc \<Rightarrow> bool" where
  "cinv base m0 s \<longleftrightarrow>
     exclusive s \<and> hwm_safe (cMarked s) (cLast s) base \<and> (\<forall>i. pc_ok base s (cPc s i)) \<and>
     (\<forall>b. cMarked s b \<longrightarrow> m0 b \<or> b \<in> cDone s)"

text \<open>The in-flight set as a lock: keeping, taking and giving back a block.\<close>

lemma goto_simps [simp]:
  "cMarked (goto i p s) = cMarked s" "cLast (goto i p s) = cLast s" "cInFlight (goto i p s) = cInFlight s"
  "cDone (goto i p s) = cDone s" "cPc (goto i p s) = (cPc s)(i := p)"
  by (simp_all add: goto_def)

lemma exclusive_keep:
  assumes "exclusive s" "cPc s1 = cPc s" "cInFlight s1 = cInFlight s"
    and "held p = held (cPc s i) \<or> held p = None"
  shows "exclusive (goto i p s1)"
proof -
  have "held (((cPc s1)(i := p)) j) = Some b \<Longrightarrow> held (cPc s j) = Some b" for j b
    using assms(2,4) by (auto split: if_splits)
  with assms(1,3) show ?thesis unfolding exclusive_def goto_simps by blast
qed

lemma exclusive_take:
  assumes "exclusive s" "cPc s1 = cPc s" "cInFlight s1 = insert b (cInFlight s)" "b \<notin> cInFlight s"
    and "held p = Some b"
  shows "exclusive (goto i p s1)"
  using assms unfolding exclusive_def by auto

lemma exclusive_give:
  assumes "exclusive s" "cPc s1 = cPc s" "cInFlight s1 = cInFlight s - {b}" "held (cPc s i) = Some b"
    and "held p = None"
  shows "exclusive (goto i p s1)"
  using assms unfolding exclusive_def by auto

text \<open>Marks only grow, so safe values stay safe; only the holder of a block can mark it.\<close>

lemma hwm_safe_mono:
  "hwm_safe m v base \<Longrightarrow> (\<And>b. m b \<Longrightarrow> m' b) \<Longrightarrow> hwm_safe m' v base"
  by (simp add: hwm_safe_def)

lemma pc_ok_goto [simp]: "pc_ok base (goto i q s) p = pc_ok base s p"
  by (cases p) simp_all

lemma pc_ok_mono:
  assumes "pc_ok base s p" "\<And>b. cMarked s b \<Longrightarrow> cMarked s' b" "cDone s \<subseteq> cDone s'"
    and "\<And>b. held p = Some b \<Longrightarrow> cMarked s' b \<Longrightarrow> cMarked s b"
  shows "pc_ok base s' p"
  using assms by (cases p) (auto intro: hwm_safe_mono)

text \<open>One step of goroutine \<open>i\<close> on the shared state keeps the invariant.\<close>

lemma cinv_step:
  assumes inv: "cinv base m0 s" and pcs: "cPc s1 = cPc s"
    and up: "\<And>b. cMarked s b \<Longrightarrow> cMarked s1 b"
    and new: "\<And>b. cMarked s1 b \<Longrightarrow> cMarked s b \<or> held (cPc s i) = Some b \<and> b \<in> cDone s"
    and fin: "cDone s \<subseteq> cDone s1" and ex: "exclusive (goto i p s1)"
    and last: "hwm_safe (cMarked s1) (cLast s1) base" and ok: "pc_ok base s1 p"
  shows "cinv base m0 (goto i p s1)"
proof -
  have "pc_ok base s1 (cPc s j)" if "j \<noteq> i" for j
  proof (rule pc_ok_mono [OF _ up fin])
    show "pc_ok base s (cPc s j)" using inv by (simp add: cinv_def)
    show "cMarked s b" if "held (cPc s j) = Some b" "cMarked s1 b" for b
      using new [OF that(2)] inv \<open>j \<noteq> i\<close> that(1) unfolding cinv_def exclusive_def by blast
  qed
  then have "\<forall>j. pc_ok base (goto i p s1) (cPc (goto i p s1) j)"
    using ok pcs by simp
  moreover have "\<forall>b. cMarked s1 b \<longrightarrow> m0 b \<or> b \<in> cDone s1"
    using new fin inv unfolding cinv_def by blast
  ultimately show ?thesis using ex last by (simp add: cinv_def)
qed

lemma cinv_move:
  assumes "cinv base m0 s" "held p = held (cPc s i) \<or> held p = None" "pc_ok base s p"
  shows "cinv base m0 (goto i p s)"
  using assms by (intro cinv_step [OF assms(1)]) (auto simp: cinv_def intro: exclusive_keep)

lemma cinv_pc: "cinv base m0 s \<Longrightarrow> cPc s i = p \<Longrightarrow> pc_ok base s p"
  by (auto simp: cinv_def)

lemma held_ret [simp]: "held (ret h) = h"
  by (cases h) simp_all

lemma pc_ok_ret [simp]: "pc_ok base s (ret h)"
  by (cases h) simp_all

lemma held_walked [simp]: "held (walked h l a) = h"
  by (simp add: walked_def)

lemma pc_ok_walked: "hwm_safe (cMarked s) a base \<Longrightarrow> pc_ok base s (walked h l a)"
  by (simp add: walked_def)

lemma hwm_safe_next:
  assumes "hwm_safe m a base" "m (a + 1)"
  shows "hwm_safe m (a + 1) base"
proof -
  have "b \<le> a" if "b \<le> a + 1" "b \<noteq> a + 1" for b :: u64
    using that by unat_arith
  with assms show ?thesis unfolding hwm_safe_def by metis
qed

lemma hwm_safe_le: "hwm_safe m a base \<Longrightarrow> v \<le> a \<Longrightarrow> hwm_safe m v base"
  unfolding hwm_safe_def by (meson order_trans)

lemma hwm_safe_mark: "hwm_safe m v base \<Longrightarrow> hwm_safe (m(b := True)) v base"
  by (simp add: hwm_safe_def)

lemma cinvD:
  assumes "cinv base m0 s"
  shows "exclusive s" "hwm_safe (cMarked s) (cLast s) base"
  using assms by (simp_all add: cinv_def)

lemma cstep_cinv:
  assumes "cstep i s s'" "cinv base m0 s"
  shows "cinv base m0 s'"
  using assms
proof (cases rule: cstep.cases)
  case (take b)
  then show ?thesis
    by (auto intro!: cinv_step [OF assms(2)] cinvD [OF assms(2)] exclusive_take [of s _ b] simp: cinvD [OF assms(2)])
next
  case (process_true b)
  with cinv_pc [OF assms(2) process_true(2)] show ?thesis
    by (auto intro!: cinv_step [OF assms(2)] cinvD [OF assms(2)] exclusive_keep [of s] simp: cinvD [OF assms(2)])
next
  case (mark_ok b)
  with cinv_pc [OF assms(2) mark_ok(2)] show ?thesis
    by (auto intro!: cinv_step [OF assms(2)] cinvD [OF assms(2)] exclusive_keep [of s] simp: cinvD [OF assms(2)]
        hwm_safe_mark split: if_splits)
next
  case (mark_error_done b)
  with cinv_pc [OF assms(2) mark_error_done(2)] show ?thesis
    by (auto intro!: cinv_step [OF assms(2)] cinvD [OF assms(2)] exclusive_keep [of s] simp: cinvD [OF assms(2)]
        hwm_safe_mark split: if_splits)
next
  case (walk_next h l a)
  with cinv_pc [OF assms(2) walk_next(2)] show ?thesis
    by (auto intro!: cinv_move [OF assms(2)] hwm_safe_next)
next
  case (walk_limit h l a)
  with cinv_pc [OF assms(2) walk_limit(2)] show ?thesis
    by (auto intro!: cinv_move [OF assms(2)] pc_ok_walked hwm_safe_next)
next
  case (walk_end h l a)
  with cinv_pc [OF assms(2) walk_end(2)] show ?thesis
    by (auto intro!: cinv_move [OF assms(2)] pc_ok_walked)
next
  case (set_done h a)
  with cinv_pc [OF assms(2) set_done(2)] show ?thesis
    by (auto intro!: cinv_step [OF assms(2)] cinvD [OF assms(2)] exclusive_keep [of s] simp: cinvD [OF assms(2)])
next
  case (poll_force v)
  with cinv_pc [OF assms(2) poll_force(2)] show ?thesis
    by (auto intro!: cinv_step [OF assms(2)] cinvD [OF assms(2)] exclusive_keep [of s] simp: cinvD [OF assms(2)])
next
  case (release b)
  then show ?thesis
    by (auto intro!: cinv_step [OF assms(2)] cinvD [OF assms(2)] exclusive_give [of s _ b] simp: cinvD [OF assms(2)])
next
  case (release_advance b)
  then show ?thesis
    by (auto intro!: cinv_step [OF assms(2)] cinvD [OF assms(2)] exclusive_give [of s _ b] simp: cinvD [OF assms(2)])
next
  case (set_forwards h a)
  with cinv_pc [OF assms(2) set_forwards(2)] show ?thesis by (auto intro!: cinv_move [OF assms(2)])
next
  case (poll_read v)
  then show ?thesis
    by (auto intro!: cinv_move [OF assms(2)] hwm_safe_le [OF cinvD(2) [OF assms(2)]] less_imp_le)
next
  case (height_deep b)
  with cinv_pc [OF assms(2) height_deep(2)] show ?thesis by (auto intro!: cinv_move [OF assms(2)])
next
  case (advance_read h)
  then show ?thesis by (auto intro!: cinv_move [OF assms(2)] simp: cinvD [OF assms(2)])
qed (auto intro!: cinv_move [OF assms(2)] simp: assms(2))

lemma csteps_cinv: "csteps s s' \<Longrightarrow> cinv base m0 s \<Longrightarrow> cinv base m0 s'"
  unfolding csteps_def by (induction rule: rtranclp_induct) (auto intro: cstep_cinv)

lemma cinit_cinv:
  assumes "cinit s" "hwm_safe (cMarked s) (cLast s) base"
  shows "cinv base (cMarked s) s"
  using assms by (simp add: cinit_def cinv_def exclusive_def)

section \<open>Properties of every interleaving\<close>

text \<open>
  C12: The high-water mark is safe under every interleaving. Whatever the order in which the workers
  and the polling loop execute their Redis commands and whichever of them fail, the stored mark
  never has an unmarked block above the baseline below it, and every block that became marked was
  reported as completely handled by some run of the processor.
\<close>

theorem interleaving_keeps_mark_safe:
  assumes "cinit s0" "hwm_safe (cMarked s0) (cLast s0) base" "csteps s0 s"
  shows "hwm_safe (cMarked s) (cLast s) base \<and> (\<forall>b. cMarked s b \<longrightarrow> cMarked s0 b \<or> b \<in> cDone s)"
  using csteps_cinv [OF assms(3) cinit_cinv [OF assms(1,2)]] by (simp add: cinv_def)

text \<open>
  C13: Two workers never process the same block. In every reachable state, while a worker runs the
  processor on a block, no other goroutine has that block in flight and the block is not marked:
  a block whose mark was stored is never processed again.
\<close>

theorem one_worker_per_block:
  assumes "cinit s0" "csteps s0 s" "cPc s i = Process b"
  shows "(\<forall>j. held (cPc s j) = Some b \<longrightarrow> j = i) \<and> \<not> cMarked s b \<and> b \<in> cInFlight s"
proof -
  have "hwm_safe (cMarked s0) (cLast s0) (cLast s0)" by (auto simp: hwm_safe_def)
  from csteps_cinv [OF assms(2) cinit_cinv [OF assms(1) this]]
  have inv: "exclusive s" "pc_ok (cLast s0) s (Process b)"
    using assms(3) by (auto simp: cinv_def dest: spec [of _ i])
  moreover have "held (cPc s i) = Some b" using assms(3) by simp
  ultimately show ?thesis unfolding exclusive_def by auto
qed

text \<open>A run for the examples: worker 0 handles block 42, which nobody marked yet.\<close>

definition conc0 :: conc where
  "conc0 = \<lparr>cMarked = (\<lambda>b. b = 43), cLast = 41, cInFlight = {}, cDone = {}, cPc = (\<lambda>_. Idle)\<rparr>"

lemma csteps_step: "csteps s s1 \<Longrightarrow> cstep i s1 s2 \<Longrightarrow> csteps s s2"
  unfolding csteps_def by (rule rtranclp.rtrancl_into_rtrancl) auto

lemma csteps_refl: "csteps s s"
  by (simp add: csteps_def)

definition conc1 :: conc where
  "conc1 = goto 0 (Process 42) (goto 0 (Height 42) (goto 0 (Query 42) (conc0\<lparr>cInFlight := {42}\<rparr>)))"

lemma conc0_run: "csteps conc0 conc1"
proof -
  have "cstep 0 conc0 (goto 0 (Query 42) (conc0\<lparr>cInFlight := insert 42 (cInFlight conc0)\<rparr>))"
    by (rule cstep.take) (simp_all add: conc0_def)
  then have 1: "csteps conc0 (goto 0 (Query 42) (conc0\<lparr>cInFlight := {42}\<rparr>))"
    using csteps_step [OF csteps_refl] by (simp add: conc0_def)
  have 2: "cstep 0 (goto 0 (Query 42) (conc0\<lparr>cInFlight := {42}\<rparr>))
      (goto 0 (Height 42) (goto 0 (Query 42) (conc0\<lparr>cInFlight := {42}\<rparr>)))"
    by (rule cstep.query_new [of _ _ 42]) (simp_all add: conc0_def)
  have 3: "cstep 0 (goto 0 (Height 42) (goto 0 (Query 42) (conc0\<lparr>cInFlight := {42}\<rparr>))) conc1"
    unfolding conc1_def by (rule cstep.height_deep) simp
  show ?thesis by (rule csteps_step [OF csteps_step [OF 1 2] 3])
qed

theorem one_worker_per_block_witness:
  "cinit conc0 \<and> csteps conc0 conc1 \<and> cPc conc1 0 = Process 42 \<and> \<not> cMarked conc1 42"
proof -
  have "cinit conc0" by (simp add: cinit_def conc0_def)
  moreover have "cPc conc1 0 = Process 42" by (simp add: conc1_def)
  ultimately show ?thesis using one_worker_per_block [of conc0 conc1 0 42] conc0_run by simp
qed

theorem interleaving_keeps_mark_safe_witness:
  "cinit conc0 \<and> csteps conc0 conc1 \<and> hwm_safe (cMarked conc1) (cLast conc1) 41"
proof -
  have "cinit conc0" "hwm_safe (cMarked conc0) (cLast conc0) 41"
    by (auto simp: cinit_def conc0_def hwm_safe_def)
  then show ?thesis using interleaving_keeps_mark_safe [of conc0 41 conc1] conc0_run by simp
qed

section \<open>The mark can move backwards\<close>

text \<open>
  States of two goroutines, written by their shared parts and the two program counters, for the
  run below.
\<close>

definition mk :: "u64 set \<Rightarrow> u64 \<Rightarrow> u64 set \<Rightarrow> u64 set \<Rightarrow> pc \<Rightarrow> pc \<Rightarrow> conc" where
  "mk m l f d p q = \<lparr>cMarked = (\<lambda>b. b \<in> m), cLast = l, cInFlight = f, cDone = d,
     cPc = (\<lambda>i. if i = 0 then p else if i = 1 then q else Idle)\<rparr>"

lemma mk_simps [simp]:
  "cMarked (mk m l f d p q) b \<longleftrightarrow> b \<in> m" "cLast (mk m l f d p q) = l"
  "cInFlight (mk m l f d p q) = f" "cDone (mk m l f d p q) = d"
  "cPc (mk m l f d p q) 0 = p" "cPc (mk m l f d p q) (Suc 0) = q"
  "goto 0 r (mk m l f d p q) = mk m l f d r q" "goto (Suc 0) r (mk m l f d p q) = mk m l f d p r"
  "(mk m l f d p q)\<lparr>cLast := l'\<rparr> = mk m l' f d p q"
  "(mk m l f d p q)\<lparr>cInFlight := f'\<rparr> = mk m l f' d p q"
  "(mk m l f d p q)\<lparr>cDone := d'\<rparr> = mk m l f d' p q"
  "(mk m l f d p q)\<lparr>cMarked := (cMarked (mk m l f d p q))(b := True)\<rparr> = mk (insert b m) l f d p q"
  by (auto simp: mk_def goto_def fun_eq_iff)

text \<open>Worker 0 finds block 42 marked, walks to it and is about to write 42.\<close>

lemma race_first: "csteps (mk {42} 41 {} {} (Idle) (Idle)) (mk {42} 41 {} {} (AdvSet None 42) (Idle))"
proof -
  let ?A = "mk {42} 41 {} {} (Idle) (Idle)"
  have 0: "csteps ?A (mk {42} 41 {42} {} (Query 42) (Idle))"
    using csteps_step [OF csteps_refl [of ?A] cstep.take [where i = 0 and b = 42]] by (simp add: walked_def)
  have 1: "csteps ?A (mk {42} 41 {42} {} (ReleaseAdv 42) (Idle))"
    using csteps_step [OF 0 cstep.query_done [where i = 0 and b = 42]] by (simp add: walked_def)
  have 2: "csteps ?A (mk {42} 41 {} {} (AdvGet None) (Idle))"
    using csteps_step [OF 1 cstep.release_advance [where i = 0 and b = 42]] by (simp add: walked_def)
  have 3: "csteps ?A (mk {42} 41 {} {} (AdvWalk None 41 41) (Idle))"
    using csteps_step [OF 2 cstep.advance_read [where i = 0 and h = None]] by (simp add: walked_def)
  have 4: "csteps ?A (mk {42} 41 {} {} (AdvWalk None 41 42) (Idle))"
    using csteps_step [OF 3 cstep.walk_next [where i = 0 and h = None and l = 41 and a = 41]] by (simp add: walked_def)
  have 5: "csteps ?A (mk {42} 41 {} {} (AdvSetGet None 42) (Idle))"
    using csteps_step [OF 4 cstep.walk_end [where i = 0 and h = None and l = 41 and a = 42]] by (simp add: walked_def)
  show "csteps ?A (mk {42} 41 {} {} (AdvSet None 42) (Idle))"
    using csteps_step [OF 5 cstep.set_forwards [where i = 0 and h = None and a = 42]] by (simp add: walked_def)
qed

text \<open>Meanwhile worker 1 processes block 43 and writes 43.\<close>

lemma race_second: "csteps (mk {42} 41 {} {} (AdvSet None 42) (Idle)) (mk {43, 42} 43 {43} {43} (AdvSet None 42) (Release 43))"
proof -
  let ?A = "mk {42} 41 {} {} (AdvSet None 42) (Idle)"
  have 0: "csteps ?A (mk {42} 41 {43} {} (AdvSet None 42) (Query 43))"
    using csteps_step [OF csteps_refl [of ?A] cstep.take [where i = 1 and b = 43]] by (simp add: walked_def)
  have 1: "csteps ?A (mk {42} 41 {43} {} (AdvSet None 42) (Height 43))"
    using csteps_step [OF 0 cstep.query_new [where i = 1 and b = 43]] by (simp add: walked_def)
  have 2: "csteps ?A (mk {42} 41 {43} {} (AdvSet None 42) (Process 43))"
    using csteps_step [OF 1 cstep.height_deep [where i = 1 and b = 43]] by (simp add: walked_def)
  have 3: "csteps ?A (mk {42} 41 {43} {43} (AdvSet None 42) (Mark 43))"
    using csteps_step [OF 2 cstep.process_true [where i = 1 and b = 43]] by (simp add: walked_def)
  have 4: "csteps ?A (mk {43, 42} 41 {43} {43} (AdvSet None 42) (DropCache 43))"
    using csteps_step [OF 3 cstep.mark_ok [where i = 1 and b = 43]] by (simp add: walked_def)
  have 5: "csteps ?A (mk {43, 42} 41 {43} {43} (AdvSet None 42) (AdvGet (Some 43)))"
    using csteps_step [OF 4 cstep.drop_cache [where i = 1 and b = 43]] by (simp add: walked_def)
  have 6: "csteps ?A (mk {43, 42} 41 {43} {43} (AdvSet None 42) (AdvWalk (Some 43) 41 41))"
    using csteps_step [OF 5 cstep.advance_read [where i = 1 and h = "Some 43"]] by (simp add: walked_def)
  have 7: "csteps ?A (mk {43, 42} 41 {43} {43} (AdvSet None 42) (AdvWalk (Some 43) 41 42))"
    using csteps_step [OF 6 cstep.walk_next [where i = 1 and h = "Some 43" and l = 41 and a = 41]] by (simp add: walked_def)
  have 8: "csteps ?A (mk {43, 42} 41 {43} {43} (AdvSet None 42) (AdvWalk (Some 43) 41 43))"
    using csteps_step [OF 7 cstep.walk_next [where i = 1 and h = "Some 43" and l = 41 and a = 42]] by (simp add: walked_def)
  have 9: "csteps ?A (mk {43, 42} 41 {43} {43} (AdvSet None 42) (AdvSetGet (Some 43) 43))"
    using csteps_step [OF 8 cstep.walk_end [where i = 1 and h = "Some 43" and l = 41 and a = 43]] by (simp add: walked_def)
  have 10: "csteps ?A (mk {43, 42} 41 {43} {43} (AdvSet None 42) (AdvSet (Some 43) 43))"
    using csteps_step [OF 9 cstep.set_forwards [where i = 1 and h = "Some 43" and a = 43]] by (simp add: walked_def)
  show "csteps ?A (mk {43, 42} 43 {43} {43} (AdvSet None 42) (Release 43))"
    using csteps_step [OF 10 cstep.set_done [where i = 1 and h = "Some 43" and a = 43]] by (simp add: walked_def)
qed


end
