(* ===== verification/Json_Http.thy ===== *)
theory Json_Http
  imports Bloop_Types
begin

text \<open>
  What the chain clients use of the network: JSON documents as package \<open>encoding/json\<close> decodes them
  into Go values, HTTP requests and responses, and the services a client waits for (the HTTP
  transport, the rate limiter, timers, the context), which are parameters over a state \<open>'e\<close> of the
  outside world.

  A response carries the bytes of its body and the JSON document they are, if they are one; the
  layer from bytes to documents is not modelled. The decoders follow \<open>json.Unmarshal\<close>: a missing or
  \<open>null\<close> member leaves the zero value, keys match without regard to case and the last one counts, a
  value of another type is an error. A decoder yields a fresh value: where the code decodes twice
  into the same variable, the first attempt failed and its partial result is dropped.
\<close>

section \<open>Results\<close>

definition rbind :: "'a res \<Rightarrow> ('a \<Rightarrow> 'b res) \<Rightarrow> 'b res" where
  "rbind r f = (case r of Inl err \<Rightarrow> Inl err | Inr x \<Rightarrow> f x)"

lemma rbind_simps [simp]: "rbind (Inl err) f = Inl err" "rbind (Inr x) f = f x"
  by (simp_all add: rbind_def)

lemma rbind_Inr_iff: "rbind r f = Inr y \<longleftrightarrow> (\<exists>x. r = Inr x \<and> f x = Inr y)"
  by (cases r) simp_all

fun mapM :: "('a \<Rightarrow> 'b res) \<Rightarrow> 'a list \<Rightarrow> 'b list res" where
  "mapM f [] = Inr []"
| "mapM f (x # xs) = rbind (f x) (\<lambda>y. rbind (mapM f xs) (\<lambda>ys. Inr (y # ys)))"

section \<open>JSON documents\<close>

text \<open>
  A number is an integer literal, or, with a fraction or an exponent, the \<open>float64\<close> it denotes. A Go
  integer is decoded from integer literals in its range only.
\<close>

datatype json = JNull | JBool bool | JInt int | JFloat rat | JStr string
  | JArr "json list" | JObj "(string \<times> json) list"

definition type_error :: error where
  "type_error = ErrorString ''json: cannot unmarshal value into Go value''"

fun as_obj :: "json \<Rightarrow> (string \<times> json) list res" where
  "as_obj (JObj o') = Inr o'"
| "as_obj JNull = Inr []"
| "as_obj _ = Inl type_error"

text \<open>The member of a key (\<open>JNull\<close> when it is missing), and the raw text of it, where \<open>null\<close> differs from missing.\<close>

definition field :: "string \<Rightarrow> (string \<times> json) list \<Rightarrow> json" where
  "field k o' = (case rev (filter (\<lambda>(k', v). EqualFold k k' \<and> v \<noteq> JNull) o') of
     [] \<Rightarrow> JNull | (_, v) # _ \<Rightarrow> v)"

definition raw_field :: "string \<Rightarrow> (string \<times> json) list \<Rightarrow> json option" where
  "raw_field k o' = (case rev (filter (\<lambda>(k', v). EqualFold k k') o') of
     [] \<Rightarrow> None | (_, v) # _ \<Rightarrow> Some v)"

fun dec_string :: "json \<Rightarrow> string res" where
  "dec_string (JStr s) = Inr s"
| "dec_string JNull = Inr ''''"
| "dec_string _ = Inl type_error"

fun dec_int64 :: "json \<Rightarrow> int res" where
  "dec_int64 (JInt n) = (if - (2 ^ 63) \<le> n \<and> n < 2 ^ 63 then Inr n else Inl type_error)"
| "dec_int64 JNull = Inr 0"
| "dec_int64 _ = Inl type_error"

fun dec_uint64 :: "json \<Rightarrow> u64 res" where
  "dec_uint64 (JInt n) = (if 0 \<le> n \<and> n < 2 ^ 64 then Inr (word_of_int n) else Inl type_error)"
| "dec_uint64 JNull = Inr 0"
| "dec_uint64 _ = Inl type_error"

fun dec_list :: "(json \<Rightarrow> 'a res) \<Rightarrow> json \<Rightarrow> 'a list res" where
  "dec_list f (JArr xs) = mapM f xs"
| "dec_list f JNull = Inr []"
| "dec_list f _ = Inl type_error"

text \<open>A chain of nested objects, as the anonymous structs of the response types.\<close>

definition in_obj :: "string \<Rightarrow> json \<Rightarrow> ((string \<times> json) list \<Rightarrow> 'a res) \<Rightarrow> 'a res" where
  "in_obj k j f = rbind (as_obj j) (\<lambda>o'. rbind (as_obj (field k o')) f)"

section \<open>HTTP\<close>

record http_request =
  reqMethod :: string
  reqURL :: string
  reqHeaders :: "(string \<times> string) list"
  reqBody :: "json option"

text \<open>
  \<open>respBody\<close> is the result of reading the body, \<open>respJson\<close> the document it is, \<open>respRetryAfter\<close> the header
  \<open>Retry-After\<close> as \<open>time.ParseDuration\<close> reads it with an \<open>s\<close> appended.
\<close>

record http_response =
  respStatus :: int
  respContentType :: string
  respRetryAfter :: "duration option"
  respBody :: "string res"
  respJson :: "json option"

definition decode_error :: error where
  "decode_error = ErrorString ''invalid JSON''"

definition decode_body :: "(json \<Rightarrow> 'a res) \<Rightarrow> http_response \<Rightarrow> 'a res" where
  "decode_body f resp =
     (case respBody resp of
        Inl err \<Rightarrow> Inl err
      | Inr _ \<Rightarrow> (case respJson resp of None \<Rightarrow> Inl decode_error | Some j \<Rightarrow> f j))"

text \<open>
  The services: the transport \<open>net_do\<close>, the check \<open>net_urlErr\<close> of a URL when a request is built, the
  rate limiter's \<open>Wait\<close>, the error of the context (\<open>None\<close> while it is not done), a timer that either
  fires or is interrupted by the context (\<open>True\<close>), and the clock.
\<close>

record 'e netio =
  net_do :: "http_request \<Rightarrow> 'e \<Rightarrow> http_response res \<times> 'e"
  net_urlErr :: "string \<Rightarrow> error option"
  net_wait :: "'e \<Rightarrow> error option \<times> 'e"
  net_ctxErr :: "'e \<Rightarrow> error option"
  net_sleep :: "duration \<Rightarrow> 'e \<Rightarrow> bool \<times> 'e"
  net_now :: "'e \<Rightarrow> go_time \<times> 'e"

text \<open>The error \<open>ctx.Err()\<close> where the context is known to be done.\<close>

definition ctx_error :: "'e netio \<Rightarrow> 'e \<Rightarrow> error" where
  "ctx_error N e = (case net_ctxErr N e of None \<Rightarrow> ContextCanceled | Some err \<Rightarrow> err)"

text \<open>
  The services of a client do not touch what another service stores: \<open>net_frame N view\<close> says that the
  part \<open>view\<close> shows (the keyspace of Redis, the messages at the broker) is the same after every call.
\<close>

definition net_frame :: "'e netio \<Rightarrow> ('e \<Rightarrow> 'v) \<Rightarrow> bool" where
  "net_frame N view \<longleftrightarrow>
     (\<forall>req e. view (snd (net_do N req e)) = view e) \<and> (\<forall>e. view (snd (net_wait N e)) = view e) \<and>
     (\<forall>d e. view (snd (net_sleep N d e)) = view e) \<and> (\<forall>e. view (snd (net_now N e)) = view e)"

lemma net_frameD:
  assumes "net_frame N view"
  shows "net_do N req e = (r, e') \<Longrightarrow> view e' = view e" "net_wait N e = (x, e') \<Longrightarrow> view e' = view e"
    "net_sleep N d e = (b, e') \<Longrightarrow> view e' = view e" "net_now N e = (n, e') \<Longrightarrow> view e' = view e"
  using assms unfolding net_frame_def by (metis snd_conv)+

end
