(* ===== verification/Config_Model.thy ===== *)
theory Config_Model
  imports Bloop_Types
begin

text \<open>
  The configuration of \<open>internal/config/config.go\<close>: its structures, the defaults and environment
  overrides handed to the configuration library, normalization and validation. The library
  (\<open>viper\<close>) that merges defaults, file and overrides and fills the structures is a parameter of
  \<open>Load\<close>; so is go-ethereum's \<open>common.IsHexAddress\<close> in the validation.
\<close>

section \<open>Structures\<close>

record ServerConfig =
  srvPort :: int
  srvReadTimeout :: duration
  srvWriteTimeout :: duration

record RedisConfig =
  rdsURL :: string
  rdsPoolSize :: int
  rdsMinIdleConns :: int
  rdsDialTimeout :: duration
  rdsReadTimeout :: duration
  rdsWriteTimeout :: duration

record RabbitMQConfig =
  rmqURL :: string
  rmqExchange :: string
  rmqQueuePrefix :: string
  rmqPrefetchCount :: int

record TokenConfig =
  tkCurrency :: string
  tkContract :: string
  tkDecimals :: int

record EVMConfig =
  evmNetwork :: BlockchainType
  evmNativeCurrency :: Currency
  evmRPCURLs :: "string list"
  evmWSURL :: string
  evmOminiRPCURL :: string
  evmOminiRPCURLs :: "string list"
  evmOminiRequestsPerSecond :: int
  evmOminiRequestsBurst :: int
  evmTokens :: "TokenConfig list"
  evmConfirmations :: int
  evmBatchSize :: int
  evmMaxConcurrentBlocks :: int
  evmRPCTimeout :: duration
  evmRetryAttempts :: int
  evmRetryDelay :: duration
  evmBlockFetchMode :: string
  evmTxFetchConcurrency :: int
  evmIsActive :: bool
  evmSkipNative :: bool

record UTXOConfig =
  utxoNetwork :: BlockchainType
  utxoNativeCurrency :: Currency
  utxoAPIURL :: string
  utxoAPIURLs :: "string list"
  utxoWSURL :: string
  utxoConfirmations :: int
  utxoBatchSize :: int
  utxoMaxConcurrentBlocks :: int
  utxoRPCTimeout :: duration
  utxoRetryAttempts :: int
  utxoRetryDelay :: duration
  utxoTxFetchConcurrency :: int
  utxoRequeueDelay :: duration
  utxoRequestsPerSecond :: int
  utxoRequestsBurst :: int
  utxoIsActive :: bool

record TronConfig =
  trxAPIURL :: string
  trxAPIURLs :: "string list"
  trxAPIKey :: string
  trxTokens :: "TokenConfig list"
  trxConfirmations :: int
  trxBatchSize :: int
  trxMaxConcurrentBlocks :: int
  trxRPCTimeout :: duration
  trxRetryAttempts :: int
  trxRetryDelay :: duration
  trxRequeueDelay :: duration
  trxRequestsPerSecond :: int
  trxRequestsBurst :: int
  trxUseSolidity :: bool
  trxIsActive :: bool

record SolanaConfig =
  solRPCURL :: string
  solRPCURLs :: "string list"
  solWSURL :: string
  solNativeCurrency :: Currency
  solTokens :: "TokenConfig list"
  solConfirmations :: int
  solBatchSize :: int
  solMaxConcurrentBlocks :: int
  solRPCTimeout :: duration
  solRetryAttempts :: int
  solRetryDelay :: duration
  solRequeueDelay :: duration
  solRequestsPerSecond :: int
  solRequestsBurst :: int
  solIsActive :: bool

record MonitoringConfig =
  monScanWindow :: int
  monPollInterval :: duration
  monWSRetryInterval :: duration
  monHealthCheckInterval :: duration
  monMetricsPort :: int

record LoggingConfig =
  logLevel :: string
  logFormat :: string

record Config =
  cfgServer :: ServerConfig
  cfgRedis :: RedisConfig
  cfgRabbitMQ :: RabbitMQConfig
  cfgEVM :: "EVMConfig list"
  cfgUTXO :: "UTXOConfig list"
  cfgTron :: TronConfig
  cfgSolana :: SolanaConfig
  cfgMonitoring :: MonitoringConfig
  cfgLogging :: LoggingConfig

section \<open>Defaults and overrides for the library\<close>

datatype setting = SInt int | SStr string | SBool bool | SStrs "string list"

definition setDefaults :: "(string \<times> setting) list" where
  "setDefaults = [
     (''server.port'', SInt 8080), (''server.read_timeout'', SStr ''30s''),
     (''server.write_timeout'', SStr ''30s''),
     (''redis.url'', SStr ''redis://localhost:6379''), (''redis.pool_size'', SInt 20),
     (''redis.min_idle_conns'', SInt 5),
     (''rabbitmq.exchange'', SStr ''blockchain.events''), (''rabbitmq.queue_prefix'', SStr ''bloop''),
     (''rabbitmq.prefetch_count'', SInt 100),
     (''tron.api_url'', SStr ''https://api.trongrid.io''), (''tron.confirmations'', SInt 1),
     (''tron.batch_size'', SInt 25), (''tron.max_concurrent_blocks'', SInt 5),
     (''tron.rpc_timeout'', SStr ''30s''), (''tron.retry_attempts'', SInt 3),
     (''tron.retry_delay'', SStr ''2s''), (''tron.requeue_delay'', SStr ''5s''),
     (''tron.requests_per_second'', SInt 5), (''tron.requests_burst'', SInt 10),
     (''tron.use_solidity'', SBool True), (''tron.is_active'', SBool False),
     (''solana.rpc_url'', SStr ''https://api.mainnet-beta.solana.com''),
     (''solana.native_currency'', SStr ''SOL''), (''solana.confirmations'', SInt 32),
     (''solana.batch_size'', SInt 25), (''solana.max_concurrent_blocks'', SInt 5),
     (''solana.rpc_timeout'', SStr ''30s''), (''solana.retry_attempts'', SInt 3),
     (''solana.retry_delay'', SStr ''2s''), (''solana.requeue_delay'', SStr ''5s''),
     (''solana.requests_per_second'', SInt 5), (''solana.requests_burst'', SInt 10),
     (''solana.is_active'', SBool False),
     (''monitoring.scan_window'', SInt 1000), (''monitoring.poll_interval'', SStr ''15s''),
     (''monitoring.ws_retry_interval'', SStr ''30s''),
     (''monitoring.health_check_interval'', SStr ''30s''), (''monitoring.metrics_port'', SInt 9090),
     (''logging.level'', SStr ''info''), (''logging.format'', SStr ''json'')]"

text \<open>\<open>strings.Split(s, ",")\<close>.\<close>

fun split_comma :: "string \<Rightarrow> string list" where
  "split_comma [] = [[]]"
| "split_comma (c # cs) =
     (if c = CHR '','' then [] # split_comma cs
      else case split_comma cs of [] \<Rightarrow> [[c]] | p # ps \<Rightarrow> (c # p) # ps)"

text \<open>The calls of \<open>viper.Set\<close>, in order; \<open>getenv\<close> is the environment.\<close>

definition overrideWithEnv :: "(string \<Rightarrow> string) \<Rightarrow> (string \<times> setting) list" where
  "overrideWithEnv getenv =
     (let on = (\<lambda>v f. if getenv v \<noteq> '''' then f (getenv v) else []) in
      on ''REDIS_URL'' (\<lambda>s. [(''redis.url'', SStr s)]) @
      on ''RABBITMQ_URL'' (\<lambda>s. [(''rabbitmq.url'', SStr s)]) @
      on ''TRON_API_URLS'' (\<lambda>s. [(''tron.api_urls'', SStrs (split_comma s))]) @
      on ''TRON_API_URL'' (\<lambda>s. [(''tron.api_url'', SStr s), (''tron.api_urls'', SStrs [s])]) @
      on ''TRON_API_KEY'' (\<lambda>s. [(''tron.api_key'', SStr s)]) @
      on ''SOLANA_RPC_URLS'' (\<lambda>s. [(''solana.rpc_urls'', SStrs (split_comma s))]) @
      on ''SOLANA_RPC_URL'' (\<lambda>s. [(''solana.rpc_url'', SStr s), (''solana.rpc_urls'', SStrs [s])]) @
      on ''LOG_LEVEL'' (\<lambda>s. [(''logging.level'', SStr s)]))"

section \<open>Normalization\<close>

text \<open>
  \<open>compactStrings\<close> reuses the array of its argument: the result is the slice \<open>values[:0]\<close>, which grows
  into the array while the loop still reads from it. \<open>i\<close> is the index read, \<open>k\<close> the length of the
  result.
\<close>

function compactLoop :: "nat \<Rightarrow> nat \<Rightarrow> string list \<Rightarrow> string list" where
  "compactLoop i k values =
     (if i < length values then
        let value = TrimSpace (values ! i)
        in if value \<noteq> '''' then compactLoop (Suc i) (Suc k) (values[k := value])
           else compactLoop (Suc i) k values
      else take k values)"
  by pat_completeness auto
termination
  by (relation "measure (\<lambda>(i, k, values). length values - i)") auto

declare compactLoop.simps [simp del]

definition compactStrings :: "string list \<Rightarrow> string list" where
  "compactStrings values = compactLoop 0 0 values"

definition or_default :: "int \<Rightarrow> int \<Rightarrow> int" where
  "or_default d x = (if x = 0 then d else x)"

definition normalizeEVMConfig :: "EVMConfig \<Rightarrow> EVMConfig" where
  "normalizeEVMConfig cfg = cfg\<lparr>
     evmNetwork := ToUpper (TrimSpace (evmNetwork cfg)),
     evmNativeCurrency := ToUpper (TrimSpace (evmNativeCurrency cfg)),
     evmRPCURLs := compactStrings (evmRPCURLs cfg),
     evmOminiRPCURLs := compactStrings (evmOminiRPCURLs cfg),
     evmWSURL := TrimSpace (evmWSURL cfg),
     evmOminiRPCURL := TrimSpace (evmOminiRPCURL cfg),
     evmConfirmations := or_default 5 (evmConfirmations cfg),
     evmBatchSize := or_default 25 (evmBatchSize cfg),
     evmMaxConcurrentBlocks := or_default 5 (evmMaxConcurrentBlocks cfg),
     evmRPCTimeout := or_default (30 * Second) (evmRPCTimeout cfg),
     evmRetryAttempts := or_default 3 (evmRetryAttempts cfg),
     evmRetryDelay := or_default (2 * Second) (evmRetryDelay cfg),
     evmBlockFetchMode := (if TrimSpace (evmBlockFetchMode cfg) = '''' then ''full'' else evmBlockFetchMode cfg),
     evmTxFetchConcurrency := or_default 10 (evmTxFetchConcurrency cfg),
     evmOminiRequestsPerSecond := or_default 5 (evmOminiRequestsPerSecond cfg),
     evmOminiRequestsBurst := or_default 10 (evmOminiRequestsBurst cfg)\<rparr>"

definition normalizeUTXOConfig :: "UTXOConfig \<Rightarrow> UTXOConfig" where
  "normalizeUTXOConfig cfg = cfg\<lparr>
     utxoNetwork := ToUpper (TrimSpace (utxoNetwork cfg)),
     utxoNativeCurrency := ToUpper (TrimSpace (utxoNativeCurrency cfg)),
     utxoAPIURL := TrimSpace (utxoAPIURL cfg),
     utxoAPIURLs := compactStrings (utxoAPIURLs cfg),
     utxoWSURL := TrimSpace (utxoWSURL cfg),
     utxoConfirmations := or_default 1 (utxoConfirmations cfg),
     utxoBatchSize := or_default 10 (utxoBatchSize cfg),
     utxoMaxConcurrentBlocks := or_default 5 (utxoMaxConcurrentBlocks cfg),
     utxoRPCTimeout := or_default (30 * Second) (utxoRPCTimeout cfg),
     utxoRetryAttempts := or_default 3 (utxoRetryAttempts cfg),
     utxoRetryDelay := or_default (2 * Second) (utxoRetryDelay cfg),
     utxoTxFetchConcurrency := or_default 2 (utxoTxFetchConcurrency cfg),
     utxoRequeueDelay := or_default (5 * Second) (utxoRequeueDelay cfg),
     utxoRequestsPerSecond := or_default 5 (utxoRequestsPerSecond cfg),
     utxoRequestsBurst := or_default 10 (utxoRequestsBurst cfg)\<rparr>"

definition normalizeSolanaConfig :: "SolanaConfig \<Rightarrow> SolanaConfig" where
  "normalizeSolanaConfig cfg =
     (let cur = ToUpper (TrimSpace (solNativeCurrency cfg));
          url = TrimSpace (solRPCURL cfg);
          urls = compactStrings (solRPCURLs cfg)
      in cfg\<lparr>
        solNativeCurrency := (if cur = '''' then SOL else cur),
        solRPCURL := url,
        solRPCURLs := (if url \<noteq> '''' \<and> length urls = 0 then [url] else urls),
        solWSURL := TrimSpace (solWSURL cfg),
        solConfirmations := or_default 32 (solConfirmations cfg),
        solBatchSize := or_default 25 (solBatchSize cfg),
        solMaxConcurrentBlocks := or_default 5 (solMaxConcurrentBlocks cfg),
        solRPCTimeout := or_default (30 * Second) (solRPCTimeout cfg),
        solRetryAttempts := or_default 3 (solRetryAttempts cfg),
        solRetryDelay := or_default (2 * Second) (solRetryDelay cfg),
        solRequeueDelay := or_default (5 * Second) (solRequeueDelay cfg),
        solRequestsPerSecond := or_default 5 (solRequestsPerSecond cfg),
        solRequestsBurst := or_default 10 (solRequestsBurst cfg)\<rparr>)"

definition normalizeConfig :: "Config \<Rightarrow> Config" where
  "normalizeConfig cfg = cfg\<lparr>
     cfgEVM := map normalizeEVMConfig (cfgEVM cfg),
     cfgUTXO := map normalizeUTXOConfig (cfgUTXO cfg),
     cfgSolana := normalizeSolanaConfig (cfgSolana cfg)\<rparr>"

definition ConfiguredNetworks :: "Config \<Rightarrow> BlockchainType list" where
  "ConfiguredNetworks c = [Tron, Solana] @ map evmNetwork (cfgEVM c) @ map utxoNetwork (cfgUTXO c)"

section \<open>Validation\<close>

text \<open>The verb \<open>%q\<close> of \<open>fmt\<close>, for printable text.\<close>

definition quote_str :: "string \<Rightarrow> string" where
  "quote_str s = [CHR 0x22] @
     concat (map (\<lambda>c. if c = CHR 0x22 \<or> c = CHR 0x5C then [CHR 0x5C, c] else [c]) s) @ [CHR 0x22]"

text \<open>The loop over the tokens of one EVM chain, from token \<open>j\<close> on.\<close>

fun validateEVMTokens ::
  "(string \<Rightarrow> bool) \<Rightarrow> nat \<Rightarrow> BlockchainType \<Rightarrow> nat \<Rightarrow> TokenConfig list \<Rightarrow> error option" where
  "validateEVMTokens isHexAddress i net j [] = None"
| "validateEVMTokens isHexAddress i net j (token # tokens) =
     (let loc = ''evm['' @ dec i @ ''] ('' @ net @ '') token['' @ dec j @ ''].'' in
      if TrimSpace (tkCurrency token) = '''' then Some (ErrorString (loc @ ''currency is required''))
      else if TrimSpace (tkContract token) = '''' then Some (ErrorString (loc @ ''contract is required''))
      else if \<not> isHexAddress (tkContract token)
      then Some (ErrorString (loc @ ''contract is not a valid EVM address''))
      else if tkDecimals token < 0 then Some (ErrorString (loc @ ''decimals cannot be negative''))
      else validateEVMTokens isHexAddress i net (Suc j) tokens)"

fun validateEVM ::
  "(string \<Rightarrow> bool) \<Rightarrow> BlockchainType set \<Rightarrow> nat \<Rightarrow> EVMConfig list \<Rightarrow> error option" where
  "validateEVM isHexAddress seen i [] = None"
| "validateEVM isHexAddress seen i (chain # rest) =
     (let net = evmNetwork chain; mode = ToLower (TrimSpace (evmBlockFetchMode chain)) in
      if net = '''' then Some (ErrorString (''evm['' @ dec i @ ''].network is required''))
      else if net \<in> seen then Some (ErrorString (''duplicate evm network '' @ quote_str net))
      else if evmNativeCurrency chain = ''''
      then Some (ErrorString (''evm['' @ dec i @ ''].native_currency is required''))
      else if evmIsActive chain \<and> length (evmRPCURLs chain) = 0
      then Some (ErrorString (''evm['' @ dec i @ ''] ('' @ net @ '') requires at least one rpc_url when active''))
      else if mode \<noteq> ''full'' \<and> mode \<noteq> ''light''
      then Some (ErrorString (''evm['' @ dec i @ ''] ('' @ net @ '') has invalid block_fetch_mode '' @
             quote_str (evmBlockFetchMode chain)))
      else case validateEVMTokens isHexAddress i net 0 (evmTokens chain) of
             Some err \<Rightarrow> Some err
           | None \<Rightarrow> validateEVM isHexAddress (insert net seen) (Suc i) rest)"

fun validateUTXO :: "BlockchainType set \<Rightarrow> nat \<Rightarrow> UTXOConfig list \<Rightarrow> error option" where
  "validateUTXO seen i [] = None"
| "validateUTXO seen i (chain # rest) =
     (let net = utxoNetwork chain in
      if net = '''' then Some (ErrorString (''utxo['' @ dec i @ ''].network is required''))
      else if net \<in> seen then Some (ErrorString (''duplicate utxo network '' @ quote_str net))
      else if utxoNativeCurrency chain = ''''
      then Some (ErrorString (''utxo['' @ dec i @ ''].native_currency is required''))
      else if utxoIsActive chain \<and> length (utxoAPIURLs chain) = 0 \<and> utxoAPIURL chain = ''''
      then Some (ErrorString (''utxo['' @ dec i @ ''] ('' @ net @ '') requires at least one api_url when active''))
      else validateUTXO (insert net seen) (Suc i) rest)"

fun validateSolanaTokens :: "nat \<Rightarrow> TokenConfig list \<Rightarrow> error option" where
  "validateSolanaTokens i [] = None"
| "validateSolanaTokens i (token # tokens) =
     (let loc = ''solana token['' @ dec i @ ''].'' in
      if TrimSpace (tkCurrency token) = '''' then Some (ErrorString (loc @ ''currency is required''))
      else if TrimSpace (tkContract token) = '''' then Some (ErrorString (loc @ ''contract is required''))
      else if tkDecimals token < 0 then Some (ErrorString (loc @ ''decimals cannot be negative''))
      else validateSolanaTokens (Suc i) tokens)"

definition validateConfig :: "(string \<Rightarrow> bool) \<Rightarrow> Config \<Rightarrow> error option" where
  "validateConfig isHexAddress cfg =
     (case validateEVM isHexAddress {} 0 (cfgEVM cfg) of
        Some err \<Rightarrow> Some err
      | None \<Rightarrow>
          (case validateUTXO {} 0 (cfgUTXO cfg) of
             Some err \<Rightarrow> Some err
           | None \<Rightarrow>
               let sol = cfgSolana cfg in
               if solIsActive sol \<and> length (solRPCURLs sol) = 0 \<and> solRPCURL sol = ''''
               then Some (ErrorString ''solana requires at least one rpc_url when active'')
               else if solNativeCurrency sol = ''''
               then Some (ErrorString ''solana.native_currency is required'')
               else validateSolanaTokens 0 (solTokens sol)))"

text \<open>
  \<open>Load\<close>. The library reads the file (a missing file is not an error) and fills the structure from
  the defaults, the file and the overrides.
\<close>

datatype read_result = ReadOk | ReadNotFound | ReadError error

record viper =
  vReadInConfig :: read_result
  vUnmarshal :: "(string \<times> setting) list \<Rightarrow> (string \<times> setting) list \<Rightarrow> Config res"

definition Load :: "(string \<Rightarrow> bool) \<Rightarrow> viper \<Rightarrow> (string \<Rightarrow> string) \<Rightarrow> Config res" where
  "Load isHexAddress v getenv =
     (case vReadInConfig v of
        ReadError err \<Rightarrow> Inl (Wrap ''failed to read config file'' err)
      | _ \<Rightarrow>
          (case vUnmarshal v setDefaults (overrideWithEnv getenv) of
             Inl err \<Rightarrow> Inl (Wrap ''failed to unmarshal config'' err)
           | Inr config0 \<Rightarrow>
               let config = normalizeConfig config0 in
               case validateConfig isHexAddress config of
                 Some err \<Rightarrow> Inl err
               | None \<Rightarrow> Inr config))"

section \<open>Normalization is a projection\<close>

lemma TrimSpace_Nil [simp]: "TrimSpace [] = []"
  by (simp add: TrimSpace_def)

lemma isSpace_upper [simp]: "isSpace (upper_char c) = isSpace c"
proof -
  define n :: nat where "n = of_char c"
  have "n < 256" by (simp add: n_def)
  then have "of_char (upper_char c) = (if 97 \<le> n \<and> n \<le> 122 then n - 32 else n)"
    by (simp add: upper_char_def Let_def char_of_nat_inverse n_def [symmetric])
  then show ?thesis by (auto simp: isSpace_def n_def split: if_splits)
qed

lemma dropWhile_isSpace_upper: "dropWhile isSpace (map upper_char s) = map upper_char (dropWhile isSpace s)"
  by (induction s) auto

lemma TrimSpace_ToUpper: "TrimSpace (ToUpper s) = ToUpper (TrimSpace s)"
  by (simp add: TrimSpace_def ToUpper_def dropWhile_isSpace_upper rev_map)

lemma or_default_idem [simp]: "or_default d (or_default d x) = or_default d x"
  by (simp add: or_default_def)

text \<open>The loop in place computes the filtered list: what it overwrites it has already read.\<close>

lemma compactLoop_spec:
  "k \<le> i \<Longrightarrow> i \<le> length xs \<Longrightarrow>
   compactLoop i k xs = take k xs @ filter (\<lambda>v. v \<noteq> []) (map TrimSpace (drop i xs))"
proof (induction i k xs rule: compactLoop.induct)
  case (1 i k xs)
  show ?case
  proof (cases "i < length xs")
    case False
    with "1.prems" show ?thesis by (subst compactLoop.simps) simp
  next
    case True
    let ?v = "TrimSpace (xs ! i)"
    have d: "drop i xs = xs ! i # drop (Suc i) xs" using True by (rule Cons_nth_drop_Suc [symmetric])
    show ?thesis
    proof (cases "?v = []")
      case empty: True
      with "1.IH"(2) True "1.prems" d show ?thesis
        by (subst compactLoop.simps) (simp add: Let_def)
    next
      case False
      have "take (Suc k) (xs[k := ?v]) = take k xs @ [?v]"
        using True "1.prems" by (simp add: take_Suc_conv_app_nth)
      with "1.IH"(1) True "1.prems" d False show ?thesis
        by (subst compactLoop.simps) (simp add: Let_def)
    qed
  qed
qed

lemma compactStrings_filter:
  "compactStrings values = filter (\<lambda>v. v \<noteq> []) (map TrimSpace values)"
  by (simp add: compactStrings_def compactLoop_spec)

lemma compactStrings_idem [simp]: "compactStrings (compactStrings xs) = compactStrings xs"
  unfolding compactStrings_filter by (induction xs) auto

lemma normalizeEVM_idem [simp]: "normalizeEVMConfig (normalizeEVMConfig c) = normalizeEVMConfig c"
  by (simp add: normalizeEVMConfig_def TrimSpace_ToUpper)

lemma normalizeUTXO_idem [simp]: "normalizeUTXOConfig (normalizeUTXOConfig c) = normalizeUTXOConfig c"
  by (simp add: normalizeUTXOConfig_def TrimSpace_ToUpper)

lemma normalizeSolana_idem [simp]:
  "normalizeSolanaConfig (normalizeSolanaConfig c) = normalizeSolanaConfig c"
proof -
  have "compactStrings [u] = [u]" if "TrimSpace u = u" "u \<noteq> []" for u
    using that by (simp add: compactStrings_filter)
  moreover have "compactStrings [] = []" by (simp add: compactStrings_filter)
  moreover have "TrimSpace SOL = SOL" "ToUpper SOL = SOL" "SOL \<noteq> []" by code_simp+
  moreover have "ToUpper s = [] \<longleftrightarrow> s = []" for s by (simp add: ToUpper_def)
  ultimately show ?thesis
    by (cases "TrimSpace (solNativeCurrency c) = []"; cases "TrimSpace (solRPCURL c) = []";
        cases "compactStrings (solRPCURLs c) = []")
      (simp_all add: normalizeSolanaConfig_def Let_def TrimSpace_ToUpper)
qed

lemma normalized_fields:
  "ToUpper (TrimSpace (evmNetwork (normalizeEVMConfig e))) = evmNetwork (normalizeEVMConfig e)"
  "evmConfirmations (normalizeEVMConfig e) \<noteq> 0" "evmBatchSize (normalizeEVMConfig e) \<noteq> 0"
  "evmMaxConcurrentBlocks (normalizeEVMConfig e) \<noteq> 0" "evmRPCTimeout (normalizeEVMConfig e) \<noteq> 0"
  "evmRetryAttempts (normalizeEVMConfig e) \<noteq> 0"
  "ToUpper (TrimSpace (utxoNetwork (normalizeUTXOConfig u))) = utxoNetwork (normalizeUTXOConfig u)"
  "utxoConfirmations (normalizeUTXOConfig u) \<noteq> 0" "utxoBatchSize (normalizeUTXOConfig u) \<noteq> 0"
  "utxoMaxConcurrentBlocks (normalizeUTXOConfig u) \<noteq> 0" "utxoRPCTimeout (normalizeUTXOConfig u) \<noteq> 0"
  "utxoRetryAttempts (normalizeUTXOConfig u) \<noteq> 0"
  by (simp_all add: normalizeEVMConfig_def normalizeUTXOConfig_def or_default_def TrimSpace_ToUpper
      Second_def Millisecond_def)

section \<open>What a valid configuration is\<close>

definition token_ok :: "TokenConfig \<Rightarrow> bool" where
  "token_ok tk \<longleftrightarrow> TrimSpace (tkCurrency tk) \<noteq> [] \<and> TrimSpace (tkContract tk) \<noteq> [] \<and> 0 \<le> tkDecimals tk"

definition evm_ok :: "(string \<Rightarrow> bool) \<Rightarrow> EVMConfig \<Rightarrow> bool" where
  "evm_ok isHexAddress ch \<longleftrightarrow> evmNetwork ch \<noteq> [] \<and> evmNativeCurrency ch \<noteq> [] \<and>
     (evmIsActive ch \<longrightarrow> evmRPCURLs ch \<noteq> []) \<and>
     ToLower (TrimSpace (evmBlockFetchMode ch)) \<in> {''full'', ''light''} \<and>
     (\<forall>tk \<in> set (evmTokens ch). token_ok tk \<and> isHexAddress (tkContract tk))"

definition utxo_ok :: "UTXOConfig \<Rightarrow> bool" where
  "utxo_ok ch \<longleftrightarrow> utxoNetwork ch \<noteq> [] \<and> utxoNativeCurrency ch \<noteq> [] \<and>
     (utxoIsActive ch \<longrightarrow> utxoAPIURLs ch \<noteq> [] \<or> utxoAPIURL ch \<noteq> [])"

definition config_ok :: "(string \<Rightarrow> bool) \<Rightarrow> Config \<Rightarrow> bool" where
  "config_ok isHexAddress cfg \<longleftrightarrow>
     distinct (map evmNetwork (cfgEVM cfg)) \<and> (\<forall>ch \<in> set (cfgEVM cfg). evm_ok isHexAddress ch) \<and>
     distinct (map utxoNetwork (cfgUTXO cfg)) \<and> (\<forall>ch \<in> set (cfgUTXO cfg). utxo_ok ch) \<and>
     (solIsActive (cfgSolana cfg) \<longrightarrow> solRPCURLs (cfgSolana cfg) \<noteq> [] \<or> solRPCURL (cfgSolana cfg) \<noteq> []) \<and>
     solNativeCurrency (cfgSolana cfg) \<noteq> [] \<and> (\<forall>tk \<in> set (solTokens (cfgSolana cfg)). token_ok tk)"

lemma validateEVMTokens_iff:
  "validateEVMTokens h i net j tks = None \<longleftrightarrow> (\<forall>tk \<in> set tks. token_ok tk \<and> h (tkContract tk))"
  by (induction tks arbitrary: j) (auto simp: token_ok_def Let_def)

lemma validateSolanaTokens_iff: "validateSolanaTokens j tks = None \<longleftrightarrow> (\<forall>tk \<in> set tks. token_ok tk)"
  by (induction tks arbitrary: j) (auto simp: token_ok_def Let_def)

lemma validateEVM_iff:
  "validateEVM h seen i chs = None \<longleftrightarrow>
     distinct (map evmNetwork chs) \<and> evmNetwork ` set chs \<inter> seen = {} \<and> (\<forall>ch \<in> set chs. evm_ok h ch)"
proof (induction chs arbitrary: seen i)
  case (Cons ch chs)
  show ?case
  proof (cases "evmNetwork ch \<notin> seen \<and> evm_ok h ch")
    case True
    then have "validateEVMTokens h i (evmNetwork ch) 0 (evmTokens ch) = None"
      by (simp add: evm_ok_def validateEVMTokens_iff)
    with True show ?thesis by (auto simp: Let_def evm_ok_def Cons.IH)
  next
    case False
    then show ?thesis
      by (auto simp: Let_def evm_ok_def validateEVMTokens_iff split: option.splits
          dest!: validateEVMTokens_iff [THEN iffD1])
  qed
qed simp

lemma validateUTXO_iff:
  "validateUTXO seen i chs = None \<longleftrightarrow>
     distinct (map utxoNetwork chs) \<and> utxoNetwork ` set chs \<inter> seen = {} \<and> (\<forall>ch \<in> set chs. utxo_ok ch)"
  by (induction chs arbitrary: seen i) (auto simp: Let_def utxo_ok_def)

lemma validateConfig_iff: "validateConfig isHexAddress cfg = None \<longleftrightarrow> config_ok isHexAddress cfg"
proof -
  have "validateConfig isHexAddress cfg = None \<longleftrightarrow>
    validateEVM isHexAddress {} 0 (cfgEVM cfg) = None \<and> validateUTXO {} 0 (cfgUTXO cfg) = None \<and>
    \<not> (solIsActive (cfgSolana cfg) \<and> solRPCURLs (cfgSolana cfg) = [] \<and> solRPCURL (cfgSolana cfg) = []) \<and>
    solNativeCurrency (cfgSolana cfg) \<noteq> [] \<and> validateSolanaTokens 0 (solTokens (cfgSolana cfg)) = None"
    by (simp add: validateConfig_def Let_def split: option.split)
  then show ?thesis
    unfolding validateEVM_iff validateUTXO_iff validateSolanaTokens_iff config_ok_def by blast
qed

section \<open>Properties of the configuration\<close>

text \<open>
  C23: Compacting a list of URLs in place is the same as trimming every entry and dropping the empty
  ones: the loop writes into the array it reads from and never overwrites an entry it has not read.
\<close>

theorem compact_in_place_eq_filter:
  "compactStrings values = filter (\<lambda>v. v \<noteq> []) (map TrimSpace values)"
  by (rule compactStrings_filter)

text \<open>C22: Normalizing a configuration twice is the same as normalizing it once.\<close>

theorem normalize_idempotent: "normalizeConfig (normalizeConfig c) = normalizeConfig c"
  by (simp add: normalizeConfig_def)

text \<open>
  C24: Validation accepts exactly the well-formed configurations: within each family the networks are
  distinct and named, currencies are given, an active chain has an endpoint, the fetch mode is known
  and every token has a currency, a (for EVM chains: hexadecimal) contract and non-negative decimals.
\<close>

theorem validate_accepts_exactly: "validateConfig isHexAddress cfg = None \<longleftrightarrow> config_ok isHexAddress cfg"
  by (rule validateConfig_iff)

text \<open>
  C25: What \<open>Load\<close> returns is normalized and valid: network names are trimmed upper case and unique per
  family, and no confirmation count, batch size, worker count, timeout or retry setting of an EVM or
  UTXO chain is zero.
\<close>

theorem load_normalized_valid:
  assumes "Load isHexAddress v getenv = Inr cfg"
  shows "config_ok isHexAddress cfg \<and> normalizeConfig cfg = cfg \<and>
    (\<forall>ch \<in> set (cfgEVM cfg). ToUpper (TrimSpace (evmNetwork ch)) = evmNetwork ch \<and> evmConfirmations ch \<noteq> 0 \<and>
       evmBatchSize ch \<noteq> 0 \<and> evmMaxConcurrentBlocks ch \<noteq> 0 \<and> evmRPCTimeout ch \<noteq> 0 \<and> evmRetryAttempts ch \<noteq> 0) \<and>
    (\<forall>ch \<in> set (cfgUTXO cfg). ToUpper (TrimSpace (utxoNetwork ch)) = utxoNetwork ch \<and> utxoConfirmations ch \<noteq> 0 \<and>
       utxoBatchSize ch \<noteq> 0 \<and> utxoMaxConcurrentBlocks ch \<noteq> 0 \<and> utxoRPCTimeout ch \<noteq> 0 \<and> utxoRetryAttempts ch \<noteq> 0)"
proof -
  obtain c0 where cfg: "cfg = normalizeConfig c0" and v: "validateConfig isHexAddress cfg = None"
    using assms by (auto simp: Load_def Let_def split: read_result.splits sum.splits option.splits)
  have "config_ok isHexAddress cfg"
    using v by (simp only: validateConfig_iff)
  moreover have "normalizeConfig cfg = cfg" by (simp add: cfg normalizeConfig_def)
  moreover have "cfgEVM cfg = map normalizeEVMConfig (cfgEVM c0)"
    "cfgUTXO cfg = map normalizeUTXOConfig (cfgUTXO c0)"
    by (simp_all add: cfg normalizeConfig_def)
  ultimately show ?thesis by (simp add: normalized_fields)
qed

text \<open>A chain as a user may write it, and a library that returns it.\<close>

definition demo_evm :: EVMConfig where
  "demo_evm = \<lparr>evmNetwork = '' eth '', evmNativeCurrency = ''eth'', evmRPCURLs = ['' http://a '', ''''],
     evmWSURL = '''', evmOminiRPCURL = '''', evmOminiRPCURLs = [], evmOminiRequestsPerSecond = 0,
     evmOminiRequestsBurst = 0, evmTokens = [], evmConfirmations = 0, evmBatchSize = 0,
     evmMaxConcurrentBlocks = 0, evmRPCTimeout = 0, evmRetryAttempts = 0, evmRetryDelay = 0,
     evmBlockFetchMode = ''Light'', evmTxFetchConcurrency = 0, evmIsActive = True, evmSkipNative = False\<rparr>"

definition demo_cfg :: Config where
  "demo_cfg = \<lparr>cfgServer = \<lparr>srvPort = 8080, srvReadTimeout = 0, srvWriteTimeout = 0\<rparr>,
     cfgRedis = \<lparr>rdsURL = '''', rdsPoolSize = 20, rdsMinIdleConns = 5, rdsDialTimeout = 0,
       rdsReadTimeout = 0, rdsWriteTimeout = 0\<rparr>,
     cfgRabbitMQ = \<lparr>rmqURL = '''', rmqExchange = '''', rmqQueuePrefix = '''', rmqPrefetchCount = 100\<rparr>,
     cfgEVM = [demo_evm], cfgUTXO = [],
     cfgTron = \<lparr>trxAPIURL = '''', trxAPIURLs = [], trxAPIKey = '''', trxTokens = [], trxConfirmations = 1,
       trxBatchSize = 25, trxMaxConcurrentBlocks = 5, trxRPCTimeout = 0, trxRetryAttempts = 3,
       trxRetryDelay = 0, trxRequeueDelay = 0, trxRequestsPerSecond = 5, trxRequestsBurst = 10,
       trxUseSolidity = True, trxIsActive = False\<rparr>,
     cfgSolana = \<lparr>solRPCURL = '''', solRPCURLs = [], solWSURL = '''', solNativeCurrency = '''',
       solTokens = [], solConfirmations = 0, solBatchSize = 0, solMaxConcurrentBlocks = 0,
       solRPCTimeout = 0, solRetryAttempts = 0, solRetryDelay = 0, solRequeueDelay = 0,
       solRequestsPerSecond = 0, solRequestsBurst = 0, solIsActive = False\<rparr>,
     cfgMonitoring = \<lparr>monScanWindow = 1000, monPollInterval = 0, monWSRetryInterval = 0,
       monHealthCheckInterval = 0, monMetricsPort = 9090\<rparr>,
     cfgLogging = \<lparr>logLevel = ''info'', logFormat = ''json''\<rparr>\<rparr>"

definition demo_viper :: viper where
  "demo_viper = \<lparr>vReadInConfig = ReadNotFound, vUnmarshal = (\<lambda>_ _. Inr demo_cfg)\<rparr>"

theorem load_normalized_valid_witness:
  "\<exists>cfg. Load (\<lambda>_. True) demo_viper (\<lambda>_. '''') = Inr cfg \<and> config_ok (\<lambda>_. True) cfg \<and>
     map evmNetwork (cfgEVM cfg) = [''ETH''] \<and> (\<forall>ch \<in> set (cfgEVM cfg). evmConfirmations ch \<noteq> 0)"
proof -
  have v: "validateConfig (\<lambda>_. True) (normalizeConfig demo_cfg) = None"
    and n: "map evmNetwork (cfgEVM (normalizeConfig demo_cfg)) = [''ETH'']"
    by code_simp+
  have "Load (\<lambda>_. True) demo_viper (\<lambda>_. '''') = Inr (normalizeConfig demo_cfg)"
    by (simp add: Load_def demo_viper_def v)
  with n load_normalized_valid [OF this] show ?thesis
    by (intro exI [of _ "normalizeConfig demo_cfg"] conjI) simp_all
qed

end
