(* ===== verification/Solana_Client.thy ===== *)
theory Solana_Client
  imports Json_Http Config_Model
begin

text \<open>
  The JSON-RPC client of Solana (\<open>internal/blockchain/solana/client.go\<close>) and the block data it decodes
  (the response types of \<open>solana/processor.go\<close>). A call tries every provider once, starting where the
  last call stopped. The websocket subscription is a loop over connections, with an exponential
  delay between them.
\<close>

section \<open>Block data\<close>

record accountKey =
  akPubkey :: string

record instructionAccount =
  iaPubkey :: string
  iaIndex :: int
  iaHasIndex :: bool

record parsedInstruction =
  piProgram :: string
  piProgramID :: string
  piProgramIDIndex :: u64
  piAccounts :: "instructionAccount list"
  piData :: string
  piParsed :: "json option"

record tokenBalance =
  tbAccountIndex :: u32
  tbMint :: string
  tbOwner :: string
  tbAmount :: string
  tbDecimals :: int
  tbUIAmountString :: string

record transactionMeta =
  tmErr :: json
  tmFee :: u64
  tmPreBalances :: "u64 list"
  tmPostBalances :: "u64 list"
  tmInnerInstructions :: "parsedInstruction list list"
  tmPreTokenBalances :: "tokenBalance list"
  tmPostTokenBalances :: "tokenBalance list"

record blockTransaction =
  btxSignatures :: "string list"
  btxAccountKeys :: "accountKey list"
  btxInstructions :: "parsedInstruction list"
  btxMeta :: transactionMeta

record solBlock =
  sbBlockTime :: "int option"
  sbTransactions :: "blockTransaction list"

text \<open>The two custom decoders: a key is a text or an object with one, an account a number or a text.\<close>

definition dec_accountKey :: "json \<Rightarrow> accountKey res" where
  "dec_accountKey j =
     (case dec_string j of
        Inr s \<Rightarrow> Inr \<lparr>akPubkey = s\<rparr>
      | Inl _ \<Rightarrow> rbind (as_obj j) (\<lambda>o'. rbind (dec_string (field ''pubkey'' o')) (\<lambda>s. Inr \<lparr>akPubkey = s\<rparr>)))"

definition dec_instructionAccount :: "json \<Rightarrow> instructionAccount res" where
  "dec_instructionAccount j =
     (case dec_int64 j of
        Inr i \<Rightarrow> Inr \<lparr>iaPubkey = '''', iaIndex = i, iaHasIndex = True\<rparr>
      | Inl _ \<Rightarrow> rbind (dec_string j) (\<lambda>s. Inr \<lparr>iaPubkey = s, iaIndex = 0, iaHasIndex = False\<rparr>))"

definition dec_parsedInstruction :: "json \<Rightarrow> parsedInstruction res" where
  "dec_parsedInstruction j =
     rbind (as_obj j) (\<lambda>o'. rbind (dec_string (field ''program'' o')) (\<lambda>pr.
     rbind (dec_string (field ''programId'' o')) (\<lambda>pid. rbind (dec_uint64 (field ''programIdIndex'' o')) (\<lambda>px.
     rbind (dec_list dec_instructionAccount (field ''accounts'' o')) (\<lambda>acc.
     rbind (dec_string (field ''data'' o')) (\<lambda>d.
     Inr \<lparr>piProgram = pr, piProgramID = pid, piProgramIDIndex = px, piAccounts = acc, piData = d,
          piParsed = raw_field ''parsed'' o'\<rparr>))))))"

definition dec_uint32 :: "json \<Rightarrow> u32 res" where
  "dec_uint32 j = rbind (dec_int64 j) (\<lambda>n. if 0 \<le> n \<and> n < 2 ^ 32 then Inr (word_of_int n) else Inl type_error)"

definition dec_int32 :: "json \<Rightarrow> int res" where
  "dec_int32 j = rbind (dec_int64 j) (\<lambda>n. if - (2 ^ 31) \<le> n \<and> n < 2 ^ 31 then Inr n else Inl type_error)"

definition dec_tokenBalance :: "json \<Rightarrow> tokenBalance res" where
  "dec_tokenBalance j =
     rbind (as_obj j) (\<lambda>o'. rbind (dec_uint32 (field ''accountIndex'' o')) (\<lambda>ix.
     rbind (dec_string (field ''mint'' o')) (\<lambda>m. rbind (dec_string (field ''owner'' o')) (\<lambda>ow.
     rbind (as_obj (field ''uiTokenAmount'' o')) (\<lambda>u. rbind (dec_string (field ''amount'' u)) (\<lambda>a.
     rbind (dec_int32 (field ''decimals'' u)) (\<lambda>d. rbind (dec_string (field ''uiAmountString'' u)) (\<lambda>us.
     Inr \<lparr>tbAccountIndex = ix, tbMint = m, tbOwner = ow, tbAmount = a, tbDecimals = d, tbUIAmountString = us\<rparr>))))))))"

definition dec_transactionMeta :: "json \<Rightarrow> transactionMeta res" where
  "dec_transactionMeta j =
     rbind (as_obj j) (\<lambda>o'. rbind (dec_uint64 (field ''fee'' o')) (\<lambda>f.
     rbind (dec_list dec_uint64 (field ''preBalances'' o')) (\<lambda>pre. rbind (dec_list dec_uint64 (field ''postBalances'' o')) (\<lambda>post.
     rbind (dec_list (\<lambda>x. rbind (as_obj x) (\<lambda>xo. dec_list dec_parsedInstruction (field ''instructions'' xo)))
       (field ''innerInstructions'' o')) (\<lambda>inner.
     rbind (dec_list dec_tokenBalance (field ''preTokenBalances'' o')) (\<lambda>pt.
     rbind (dec_list dec_tokenBalance (field ''postTokenBalances'' o')) (\<lambda>qt.
     Inr \<lparr>tmErr = field ''err'' o', tmFee = f, tmPreBalances = pre, tmPostBalances = post,
          tmInnerInstructions = inner, tmPreTokenBalances = pt, tmPostTokenBalances = qt\<rparr>)))))))"

definition dec_blockTransaction :: "json \<Rightarrow> blockTransaction res" where
  "dec_blockTransaction j =
     rbind (as_obj j) (\<lambda>o'. rbind (as_obj (field ''transaction'' o')) (\<lambda>t.
     rbind (dec_list dec_string (field ''signatures'' t)) (\<lambda>sigs. rbind (as_obj (field ''message'' t)) (\<lambda>m.
     rbind (dec_list dec_accountKey (field ''accountKeys'' m)) (\<lambda>ks.
     rbind (dec_list dec_parsedInstruction (field ''instructions'' m)) (\<lambda>ins.
     rbind (dec_transactionMeta (field ''meta'' o')) (\<lambda>meta.
     Inr \<lparr>btxSignatures = sigs, btxAccountKeys = ks, btxInstructions = ins, btxMeta = meta\<rparr>)))))))"

definition dec_solBlock :: "json \<Rightarrow> solBlock res" where
  "dec_solBlock j =
     rbind (as_obj j) (\<lambda>o'. rbind (dec_list dec_blockTransaction (field ''transactions'' o')) (\<lambda>txs.
     (case field ''blockTime'' o' of
        JNull \<Rightarrow> Inr \<lparr>sbBlockTime = None, sbTransactions = txs\<rparr>
      | v \<Rightarrow> rbind (dec_int64 v) (\<lambda>n. Inr \<lparr>sbBlockTime = Some n, sbTransactions = txs\<rparr>))))"

section \<open>The client\<close>

record SolClient =
  scUrls :: "string list"
  scWsURL :: string
  scTimeout :: duration
  scRate :: int
  scBurst :: int
  scNext :: u32

definition NewSolClient :: "SolanaConfig \<Rightarrow> SolClient res" where
  "NewSolClient cfg =
     (let urls = (if solRPCURLs cfg = [] \<and> solRPCURL cfg \<noteq> '''' then [solRPCURL cfg] else solRPCURLs cfg) in
      if urls = [] then Inl (ErrorString ''no Solana RPC URLs configured'')
      else Inr \<lparr>scUrls = urls, scWsURL = solWSURL cfg, scTimeout = solRPCTimeout cfg,
        scRate = (if solRequestsPerSecond cfg \<le> 0 then 5 else solRequestsPerSecond cfg),
        scBurst = (if solRequestsBurst cfg \<le> 0 then 10 else solRequestsBurst cfg), scNext = 0\<rparr>)"

record rpcResponse =
  rrResult :: "json option"
  rrError :: "(int \<times> string) option"

definition dec_rpcResponse :: "json \<Rightarrow> rpcResponse res" where
  "dec_rpcResponse j =
     rbind (as_obj j) (\<lambda>o'. rbind (dec_string (field ''jsonrpc'' o')) (\<lambda>_. rbind (dec_int64 (field ''id'' o')) (\<lambda>_.
     (case field ''error'' o' of
        JNull \<Rightarrow> Inr \<lparr>rrResult = raw_field ''result'' o', rrError = None\<rparr>
      | v \<Rightarrow> rbind (as_obj v) (\<lambda>eo. rbind (dec_int64 (field ''code'' eo)) (\<lambda>code.
             rbind (dec_string (field ''message'' eo)) (\<lambda>msg.
             Inr \<lparr>rrResult = raw_field ''result'' o', rrError = Some (code, msg)\<rparr>)))))))"

definition rpcRequest :: "string \<Rightarrow> json \<Rightarrow> json" where
  "rpcRequest method params =
     JObj [(''jsonrpc'', JStr ''2.0''), (''id'', JInt 1), (''method'', JStr method), (''params'', params)]"

text \<open>One request to one provider; a missing or \<open>null\<close> result leaves the destination at \<open>zero\<close>.\<close>

definition callURL ::
  "'e netio \<Rightarrow> (json \<Rightarrow> 'a res) \<Rightarrow> 'a \<Rightarrow> string \<Rightarrow> string \<Rightarrow> json \<Rightarrow> 'e \<Rightarrow> 'a res \<times> 'e" where
  "callURL N decode zero url method params e =
     (case net_urlErr N url of
        Some err \<Rightarrow> (Inl err, e)
      | None \<Rightarrow>
          (case net_do N \<lparr>reqMethod = ''POST'', reqURL = url,
               reqHeaders = [(''Content-Type'', ''application/json'')],
               reqBody = Some (rpcRequest method params)\<rparr> e of
             (Inl err, e1) \<Rightarrow> (Inl err, e1)
           | (Inr resp, e1) \<Rightarrow>
               (case respBody resp of
                  Inl err \<Rightarrow> (Inl err, e1)
                | Inr body \<Rightarrow>
                    if respStatus resp < 200 \<or> respStatus resp \<ge> 300
                    then (Inl (ErrorString (''unexpected HTTP status '' @ FormatInt (respStatus resp) @ '': '' @ body)), e1)
                    else (case decode_body dec_rpcResponse resp of
                       Inl err \<Rightarrow> (Inl err, e1)
                     | Inr rpcResp \<Rightarrow>
                         (case rrError rpcResp of
                            Some (code, msg) \<Rightarrow>
                              (Inl (ErrorString (''rpc error '' @ FormatInt code @ '': '' @ msg)), e1)
                          | None \<Rightarrow>
                              (case rrResult rpcResp of
                                 None \<Rightarrow> (Inr zero, e1)
                               | Some JNull \<Rightarrow> (Inr zero, e1)
                               | Some v \<Rightarrow> (decode v, e1)))))))"

text \<open>The loop over the providers. With no provider at all it would end without an error.\<close>

fun callLoop ::
  "'e netio \<Rightarrow> (json \<Rightarrow> 'a res) \<Rightarrow> 'a \<Rightarrow> string \<Rightarrow> json \<Rightarrow> nat \<Rightarrow> error option \<Rightarrow> SolClient \<times> 'e \<Rightarrow>
   'a res \<times> SolClient \<times> 'e" where
  "callLoop N decode zero method params 0 lastErr s =
     (case lastErr of None \<Rightarrow> Inr zero | Some err \<Rightarrow> Inl err, s)"
| "callLoop N decode zero method params (Suc i) lastErr (c, e) =
     (let url = scUrls c ! (unat (scNext c) mod length (scUrls c)); c1 = c\<lparr>scNext := scNext c + 1\<rparr> in
      case callURL N decode zero url method params e of
        (Inl err, e1) \<Rightarrow> callLoop N decode zero method params i (Some err) (c1, e1)
      | (Inr x, e1) \<Rightarrow> (Inr x, (c1, e1)))"

definition call ::
  "'e netio \<Rightarrow> (json \<Rightarrow> 'a res) \<Rightarrow> 'a \<Rightarrow> string \<Rightarrow> json \<Rightarrow> SolClient \<times> 'e \<Rightarrow> 'a res \<times> SolClient \<times> 'e" where
  "call N decode zero method params s = (case s of (c, e) \<Rightarrow>
     (case net_wait N e of
        (Some err, e1) \<Rightarrow> (Inl err, (c, e1))
      | (None, e1) \<Rightarrow> callLoop N decode zero method params (length (scUrls c)) None (c, e1)))"

definition GetSlot :: "'e netio \<Rightarrow> SolClient \<times> 'e \<Rightarrow> u64 res \<times> SolClient \<times> 'e" where
  "GetSlot N s = call N dec_uint64 0 ''getSlot'' (JArr [JObj [(''commitment'', JStr ''confirmed'')]]) s"

definition sol_GetBlock :: "'e netio \<Rightarrow> u64 \<Rightarrow> SolClient \<times> 'e \<Rightarrow> solBlock option res \<times> SolClient \<times> 'e" where
  "sol_GetBlock N slot s =
     call N (\<lambda>j. rbind (dec_solBlock j) (\<lambda>b. Inr (Some b))) None ''getBlock''
       (JArr [JInt (uint slot), JObj [(''encoding'', JStr ''jsonParsed''), (''transactionDetails'', JStr ''full''),
          (''rewards'', JBool False), (''maxSupportedTransactionVersion'', JInt 0)]]) s"

section \<open>Reconnecting\<close>

text \<open>
  The delay before a connection attempt of \<open>SubscribeToSlots\<close>, in 64-bit arithmetic: \<open>time.Duration\<close> is
  an \<open>int64\<close> and the shift drops the bits that leave it.
\<close>

definition baseBackoff :: duration where "baseBackoff = 250 * Millisecond"
definition maxBackoff :: duration where "maxBackoff = 15 * Second"

definition backoff :: "nat \<Rightarrow> duration" where
  "backoff attempt =
     (let delay = go_int (baseBackoff * 2 ^ (attempt - 1)) in if delay > maxBackoff then maxBackoff else delay)"

text \<open>
  The loop over connections, for a script of what happens to them: the dial fails, the request cannot be
  written, or the connection delivers messages (method, slot, whether the channel has room) until it
  breaks. The result is the list of delays slept before each dial and the slots handed on.
\<close>

datatype connection = DialFails | WriteFails | Delivers "(string \<times> u64 \<times> bool) list"

definition slotsOf :: "(string \<times> u64 \<times> bool) list \<Rightarrow> u64 list" where
  "slotsOf msgs = map (\<lambda>(_, slot, _). slot)
     (filter (\<lambda>(method, slot, room). method = ''slotNotification'' \<and> slot \<noteq> 0 \<and> room) msgs)"

fun slotLoop :: "nat \<Rightarrow> connection list \<Rightarrow> duration list \<times> u64 list" where
  "slotLoop attempt [] = ([], [])"
| "slotLoop attempt (c # cs) =
     (let delays = (if attempt > 0 then [backoff attempt] else []);
          (attempt1, sent) = (case c of DialFails \<Rightarrow> (attempt + 1, []) | WriteFails \<Rightarrow> (attempt + 1, [])
             | Delivers msgs \<Rightarrow> (1, slotsOf msgs));
          (ds, ss) = slotLoop attempt1 cs
      in (delays @ ds, sent @ ss))"

definition SubscribeToSlots :: "SolClient \<Rightarrow> connection list \<Rightarrow> (duration list \<times> u64 list) res" where
  "SubscribeToSlots c script =
     (if scWsURL c = '''' then Inl (ErrorString ''ws_url not configured'') else Inr (slotLoop 0 script))"

section \<open>What a call leaves behind\<close>

lemma callURL_frame:
  "net_frame N view \<Longrightarrow> callURL N decode zero url method params e = (r, e') \<Longrightarrow> view e' = view e"
  using net_frameD(1) [of N view]
  by (auto simp: callURL_def split: option.splits prod.splits sum.splits if_splits json.splits)

lemma callLoop_frame:
  assumes "net_frame N view"
  shows "callLoop N decode zero method params i l (c, e) = (r, (c', e')) \<Longrightarrow> view e' = view e"
proof (induction i arbitrary: l c e)
  case (Suc i)
  let ?url = "scUrls c ! (unat (scNext c) mod length (scUrls c))"
  obtain d e1 where d: "callURL N decode zero ?url method params e = (d, e1)"
    by (cases "callURL N decode zero ?url method params e")
  from callURL_frame [OF assms d] Suc d show ?case by (cases d) (auto simp: Let_def)
qed auto

lemma call_frame:
  assumes "net_frame N view" "call N decode zero method params (c, e) = (r, (c', e'))"
  shows "view e' = view e"
proof -
  obtain x e1 where w: "net_wait N e = (x, e1)" by (cases "net_wait N e")
  show ?thesis
  proof (cases x)
    case None
    with assms(2) w have "callLoop N decode zero method params (length (scUrls c)) None (c, e1) = (r, (c', e'))"
      by (simp add: call_def)
    from callLoop_frame [OF assms(1) this] net_frameD(2) [OF assms(1) w] show ?thesis by simp
  next
    case (Some err)
    with assms(2) w net_frameD(2) [OF assms(1) w] show ?thesis by (simp add: call_def)
  qed
qed

section \<open>Reconnection delays\<close>

lemma backoff_values:
  "list_all (\<lambda>a. backoff a = min (250 * Millisecond * 2 ^ (a - 1)) (15 * Second)) [1..<37]"
  by code_simp

lemma go_int_0: "go_int (2 ^ 64 * x) = 0"
proof -
  have "take_bit 64 (2 ^ 64 * x) = 0" by (simp add: take_bit_eq_mod)
  then have "signed_take_bit 63 (2 ^ 64 * x) = signed_take_bit 63 0"
    using signed_take_bit_eq_iff_take_bit_eq [of 63 "2 ^ 64 * x" 0] by simp
  then show ?thesis by (simp add: go_int_def)
qed

text \<open>
  C35: the reconnection delay doubles from 250 ms up to 15 s for the first 36 failures in a row. The shift has no
  bound of its own: at failure 37 the delay is negative and from failure 58 on it is zero, so that after a longer
  outage the loop dials without any pause.
\<close>

theorem backoff_doubles_then_collapses:
  "(\<forall>a \<in> {1..36}. backoff a = min (250 * Millisecond * 2 ^ (a - 1)) (15 * Second)) \<and>
   backoff 37 < 0 \<and> (\<forall>a \<ge> 58. backoff a = 0)"
proof (intro conjI allI impI)
  show "\<forall>a \<in> {1..36}. backoff a = min (250 * Millisecond * 2 ^ (a - 1)) (15 * Second)"
    using backoff_values unfolding list_all_iff by simp
  show "backoff 37 < 0" by code_simp
  fix a :: nat
  assume "58 \<le> a"
  then have "a - 1 = 57 + (a - 58)" by simp
  then have "(2 :: int) ^ (a - 1) = 2 ^ 57 * 2 ^ (a - 58)" by (simp only: power_add)
  then have "baseBackoff * 2 ^ (a - 1) = 2 ^ 64 * (1953125 * 2 ^ (a - 58))"
    by (simp add: baseBackoff_def Millisecond_def)
  then have "go_int (baseBackoff * 2 ^ (a - 1)) = 0" by (simp only: go_int_0)
  then show "backoff a = 0" by (simp add: backoff_def maxBackoff_def Second_def Millisecond_def)
qed

text \<open>The delays of a run in which every dial fails.\<close>

theorem backoff_doubles_then_collapses_witness:
  "36 \<in> {1..36 :: nat} \<and> backoff 36 = 15 * Second \<and> backoff 60 = 0"
proof -
  have "36 \<in> {1..36 :: nat}" "(58 :: nat) \<le> 60" by simp_all
  with backoff_doubles_then_collapses
  have "backoff 36 = min (250 * Millisecond * 2 ^ (36 - 1)) (15 * Second)" "backoff 60 = 0" by blast+
  then show ?thesis by (simp add: Millisecond_def Second_def)
qed

end
