(* ===== verification/Base_Tracker.thy ===== *)
theory Base_Tracker
  imports Storage_Interface
begin

text \<open>
  The chain-independent tracker of \<open>internal/blockchain/base/tracker.go\<close>: its configuration and
  state, how blocks are put on its two queues (polling, catch-up, realtime, delayed requeue), and how
  a worker takes one block from a queue to the processed mark. A method is a function on the
  tracker's state \<open>t\<close> and the state \<open>w\<close> of everything outside it; the storage \<open>S\<close>, the
  chain-specific processor \<open>P\<close> and the publisher are values of their Go interfaces.

  The functions describe one goroutine with the others standing still: a channel is the list of
  the jobs it holds, and a \<open>select\<close> with several ready branches takes the one the argument \<open>pick\<close>
  names (Go chooses any of them). The interleaving of the goroutines is in \<open>Tracker_Concurrency\<close>.
  Logging is left out.
\<close>

section \<open>Configuration and state\<close>

record BlockJob =
  jobNumber :: u64
  jobSource :: string

definition blockSourceRealtime :: string where "blockSourceRealtime = ''realtime''"
definition blockSourcePolling :: string where "blockSourcePolling = ''polling''"
definition blockSourceCatchup :: string where "blockSourceCatchup = ''catchup''"
definition blockSourceRequeue :: string where "blockSourceRequeue = ''requeue''"

lemmas block_sources = blockSourceRealtime_def blockSourcePolling_def blockSourceCatchup_def
  blockSourceRequeue_def

record BaseTrackerConfig =
  Confirmations :: int
  BatchSize :: int
  MaxConcurrentBlocks :: int
  PollInterval :: duration
  CatchupBatchSize :: int
  HealthCheckInterval :: duration
  RequeueDelay :: duration
  RealtimeWorkers :: int
  CatchupWorkers :: int
  RealtimeQueueCap :: int
  CatchupQueueCap :: int

text \<open>
  The state of a tracker. A channel is the list of its jobs with its capacity; \<open>stopped\<close> says that
  \<open>stopCh\<close> is closed, \<open>cancelled\<close> that \<open>runCtx\<close> is done; \<open>wgCount\<close> is the number of goroutines the
  wait group counts. \<open>requeues\<close> are the timers of \<open>time.AfterFunc\<close> that have not fired: delay,
  block and the number of the run whose context the callback watches (\<open>runId\<close> counts the runs).
\<close>

record BaseTracker =
  config :: BaseTrackerConfig
  isRunning :: bool
  stopped :: bool
  cancelled :: bool
  runId :: nat
  wgCount :: nat
  processedBlocks :: u64
  processedTxs :: u64
  errorCount :: u64
  startTime :: go_time
  lastEnqueued :: u64
  lastDequeued :: u64
  lastProcessing :: u64
  skippedChannelFull :: u64
  skippedAlreadyProcessed :: u64
  blockGapConsecutive :: u64
  realtimeCh :: "BlockJob list"
  realtimeCap :: int
  catchupCh :: "BlockJob list"
  catchupCap :: int
  inFlightBlocks :: "u64 set"
  requeues :: "(duration \<times> u64 \<times> nat) list"

type_synonym 'w state = "BaseTracker \<times> 'w"

text \<open>The interface \<open>BlockProcessor\<close>, with the two optional methods \<open>GetStats\<close> asks for.\<close>

record 'w BlockProcessor =
  bp_ProcessBlock :: "u64 \<Rightarrow> 'w state \<Rightarrow> bool res \<times> 'w state"
  bp_GetCurrentBlockHeight :: "'w \<Rightarrow> u64 res \<times> 'w"
  bp_GetNetwork :: BlockchainType
  bp_InitializeProviders :: "'w \<Rightarrow> error option \<times> 'w"
  bp_CleanupProviders :: "'w \<Rightarrow> error option \<times> 'w"
  bp_InFlightTxs :: "('w \<Rightarrow> u64) option"
  bp_ProviderStats :: "('w \<Rightarrow> (string \<rightharpoonup> u64) \<times> (string \<rightharpoonup> u64) \<times> string) option"

record 'w Publisher =
  pub_PublishDeposit :: "WalletDeposit \<Rightarrow> 'w \<Rightarrow> error option \<times> 'w"
  pub_PublishWithdrawal :: "WalletWithdrawal \<Rightarrow> 'w \<Rightarrow> error option \<times> 'w"

definition workerSplit :: "BaseTrackerConfig \<Rightarrow> int \<times> int" where
  "workerSplit c =
     (if RealtimeWorkers c > 0 \<or> CatchupWorkers c > 0 then
        (if RealtimeWorkers c \<le> 0 then 1 else RealtimeWorkers c,
         if CatchupWorkers c \<le> 0 then 1 else CatchupWorkers c)
      else
        let total = (if MaxConcurrentBlocks c \<le> 0 then 1 else MaxConcurrentBlocks c);
            rw = (if total div 5 < 1 then 1 else total div 5);
            cw = (if total - rw < 1 then 1 else total - rw)
        in (rw, cw))"

definition queueCaps :: "BaseTrackerConfig \<Rightarrow> int \<Rightarrow> int \<Rightarrow> int \<times> int" where
  "queueCaps c realtimeWorkers catchupWorkers =
     (let rc0 = RealtimeQueueCap c;
          rc1 = (if rc0 \<le> 0 then go_int (realtimeWorkers * 20) else rc0);
          rc = (if rc1 < 200 then 200 else rc1);
          cc0 = CatchupQueueCap c;
          cc1 = (if cc0 \<le> 0 then go_int (catchupWorkers * 50) else cc0);
          cc2 = (if CatchupBatchSize c > cc1 then CatchupBatchSize c else cc1);
          cc = (if cc2 < 1000 then 1000 else cc2)
      in (rc, cc))"

definition NewBaseTracker :: "BaseTrackerConfig \<Rightarrow> go_time \<Rightarrow> BaseTracker" where
  "NewBaseTracker c now =
     (let (rw, cw) = workerSplit c; (rc, cc) = queueCaps c rw cw in
      \<lparr>config = c, isRunning = False, stopped = False, cancelled = False, runId = 0, wgCount = 0,
       processedBlocks = 0, processedTxs = 0, errorCount = 0, startTime = now,
       lastEnqueued = 0, lastDequeued = 0, lastProcessing = 0, skippedChannelFull = 0,
       skippedAlreadyProcessed = 0, blockGapConsecutive = 0,
       realtimeCh = [], realtimeCap = rc, catchupCh = [], catchupCap = cc,
       inFlightBlocks = {}, requeues = []\<rparr>)"

section \<open>Start and Stop\<close>

text \<open>
  \<open>Start\<close> with the parent context done (\<open>parentDone\<close>) or not. The goroutines it starts are counted:
  the workers of both kinds, the subscription loop, the health monitor and the initial catch-up.
\<close>

definition bt_Start :: "'w BlockProcessor \<Rightarrow> bool \<Rightarrow> 'w state \<Rightarrow> error option \<times> 'w state" where
  "bt_Start P parentDone s = (case s of (t, w) \<Rightarrow>
     (if isRunning t then
        (Some (ErrorString (''tracker for '' @ bp_GetNetwork P @ '' is already running'')), (t, w))
      else
        let (rw, cw) = workerSplit (config t); (rc, cc) = queueCaps (config t) rw cw;
            t1 = t\<lparr>stopped := False, realtimeCh := [], realtimeCap := rc,
                    catchupCh := [], catchupCap := cc, inFlightBlocks := {}, isRunning := True\<rparr>;
            t2 = t1\<lparr>runId := runId t1 + 1, cancelled := parentDone\<rparr>
        in case bp_InitializeProviders P w of
             (Some err, w1) \<Rightarrow>
               (Some (Wrap ''failed to initialize providers'' err), (t2\<lparr>isRunning := False\<rparr>, w1))
           | (None, w1) \<Rightarrow> (None, (t2\<lparr>wgCount := wgCount t2 + nat rw + nat cw + 3\<rparr>, w1))))"

text \<open>\<open>Stop\<close> waits for every goroutine; an error of the clean-up is only logged.\<close>

definition bt_Stop :: "'w BlockProcessor \<Rightarrow> 'w state \<Rightarrow> error option \<times> 'w state" where
  "bt_Stop P s = (case s of (t, w) \<Rightarrow>
     (if \<not> isRunning t then (None, (t, w))
      else
        let t1 = t\<lparr>isRunning := False, cancelled := True, stopped := True, wgCount := 0\<rparr>
        in case bp_CleanupProviders P w of (_, w1) \<Rightarrow> (None, (t1, w1))))"

section \<open>Queues\<close>

text \<open>The branches of a \<open>select\<close>, and the choice among the ready ones.\<close>

datatype branch = SendReady | CtxDone | StopClosed | TimerFired

definition ready_cases :: "bool \<Rightarrow> bool \<Rightarrow> bool \<Rightarrow> branch list" where
  "ready_cases room ctxDone stopClosed =
     (if room then [SendReady] else []) @ (if ctxDone then [CtxDone] else []) @
     (if stopClosed then [StopClosed] else [])"

text \<open>With no branch ready the timer (or the \<open>default\<close> branch) is taken.\<close>

definition select_case :: "branch \<Rightarrow> branch list \<Rightarrow> branch" where
  "select_case pick rs =
     (case rs of [] \<Rightarrow> TimerFired | r # _ \<Rightarrow> if pick \<in> set rs then pick else r)"

definition enqueueJob :: "branch \<Rightarrow> BlockJob \<Rightarrow> BaseTracker \<Rightarrow> bool \<times> BaseTracker" where
  "enqueueJob pick job0 t =
     (let job = (if jobSource job0 = '''' then job0\<lparr>jobSource := ''unknown''\<rparr> else job0);
          isCatchup = (jobSource job = blockSourceCatchup);
          room = (if isCatchup then int (length (catchupCh t)) < catchupCap t
                  else int (length (realtimeCh t)) < realtimeCap t)
      in case select_case pick (ready_cases room (cancelled t) (stopped t)) of
           SendReady \<Rightarrow>
             (True, (if isCatchup then t\<lparr>catchupCh := catchupCh t @ [job]\<rparr>
                     else t\<lparr>realtimeCh := realtimeCh t @ [job]\<rparr>)\<lparr>lastEnqueued := jobNumber job\<rparr>)
         | CtxDone \<Rightarrow> (False, t)
         | StopClosed \<Rightarrow> (False, t)
         | TimerFired \<Rightarrow> (False, t\<lparr>skippedChannelFull := skippedChannelFull t + 1\<rparr>))"

definition requeueDelay :: "BaseTrackerConfig \<Rightarrow> duration" where
  "requeueDelay c = (if RequeueDelay c \<le> 0 then 5 * Second else RequeueDelay c)"

definition requeueBlock :: "u64 \<Rightarrow> BaseTracker \<Rightarrow> BaseTracker" where
  "requeueBlock blockNumber t =
     t\<lparr>requeues := requeues t @ [(requeueDelay (config t), blockNumber, runId t)]\<rparr>"

text \<open>
  The callback of the timer at position \<open>i\<close>. It watches the context of the run that armed it (done
  once that run was stopped) but the stop channel and the realtime queue of the current run.
\<close>

definition fireRequeue :: "branch \<Rightarrow> nat \<Rightarrow> BaseTracker \<Rightarrow> BaseTracker" where
  "fireRequeue pick i t =
     (case nth (requeues t) i of (delay, blockNumber, run) \<Rightarrow>
        let t1 = t\<lparr>requeues := take i (requeues t) @ drop (Suc i) (requeues t)\<rparr>;
            job = \<lparr>jobNumber = blockNumber, jobSource = blockSourceRequeue\<rparr>;
            room = (int (length (realtimeCh t)) < realtimeCap t)
        in case select_case pick (ready_cases room (cancelled t \<or> run \<noteq> runId t) (stopped t)) of
             SendReady \<Rightarrow> t1\<lparr>realtimeCh := realtimeCh t1 @ [job], lastEnqueued := blockNumber\<rparr>
           | _ \<Rightarrow> t1)"

section \<open>Polling and catch-up\<close>

text \<open>The safe head with the two defaults the code uses while the chain is short.\<close>

definition safeHead0 :: "BaseTrackerConfig \<Rightarrow> u64 \<Rightarrow> u64" where
  "safeHead0 c currentBlock =
     (if currentBlock > to_uint64 (Confirmations c) then currentBlock - to_uint64 (Confirmations c) else 0)"

definition safeHeadCur :: "BaseTrackerConfig \<Rightarrow> u64 \<Rightarrow> u64" where
  "safeHeadCur c currentBlock =
     (if currentBlock > to_uint64 (Confirmations c) then currentBlock - to_uint64 (Confirmations c)
      else currentBlock)"

definition normalizeLastProcessed ::
  "'w Storage \<Rightarrow> 'w BlockProcessor \<Rightarrow> BaseTrackerConfig \<Rightarrow> u64 \<Rightarrow> 'w \<Rightarrow> u64 \<times> 'w" where
  "normalizeLastProcessed S P c currentBlock w =
     (case st_GetLastProcessedBlock S (bp_GetNetwork P) w of
        (Inl err, w1) \<Rightarrow> (0, w1)
      | (Inr lastProcessed, w1) \<Rightarrow>
          let safeHead = safeHead0 c currentBlock;
              reset = (\<lambda>resetTo. case st_ForceSetLastProcessedBlock S (bp_GetNetwork P) resetTo w1 of
                         (Some err, w2) \<Rightarrow> (lastProcessed, w2)
                       | (None, w2) \<Rightarrow> (resetTo, w2))
          in if safeHead > 0 \<and> lastProcessed > safeHead then reset safeHead
             else if lastProcessed > currentBlock then reset currentBlock
             else (lastProcessed, w1))"

text \<open>
  The loop that enqueues the blocks from \<open>blockNum\<close> up to \<open>bound\<close>, stopping at the safe head; the
  result says whether every enqueue succeeded. Polling and catch-up share its shape.
\<close>

function enqueueRange ::
  "(u64 \<Rightarrow> branch) \<Rightarrow> string \<Rightarrow> u64 \<Rightarrow> u64 \<Rightarrow> u64 \<Rightarrow> BaseTracker \<Rightarrow> bool \<times> BaseTracker" where
  "enqueueRange pick src bound safeHead blockNum t =
     (if blockNum \<le> bound then
        if blockNum > safeHead then (True, t)
        else case enqueueJob (pick blockNum) \<lparr>jobNumber = blockNum, jobSource = src\<rparr> t of
               (False, t') \<Rightarrow> (False, t')
             | (True, t') \<Rightarrow> enqueueRange pick src bound safeHead (blockNum + 1) t'
      else (True, t))"
  by pat_completeness auto

definition queue_room :: "BaseTracker \<Rightarrow> nat" where
  "queue_room t = nat (catchupCap t - int (length (catchupCh t))) +
     nat (realtimeCap t - int (length (realtimeCh t)))"

lemma select_SendReady: "select_case pick (ready_cases room c s) = SendReady \<Longrightarrow> room"
  by (auto simp: select_case_def ready_cases_def split: if_splits)

lemma enqueueJob_room: "enqueueJob pick job t = (True, t') \<Longrightarrow> queue_room t' < queue_room t"
  by (auto simp: enqueueJob_def Let_def queue_room_def split: branch.splits if_splits
      dest!: select_SendReady)

termination enqueueRange
  by (relation "measure (\<lambda>(pick, src, bound, safeHead, blockNum, t). queue_room t)")
    (auto simp: enqueueJob_room [OF sym])

declare enqueueRange.simps [simp del]

text \<open>
  The catch-up loop over batches. It may run forever (a batch size close to \<open>2^64\<close> makes \<open>start\<close> wrap
  around), so the loop is an option; the 100 ms pause between batches ends at once when the
  tracker is stopped.
\<close>

partial_function (option) catchupBatches ::
  "(u64 \<Rightarrow> branch) \<Rightarrow> u64 \<Rightarrow> u64 \<Rightarrow> u64 \<Rightarrow> u64 \<Rightarrow> BaseTracker \<Rightarrow> BaseTracker option" where
  "catchupBatches pick batchSize currentBlock safeHead start t =
     (if start \<le> currentBlock then
        let end0 = start + batchSize - 1;
            end1 = (if end0 > currentBlock then currentBlock else end0)
        in case enqueueRange pick blockSourceCatchup end1 safeHead start t of
             (ok, t') \<Rightarrow>
               if \<not> ok then Some t'
               else if cancelled t' \<or> stopped t' then Some t'
               else catchupBatches pick batchSize currentBlock safeHead (start + batchSize) t'
      else Some t)"

definition performInitialCatchup ::
  "'w Storage \<Rightarrow> 'w BlockProcessor \<Rightarrow> (u64 \<Rightarrow> branch) \<Rightarrow> 'w state \<Rightarrow> 'w state option" where
  "performInitialCatchup S P pick s = (case s of (t, w) \<Rightarrow>
     (case bp_GetCurrentBlockHeight P w of
        (Inl err, w1) \<Rightarrow> Some (t, w1)
      | (Inr currentBlock, w1) \<Rightarrow>
          (case normalizeLastProcessed S P (config t) currentBlock w1 of (last0, w2) \<Rightarrow>
             let (init, lastProcessed, w3) =
                   (if last0 = 0 then
                      (case st_SetLastProcessedBlock S (bp_GetNetwork P) currentBlock w2 of
                         (err, w3) \<Rightarrow> (err, currentBlock, w3))
                    else (None, last0, w2))
             in if init \<noteq> None then Some (t, w3)
                else if lastProcessed \<ge> currentBlock then Some (t, w3)
                else if currentBlock - lastProcessed \<le> 10 then Some (t, w3)
                else
                  let batchSize0 = to_uint64 (CatchupBatchSize (config t));
                      batchSize = (if batchSize0 = 0 then 1 else batchSize0);
                      safeHead = safeHeadCur (config t) currentBlock
                  in case catchupBatches pick batchSize currentBlock safeHead (lastProcessed + 1) t of
                       None \<Rightarrow> None
                     | Some t' \<Rightarrow> Some (t', w3))))"

definition performPolling ::
  "'w Storage \<Rightarrow> 'w BlockProcessor \<Rightarrow> (u64 \<Rightarrow> branch) \<Rightarrow> 'w state \<Rightarrow> 'w state" where
  "performPolling S P pick s = (case s of (t, w) \<Rightarrow>
     (case bp_GetCurrentBlockHeight P w of
        (Inl err, w1) \<Rightarrow> (t\<lparr>errorCount := errorCount t + 1\<rparr>, w1)
      | (Inr currentBlock, w1) \<Rightarrow>
          (case normalizeLastProcessed S P (config t) currentBlock w1 of (lastProcessed, w2) \<Rightarrow>
             if lastProcessed = 0 \<and> currentBlock = 0 then (t, w2)
             else
               let safeHead = safeHeadCur (config t) currentBlock
               in (snd (enqueueRange pick blockSourcePolling currentBlock safeHead (lastProcessed + 1) t),
                   w2))))"

section \<open>Processing a block\<close>

definition benign_error :: "error \<Rightarrow> bool" where
  "benign_error err \<longleftrightarrow> errors_Is err ContextCanceled \<or> errors_Is err NetErrClosed \<or>
     Contains (error_msg err) ''context canceled'' \<or>
     Contains (error_msg err) ''use of closed network connection''"

definition processBlockSafely ::
  "'w Storage \<Rightarrow> 'w BlockProcessor \<Rightarrow> u64 \<Rightarrow> 'w state \<Rightarrow> error option \<times> 'w state" where
  "processBlockSafely S P blockNumber s = (case s of (t, w) \<Rightarrow>
     let t1 = t\<lparr>lastProcessing := blockNumber\<rparr> in
     (case bp_GetCurrentBlockHeight P w of
        (Inl err, w1) \<Rightarrow>
          (if benign_error err then (None, (t1, w1))
           else (Some (Wrap ''failed to get current block height'' err), (t1, w1)))
      | (Inr currentBlock, w1) \<Rightarrow>
          if currentBlock < blockNumber then (None, (requeueBlock blockNumber t1, w1))
          else if currentBlock - blockNumber < to_uint64 (Confirmations (config t1))
          then (None, (requeueBlock blockNumber t1, w1))
          else
            (case bp_ProcessBlock P blockNumber (t1, w1) of
               (Inl err, s2) \<Rightarrow> (Some (Wrap ''failed to process block'' err), s2)
             | (Inr fullyProcessed, (t2, w2)) \<Rightarrow>
                 if \<not> fullyProcessed then (None, (t2, w2))
                 else (case st_MarkBlockProcessed S (bp_GetNetwork P) blockNumber w2 of
                    (Some err, w3) \<Rightarrow> (Some (Wrap ''failed to mark block as processed'' err), (t2, w3))
                  | (None, w3) \<Rightarrow>
                      (case st_DeleteCache S (blockCacheKey (bp_GetNetwork P) blockNumber) w3 of (_, w4) \<Rightarrow>
                         (case st_AdvanceHighWaterMark S (bp_GetNetwork P) w4 of (_, w5) \<Rightarrow>
                            (None, (t2\<lparr>processedBlocks := processedBlocks t2 + 1\<rparr>, w5))))))))"

definition releaseInFlight :: "u64 \<Rightarrow> BaseTracker \<Rightarrow> BaseTracker" where
  "releaseInFlight blockNumber t = t\<lparr>inFlightBlocks := inFlightBlocks t - {blockNumber}\<rparr>"

definition processBlockJob :: "'w Storage \<Rightarrow> 'w BlockProcessor \<Rightarrow> BlockJob \<Rightarrow> 'w state \<Rightarrow> 'w state" where
  "processBlockJob S P job s = (case s of (t, w) \<Rightarrow>
     let blockNumber = jobNumber job; network = bp_GetNetwork P in
     if blockNumber \<in> inFlightBlocks t
     then (t\<lparr>skippedAlreadyProcessed := skippedAlreadyProcessed t + 1\<rparr>, w)
     else
       let t1 = t\<lparr>inFlightBlocks := insert blockNumber (inFlightBlocks t)\<rparr> in
       (case st_IsBlockProcessed S network blockNumber w of
          (Inl err, w1) \<Rightarrow>
            (let t2 = releaseInFlight blockNumber t1 in (t2\<lparr>errorCount := errorCount t2 + 1\<rparr>, w1))
        | (Inr processed, w1) \<Rightarrow>
            if processed then
              let t2 = releaseInFlight blockNumber t1;
                  t3 = t2\<lparr>skippedAlreadyProcessed := skippedAlreadyProcessed t2 + 1\<rparr>
              in (case st_AdvanceHighWaterMark S network w1 of
                    (Some err, w2) \<Rightarrow> (t3\<lparr>errorCount := errorCount t3 + 1\<rparr>, w2)
                  | (None, w2) \<Rightarrow> (t3, w2))
            else
              (case processBlockSafely S P blockNumber (t1, w1) of
                 (None, (t2, w2)) \<Rightarrow> (releaseInFlight blockNumber t2, w2)
               | (Some err, (t2, w2)) \<Rightarrow>
                   if errors_Is err ContextCanceled \<or> Contains (error_msg err) ''context canceled''
                   then (releaseInFlight blockNumber t2, w2)
                   else (releaseInFlight blockNumber (t2\<lparr>errorCount := errorCount t2 + 1\<rparr>), w2))))"

section \<open>The loops of the goroutines\<close>

text \<open>
  One round of a worker's loop. It leaves the loop (\<open>False\<close>) when the context or the stop branch is
  taken; with nothing ready it waits, which leaves the state as it is. \<open>rt\<close> says which of the two
  channels the worker reads.
\<close>

definition blockWorkerRound ::
  "'w Storage \<Rightarrow> 'w BlockProcessor \<Rightarrow> branch \<Rightarrow> bool \<Rightarrow> 'w state \<Rightarrow> bool \<times> 'w state" where
  "blockWorkerRound S P pick rt s = (case s of (t, w) \<Rightarrow>
     let ch = (if rt then realtimeCh t else catchupCh t) in
     (case select_case pick (ready_cases (ch \<noteq> []) (cancelled t) (stopped t)) of
        SendReady \<Rightarrow>
          let job = hd ch;
              t1 = (if rt then t\<lparr>realtimeCh := tl ch\<rparr> else t\<lparr>catchupCh := tl ch\<rparr>)\<lparr>lastDequeued := jobNumber job\<rparr>
          in (True, processBlockJob S P job (t1, w))
      | TimerFired \<Rightarrow> (True, (t, w))
      | _ \<Rightarrow> (False, (t, w))))"

text \<open>
  One event of the subscription loop: a block number from the subscription, the closing of the
  subscription's channel (polling continues), or a tick of the poll timer. The result says whether
  the subscription's channel is still watched.
\<close>

datatype sub_event = SubBlock u64 | SubClosed | SubTick

fun blockSubscriptionRound ::
  "'w Storage \<Rightarrow> 'w BlockProcessor \<Rightarrow> (u64 \<Rightarrow> branch) \<Rightarrow> sub_event \<Rightarrow> 'w state \<Rightarrow> bool \<times> 'w state" where
  "blockSubscriptionRound S P pick (SubBlock n) (t, w) =
     (True, (snd (enqueueJob (pick n) \<lparr>jobNumber = n, jobSource = blockSourceRealtime\<rparr> t), w))"
| "blockSubscriptionRound S P pick SubClosed (t, w) = (False, (t, w))"
| "blockSubscriptionRound S P pick SubTick (t, w) = (True, performPolling S P pick (t, w))"

section \<open>Statistics and health\<close>

text \<open>
  A read of the storage that fails counts as \<open>0\<close> here. The rates and the uptime in seconds, which the
  code computes in floating point for display, are not part of the snapshot.
\<close>

definition ok_or :: "'a \<Rightarrow> 'a res \<Rightarrow> 'a" where
  "ok_or d r = (case r of Inl _ \<Rightarrow> d | Inr x \<Rightarrow> x)"

definition GetStats ::
  "'w Storage \<Rightarrow> 'w BlockProcessor \<Rightarrow> go_time \<Rightarrow> 'w state \<Rightarrow> TrackerStats \<times> 'w state" where
  "GetStats S P now s = (case s of (t, w) \<Rightarrow>
     (case st_GetWatchedWallets S (bp_GetNetwork P) w of (watched, w1) \<Rightarrow>
     (case st_GetLastProcessedBlock S (bp_GetNetwork P) w1 of (last0, w2) \<Rightarrow>
     (case bp_GetCurrentBlockHeight P w2 of (height, w3) \<Rightarrow>
        let lastBlock = ok_or 0 last0;
            currentBlock = ok_or 0 height;
            safeHead = safeHead0 (config t) currentBlock;
            blockGap = (if safeHead > lastBlock then safeHead - lastBlock else 0);
            (providers, errs, lastProvider) =
              (case bp_ProviderStats P of None \<Rightarrow> (Map.empty, Map.empty, '''') | Some f \<Rightarrow> f w3)
        in (\<lparr>tsNetwork = bp_GetNetwork P, tsIsRunning = isRunning t,
             tsProcessedBlocks = processedBlocks t, tsProcessedTxs = processedTxs t,
             tsWatchedWallets = length (ok_or [] watched), tsLastBlockHeight = lastBlock,
             tsCurrentBlockHeight = currentBlock, tsSafeHead = safeHead, tsBlockGap = blockGap,
             tsConfirmations = Confirmations (config t),
             tsBlockQueueLen = int (length (realtimeCh t)) + int (length (catchupCh t)),
             tsBlockQueueCap = go_int (realtimeCap t + catchupCap t),
             tsLastEnqueuedBlock = lastEnqueued t, tsLastDequeuedBlock = lastDequeued t,
             tsLastProcessingBlock = lastProcessing t,
             tsSkippedChannelFull = skippedChannelFull t,
             tsSkippedProcessed = skippedAlreadyProcessed t,
             tsBlockGapConsecutive = blockGapConsecutive t,
             tsInFlightTxs = (case bp_InFlightTxs P of None \<Rightarrow> 0 | Some f \<Rightarrow> f w3),
             tsAPIProviders = providers, tsAPIProviderErrors = errs,
             tsAPIProviderLast = lastProvider,
             tsUptime = now - startTime t, tsErrorCount = errorCount t\<rparr>, (t, w3))))))"

record TrackerSnapshot =
  snNetwork :: string
  snBlockGap :: u64
  snCurrentBlockHeight :: u64
  snSafeHead :: u64
  snLastProcessedBlock :: u64
  snBlockQueueLen :: int
  snBlockQueueCap :: int
  snProcessedBlocks :: u64
  snProcessedTxs :: u64
  snErrorCount :: u64
  snSkippedChannelFull :: u64
  snSkippedProcessed :: u64

text \<open>
  The health report: the snapshot for the metrics, whether the warning about the block gap is
  logged, and the count of consecutive reports with a large gap.
\<close>

definition reportHealth ::
  "'w Storage \<Rightarrow> 'w BlockProcessor \<Rightarrow> 'w state \<Rightarrow> (TrackerSnapshot \<times> bool) \<times> 'w state" where
  "reportHealth S P s = (case s of (t, w) \<Rightarrow>
     (case st_GetLastProcessedBlock S (bp_GetNetwork P) w of (last0, w1) \<Rightarrow>
     (case bp_GetCurrentBlockHeight P w1 of (height, w2) \<Rightarrow>
        let lastProcessed = ok_or 0 last0;
            (currentBlock, safeHead, blockGap) =
              (case height of
                 Inl _ \<Rightarrow> (0, 0, 0)
               | Inr cb \<Rightarrow>
                   let sh = safeHead0 (config t) cb
                   in (cb, sh, if sh > lastProcessed then sh - lastProcessed else 0));
            gapConsecutive = (if blockGap > 20 then blockGapConsecutive t + 1 else 0);
            t1 = t\<lparr>blockGapConsecutive := gapConsecutive\<rparr>;
            warn = (blockGap > 20 \<and> (gapConsecutive = 3 \<or> gapConsecutive mod 10 = 0))
        in ((\<lparr>snNetwork = bp_GetNetwork P, snBlockGap = blockGap, snCurrentBlockHeight = currentBlock,
              snSafeHead = safeHead, snLastProcessedBlock = lastProcessed,
              snBlockQueueLen = int (length (realtimeCh t)) + int (length (catchupCh t)),
              snBlockQueueCap = go_int (realtimeCap t + catchupCap t),
              snProcessedBlocks = processedBlocks t, snProcessedTxs = processedTxs t,
              snErrorCount = errorCount t, snSkippedChannelFull = skippedChannelFull t,
              snSkippedProcessed = skippedAlreadyProcessed t\<rparr>, warn), (t1, w2)))))"

section \<open>Services for the processors and the API\<close>

definition bt_AddWatchedWallet ::
  "'w Storage \<Rightarrow> 'w BlockProcessor \<Rightarrow> string \<Rightarrow> string \<Rightarrow> 'w \<Rightarrow> error option \<times> 'w" where
  "bt_AddWatchedWallet S P address walletID = st_AddWatchedWallet S (bp_GetNetwork P) address walletID"

definition bt_RemoveWatchedWallet ::
  "'w Storage \<Rightarrow> 'w BlockProcessor \<Rightarrow> string \<Rightarrow> 'w \<Rightarrow> error option \<times> 'w" where
  "bt_RemoveWatchedWallet S P address = st_RemoveWatchedWallet S (bp_GetNetwork P) address"

definition bt_PublishDeposit :: "'w Publisher \<Rightarrow> WalletDeposit \<Rightarrow> 'w \<Rightarrow> error option \<times> 'w" where
  "bt_PublishDeposit pub deposit w =
     (case pub_PublishDeposit pub deposit w of
        (Some err, w1) \<Rightarrow> (Some (Wrap ''failed to publish deposit'' err), w1)
      | (None, w1) \<Rightarrow> (None, w1))"

definition bt_PublishWithdrawal :: "'w Publisher \<Rightarrow> WalletWithdrawal \<Rightarrow> 'w \<Rightarrow> error option \<times> 'w" where
  "bt_PublishWithdrawal pub withdrawal w =
     (case pub_PublishWithdrawal pub withdrawal w of
        (Some err, w1) \<Rightarrow> (Some (Wrap ''failed to publish withdrawal'' err), w1)
      | (None, w1) \<Rightarrow> (None, w1))"

definition IncrementTxCount :: "u64 \<Rightarrow> BaseTracker \<Rightarrow> BaseTracker" where
  "IncrementTxCount count t = t\<lparr>processedTxs := processedTxs t + count\<rparr>"

end
