(* ===== verification/Redis_Service.thy ===== *)
theory Redis_Service
  imports Bloop_Types "HOL-Library.AList"
begin

text \<open>
  What the program relies on of the Redis server. The server and its Go client
  (\<open>github.com/go-redis/redis\<close>) are not part of the repository: a client is a parameter
  \<open>exec\<close> of the model, a function from a command and the state of the outside world to a reply
  and the next state. The documented behaviour of the commands is the relation \<open>redis_spec\<close> on
  an abstract keyspace, and \<open>redis_laws exec view\<close> is the named hypothesis that the client
  follows it: a command either succeeds as documented, or it fails with an error of the
  transport, in which case the server may or may not have executed it.

  The keyspace is the one of a single Redis database: one value per key, and a command on a key
  that holds another type is refused. Time does not pass inside a command; a time to live is
  recorded by the server but expiry is not a reply of any command, so it is not a part of
  \<open>redis_spec\<close>.
\<close>

section \<open>Commands, replies, keyspace\<close>

datatype redis_cmd =
    HSet string string string
  | HDel string string
  | HGet string string
  | HGetAll string
  | GetBit string nat
  | SetBit string nat bool
  | Expire string duration
  | SAdd string string
  | SMembers string
  | Del string
  | SetKey string string duration
  | GetKey string
  | PingCmd

datatype redis_reply =
    RError error
  | RNil
  | ROk
  | RString string
  | RBit bool
  | RMap "(string \<times> string) list"
  | RList "string list"

datatype redis_value =
    VHash "(string \<times> string) list"
  | VBits "nat set"
  | VSet "string list"
  | VString string

type_synonym keyspace = "string \<rightharpoonup> redis_value"

definition wrong_type :: error where
  "wrong_type = ErrorString ''WRONGTYPE Operation against a key holding the wrong kind of value''"

text \<open>The views of a key under the type a command expects; a missing key is empty.\<close>

definition fields_at :: "keyspace \<Rightarrow> string \<Rightarrow> (string \<times> string) list" where
  "fields_at ks k = (case ks k of Some (VHash h) \<Rightarrow> h | _ \<Rightarrow> [])"

definition hash_at :: "keyspace \<Rightarrow> string \<Rightarrow> (string \<rightharpoonup> string)" where
  "hash_at ks k = map_of (fields_at ks k)"

definition bits_at :: "keyspace \<Rightarrow> string \<Rightarrow> nat set" where
  "bits_at ks k = (case ks k of Some (VBits b) \<Rightarrow> b | _ \<Rightarrow> {})"

definition set_at :: "keyspace \<Rightarrow> string \<Rightarrow> string list" where
  "set_at ks k = (case ks k of Some (VSet s) \<Rightarrow> s | _ \<Rightarrow> [])"

definition is_hash_key :: "keyspace \<Rightarrow> string \<Rightarrow> bool" where
  "is_hash_key ks k = (case ks k of None \<Rightarrow> True | Some (VHash _) \<Rightarrow> True | _ \<Rightarrow> False)"

definition is_bits_key :: "keyspace \<Rightarrow> string \<Rightarrow> bool" where
  "is_bits_key ks k = (case ks k of None \<Rightarrow> True | Some (VBits _) \<Rightarrow> True | _ \<Rightarrow> False)"

definition is_set_key :: "keyspace \<Rightarrow> string \<Rightarrow> bool" where
  "is_set_key ks k = (case ks k of None \<Rightarrow> True | Some (VSet _) \<Rightarrow> True | _ \<Rightarrow> False)"

definition put_hash :: "keyspace \<Rightarrow> string \<Rightarrow> (string \<times> string) list \<Rightarrow> keyspace" where
  "put_hash ks k al = (if al = [] then ks(k := None) else ks(k \<mapsto> VHash al))"

text \<open>
  The documented effect of a command. It is a function but for the order in which \<open>SMEMBERS\<close>
  lists a set and \<open>HGETALL\<close> lists a hash, which the documentation leaves open. A hash that
  loses its last field is removed.
\<close>

fun redis_spec :: "redis_cmd \<Rightarrow> keyspace \<Rightarrow> redis_reply \<Rightarrow> keyspace \<Rightarrow> bool" where
  "redis_spec (HSet k f v) ks rep ks' =
     (if is_hash_key ks k then rep = ROk \<and> ks' = ks(k \<mapsto> VHash (AList.update f v (fields_at ks k)))
      else rep = RError wrong_type \<and> ks' = ks)"
| "redis_spec (HDel k f) ks rep ks' =
     (if is_hash_key ks k
      then rep = ROk \<and> ks' = put_hash ks k (AList.delete f (fields_at ks k))
      else rep = RError wrong_type \<and> ks' = ks)"
| "redis_spec (HGet k f) ks rep ks' =
     (ks' = ks \<and> rep = (if is_hash_key ks k
        then (case hash_at ks k f of None \<Rightarrow> RNil | Some v \<Rightarrow> RString v) else RError wrong_type))"
| "redis_spec (HGetAll k) ks rep ks' =
     (ks' = ks \<and> (if is_hash_key ks k
        then \<exists>al. rep = RMap al \<and> distinct (map fst al) \<and> map_of al = hash_at ks k
        else rep = RError wrong_type))"
| "redis_spec (GetBit k i) ks rep ks' =
     (ks' = ks \<and> rep = (if is_bits_key ks k then RBit (i \<in> bits_at ks k) else RError wrong_type))"
| "redis_spec (SetBit k i b) ks rep ks' =
     (if is_bits_key ks k
      then rep = RBit (i \<in> bits_at ks k) \<and>
           ks' = ks(k \<mapsto> VBits (if b then insert i (bits_at ks k) else bits_at ks k - {i}))
      else rep = RError wrong_type \<and> ks' = ks)"
| "redis_spec (Expire k d) ks rep ks' = (rep = RBit (ks k \<noteq> None) \<and> ks' = ks)"
| "redis_spec (SAdd k m) ks rep ks' =
     (if is_set_key ks k
      then rep = RBit (m \<notin> set (set_at ks k)) \<and> ks' = ks(k \<mapsto> VSet (List.insert m (set_at ks k)))
      else rep = RError wrong_type \<and> ks' = ks)"
| "redis_spec (SMembers k) ks rep ks' =
     (ks' = ks \<and> (if is_set_key ks k
        then \<exists>xs. rep = RList xs \<and> distinct xs \<and> set xs = set (set_at ks k)
        else rep = RError wrong_type))"
| "redis_spec (Del k) ks rep ks' = (rep = RBit (ks k \<noteq> None) \<and> ks' = ks(k := None))"
| "redis_spec (SetKey k v d) ks rep ks' = (rep = ROk \<and> ks' = ks(k \<mapsto> VString v))"
| "redis_spec (GetKey k) ks rep ks' =
     (ks' = ks \<and> rep = (case ks k of None \<Rightarrow> RNil | Some (VString s) \<Rightarrow> RString s
        | Some _ \<Rightarrow> RError wrong_type))"
| "redis_spec PingCmd ks rep ks' = (rep = ROk \<and> ks' = ks)"

section \<open>The hypothesis on the client\<close>

type_synonym 'e redis_exec = "redis_cmd \<Rightarrow> 'e \<Rightarrow> redis_reply \<times> 'e"

definition redis_ok :: "redis_cmd \<Rightarrow> keyspace \<Rightarrow> redis_reply \<Rightarrow> keyspace \<Rightarrow> bool" where
  "redis_ok c ks rep ks' \<longleftrightarrow>
     redis_spec c ks rep ks' \<or>
     (\<exists>err. rep = RError err \<and> err \<noteq> RedisNil \<and> (ks' = ks \<or> (\<exists>rep'. redis_spec c ks rep' ks')))"

definition redis_laws :: "'e redis_exec \<Rightarrow> ('e \<Rightarrow> keyspace) \<Rightarrow> bool" where
  "redis_laws exec view \<longleftrightarrow>
     (\<forall>c e. redis_ok c (view e) (fst (exec c e)) (view (snd (exec c e))))"

lemma redis_lawsD:
  "redis_laws exec view \<Longrightarrow> exec c e = (rep, e') \<Longrightarrow> redis_ok c (view e) rep (view e')"
  unfolding redis_laws_def by (metis fst_conv snd_conv)

text \<open>Commands that only read leave the keyspace alone, whatever they reply.\<close>

fun is_read :: "redis_cmd \<Rightarrow> bool" where
  "is_read (HGet _ _) = True"
| "is_read (HGetAll _) = True"
| "is_read (GetBit _ _) = True"
| "is_read (SMembers _) = True"
| "is_read (GetKey _) = True"
| "is_read (Expire _ _) = True"
| "is_read PingCmd = True"
| "is_read _ = False"

lemma redis_spec_read: "is_read c \<Longrightarrow> redis_spec c ks rep ks' \<Longrightarrow> ks' = ks"
  by (cases c) auto

lemma redis_ok_read: "is_read c \<Longrightarrow> redis_ok c ks rep ks' \<Longrightarrow> ks' = ks"
  by (auto simp: redis_ok_def dest: redis_spec_read)

text \<open>Every command touches at most the key it names.\<close>

fun cmd_key :: "redis_cmd \<Rightarrow> string" where
  "cmd_key (HSet k _ _) = k"
| "cmd_key (HDel k _) = k"
| "cmd_key (HGet k _) = k"
| "cmd_key (HGetAll k) = k"
| "cmd_key (GetBit k _) = k"
| "cmd_key (SetBit k _ _) = k"
| "cmd_key (Expire k _) = k"
| "cmd_key (SAdd k _) = k"
| "cmd_key (SMembers k) = k"
| "cmd_key (Del k) = k"
| "cmd_key (SetKey k _ _) = k"
| "cmd_key (GetKey k) = k"
| "cmd_key PingCmd = []"

lemma redis_spec_frame: "redis_spec c ks rep ks' \<Longrightarrow> k \<noteq> cmd_key c \<Longrightarrow> ks' k = ks k"
  by (cases c) (auto simp: put_hash_def split: if_splits)

lemma redis_ok_frame: "redis_ok c ks rep ks' \<Longrightarrow> k \<noteq> cmd_key c \<Longrightarrow> ks' k = ks k"
  by (auto simp: redis_ok_def dest: redis_spec_frame)

section \<open>A server that satisfies the hypothesis\<close>

text \<open>
  An in-memory server that follows the documentation and whose failures are scripted: the state
  carries a list of booleans, one per command still to come, and a command whose entry is
  \<open>True\<close> is lost in the transport before the server sees it. It shows that
  \<open>redis_laws\<close> can hold, on runs with and without failures.
\<close>

record mem_server =
  msKeys :: keyspace
  msFail :: "bool list"

fun mem_run :: "redis_cmd \<Rightarrow> keyspace \<Rightarrow> redis_reply \<times> keyspace" where
  "mem_run (HSet k f v) ks =
     (if is_hash_key ks k then (ROk, ks(k \<mapsto> VHash (AList.update f v (fields_at ks k))))
      else (RError wrong_type, ks))"
| "mem_run (HDel k f) ks =
     (if is_hash_key ks k
      then (ROk, put_hash ks k (AList.delete f (fields_at ks k)))
      else (RError wrong_type, ks))"
| "mem_run (HGet k f) ks =
     (if is_hash_key ks k then (case hash_at ks k f of None \<Rightarrow> RNil | Some v \<Rightarrow> RString v)
      else RError wrong_type, ks)"
| "mem_run (HGetAll k) ks =
     (if is_hash_key ks k then RMap (AList.clearjunk (fields_at ks k)) else RError wrong_type, ks)"
| "mem_run (GetBit k i) ks =
     (if is_bits_key ks k then RBit (i \<in> bits_at ks k) else RError wrong_type, ks)"
| "mem_run (SetBit k i b) ks =
     (if is_bits_key ks k
      then (RBit (i \<in> bits_at ks k),
            ks(k \<mapsto> VBits (if b then insert i (bits_at ks k) else bits_at ks k - {i})))
      else (RError wrong_type, ks))"
| "mem_run (Expire k d) ks = (RBit (ks k \<noteq> None), ks)"
| "mem_run (SAdd k m) ks =
     (if is_set_key ks k
      then (RBit (m \<notin> set (set_at ks k)), ks(k \<mapsto> VSet (List.insert m (set_at ks k))))
      else (RError wrong_type, ks))"
| "mem_run (SMembers k) ks =
     (if is_set_key ks k then RList (remdups (set_at ks k)) else RError wrong_type, ks)"
| "mem_run (Del k) ks = (RBit (ks k \<noteq> None), ks(k := None))"
| "mem_run (SetKey k v d) ks = (ROk, ks(k \<mapsto> VString v))"
| "mem_run (GetKey k) ks =
     (case ks k of None \<Rightarrow> RNil | Some (VString s) \<Rightarrow> RString s | Some _ \<Rightarrow> RError wrong_type, ks)"
| "mem_run PingCmd ks = (ROk, ks)"

definition mem_exec :: "mem_server redis_exec" where
  "mem_exec c s = (case msFail s of
       True # fs \<Rightarrow> (RError (ErrorString ''i/o timeout''), s\<lparr>msFail := fs\<rparr>)
     | False # fs \<Rightarrow> (case mem_run c (msKeys s) of (rep, ks) \<Rightarrow> (rep, s\<lparr>msKeys := ks, msFail := fs\<rparr>))
     | [] \<Rightarrow> (case mem_run c (msKeys s) of (rep, ks) \<Rightarrow> (rep, s\<lparr>msKeys := ks\<rparr>)))"

lemma mem_run_spec: "mem_run c ks = (rep, ks') \<Longrightarrow> redis_spec c ks rep ks'"
  by (cases c) (auto simp: hash_at_def distinct_clearjunk map_of_clearjunk split: if_splits)

lemma mem_exec_laws: "redis_laws mem_exec msKeys"
  unfolding redis_laws_def redis_ok_def mem_exec_def
  by (auto split: list.splits bool.splits prod.splits dest: mem_run_spec)

end
