(* ===== verification/Wallet_Bloom.thy ===== *)
theory Wallet_Bloom
  imports Bloop_Types
begin

text \<open>
  The per-network Bloom filters of \<open>internal/storage/bloom.go\<close>. The filter itself is the library
  \<open>github.com/bits-and-blooms/bloom\<close>, a parameter \<open>BL\<close> of the model with its documented
  contract \<open>bloom_laws\<close>: a string that was added tests positive, and adding never makes another
  string negative. The locks of the Go code make each of its critical sections one step; the
  operations here are those steps.
\<close>

record 'f bloom_lib =
  NewWithEstimates :: "nat \<Rightarrow> rat \<Rightarrow> 'f"
  AddString :: "'f \<Rightarrow> string \<Rightarrow> 'f"
  TestString :: "'f \<Rightarrow> string \<Rightarrow> bool"

definition bloom_laws :: "'f bloom_lib \<Rightarrow> bool" where
  "bloom_laws BL \<longleftrightarrow>
     (\<forall>f s. TestString BL (AddString BL f s) s) \<and>
     (\<forall>f s t. TestString BL f t \<longrightarrow> TestString BL (AddString BL f s) t)"

record 'f WalletBloom =
  filters :: "BlockchainType \<Rightarrow> 'f option"
  falsePos :: rat
  minCapacity :: nat

definition NewWalletBloom :: "'f WalletBloom" where
  "NewWalletBloom = \<lparr>filters = (\<lambda>_. None), falsePos = 1 / 1000, minCapacity = 1000\<rparr>"

text \<open>
  \<open>Refresh\<close> asks the source of truth \<open>get\<close> for the network's addresses (a Go map, given here in
  the order the \<open>range\<close> loop visits it) and installs a new filter that holds them all.
\<close>

definition Refresh ::
  "'f bloom_lib \<Rightarrow> (BlockchainType \<Rightarrow> 'e \<Rightarrow> (string \<times> string) list res \<times> 'e) \<Rightarrow> BlockchainType
   \<Rightarrow> 'f WalletBloom \<times> 'e \<Rightarrow> error option \<times> ('f WalletBloom \<times> 'e)" where
  "Refresh BL get network s = (case s of (wb, e) \<Rightarrow>
     (case get network e of
        (Inl err, e') \<Rightarrow> (Some err, (wb, e'))
      | (Inr m, e') \<Rightarrow>
          (let estSize = max (length m) (minCapacity wb);
               bf = foldl (AddString BL) (NewWithEstimates BL estSize (falsePos wb)) (map fst m)
           in (None, (wb\<lparr>filters := (filters wb)(network := Some bf)\<rparr>, e')))))"

fun SeedAll ::
  "'f bloom_lib \<Rightarrow> (BlockchainType \<Rightarrow> 'e \<Rightarrow> (string \<times> string) list res \<times> 'e) \<Rightarrow> BlockchainType list
   \<Rightarrow> 'f WalletBloom \<times> 'e \<Rightarrow> error option \<times> ('f WalletBloom \<times> 'e)" where
  "SeedAll BL get [] s = (None, s)"
| "SeedAll BL get (n # ns) s =
     (case Refresh BL get n s of
        (Some err, s') \<Rightarrow> (Some err, s')
      | (None, s') \<Rightarrow> SeedAll BL get ns s')"

definition bloom_Add ::
  "'f bloom_lib \<Rightarrow> BlockchainType \<Rightarrow> string \<Rightarrow> 'f WalletBloom \<Rightarrow> 'f WalletBloom" where
  "bloom_Add BL network address wb =
     (let bf = (case filters wb network of
                  None \<Rightarrow> NewWithEstimates BL (minCapacity wb) (falsePos wb)
                | Some bf \<Rightarrow> bf)
      in wb\<lparr>filters := (filters wb)(network := Some (AddString BL bf address))\<rparr>)"

definition MaybeContains ::
  "'f bloom_lib \<Rightarrow> BlockchainType \<Rightarrow> string \<Rightarrow> 'f WalletBloom \<Rightarrow> bool" where
  "MaybeContains BL network address wb =
     (case filters wb network of
        None \<Rightarrow> True
      | Some bf \<Rightarrow> TestString BL bf address)"

section \<open>The filters never lose an address\<close>

lemma bloom_test_add [simp]: "bloom_laws BL \<Longrightarrow> TestString BL (AddString BL f s) s"
  by (simp add: bloom_laws_def)

lemma bloom_test_mono: "bloom_laws BL \<Longrightarrow> TestString BL f t \<Longrightarrow> TestString BL (AddString BL f s) t"
  by (simp add: bloom_laws_def)

lemma bloom_test_foldl:
  "bloom_laws BL \<Longrightarrow> TestString BL f a \<or> a \<in> set as \<Longrightarrow> TestString BL (foldl (AddString BL) f as) a"
  by (induction as arbitrary: f) (auto intro: bloom_test_mono)

lemma MaybeContains_Add_same [simp]:
  "bloom_laws BL \<Longrightarrow> MaybeContains BL n a (bloom_Add BL n a wb)"
  by (simp add: MaybeContains_def bloom_Add_def Let_def)

lemma MaybeContains_Add_other_network [simp]:
  "n \<noteq> m \<Longrightarrow> MaybeContains BL n a (bloom_Add BL m b wb) = MaybeContains BL n a wb"
  by (simp add: MaybeContains_def bloom_Add_def Let_def)

text \<open>An existing filter keeps its answers when an address is added.\<close>

lemma MaybeContains_Add_mono:
  "bloom_laws BL \<Longrightarrow> filters wb n \<noteq> None \<Longrightarrow> MaybeContains BL n a wb \<Longrightarrow>
   MaybeContains BL n a (bloom_Add BL m b wb)"
  by (auto simp: MaybeContains_def bloom_Add_def Let_def intro: bloom_test_mono
      split: option.splits)

lemma filters_Add [simp]: "filters (bloom_Add BL m b wb) n = None \<longleftrightarrow> n \<noteq> m \<and> filters wb n = None"
  by (simp add: bloom_Add_def Let_def)

lemma Refresh_covers:
  assumes "bloom_laws BL" "get n e = (Inr m, e')" "a \<in> fst ` set m"
    and "Refresh BL get n (wb, e) = (r, (wb', e''))"
  shows "filters wb' n \<noteq> None \<and> MaybeContains BL n a wb'"
proof -
  have "TestString BL (foldl (AddString BL) f (map fst m)) a" for f
    using bloom_test_foldl [OF assms(1), of f a "map fst m"] assms(3) by simp
  with assms(2,4) show ?thesis
    by (auto simp: Refresh_def Let_def MaybeContains_def)
qed

lemma Refresh_other_network:
  "Refresh BL get n (wb, e) = (r, (wb', e')) \<Longrightarrow> m \<noteq> n \<Longrightarrow> filters wb' m = filters wb m"
  by (auto simp: Refresh_def Let_def split: prod.splits sum.splits)

text \<open>An exact filter (a list of the added strings) satisfies the contract.\<close>

definition exact_bloom :: "string list bloom_lib" where
  "exact_bloom = \<lparr>NewWithEstimates = (\<lambda>_ _. []), AddString = (\<lambda>f s. s # f),
     TestString = (\<lambda>f s. s \<in> set f)\<rparr>"

lemma exact_bloom_simps [simp]:
  "NewWithEstimates exact_bloom k p = []" "AddString exact_bloom f s = s # f"
  "TestString exact_bloom f s \<longleftrightarrow> s \<in> set f"
  by (simp_all add: exact_bloom_def)

lemma exact_bloom_laws: "bloom_laws exact_bloom"
  by (simp add: bloom_laws_def)

end
