(* ===== verification/Redis_Storage.thy ===== *)
theory Redis_Storage
  imports Redis_Service Wallet_Bloom Storage_Interface
begin

text \<open>
  The storage layer: the Go interface \<open>Storage\<close> (\<open>internal/storage/storage.go\<close>) and its only
  implementation \<open>RedisStorage\<close> (\<open>internal/storage/redis.go\<close>). A \<open>world\<close> is the state the
  operations act on: the state \<open>env\<close> of the outside services and the Bloom filters of the
  process. Every method is a function from a world to its result and the next world; a method that
  returns only an \<open>error\<close> returns an \<^typ>\<open>error option\<close>, one that returns a value and an error
  returns a \<^typ>\<open>'a res\<close>. The Redis client \<open>ex\<close> and the Bloom library \<open>BL\<close> are parameters.
\<close>

record ('e, 'f) world =
  env :: 'e
  wbloom :: "'f WalletBloom"

section \<open>The client calls\<close>

definition rcmd ::
  "'e redis_exec \<Rightarrow> redis_cmd \<Rightarrow> ('e, 'f, 'm) world_scheme \<Rightarrow> redis_reply \<times> ('e, 'f, 'm) world_scheme" where
  "rcmd ex c w = (case ex c (env w) of (rep, e') \<Rightarrow> (rep, w\<lparr>env := e'\<rparr>))"

text \<open>The typed results of the client (\<open>.Err()\<close>, \<open>.Result()\<close>).\<close>

fun cmd_err :: "redis_reply \<Rightarrow> error option" where
  "cmd_err (RError e) = Some e"
| "cmd_err RNil = Some RedisNil"
| "cmd_err _ = None"

fun str_result :: "redis_reply \<Rightarrow> string res" where
  "str_result (RString s) = Inr s"
| "str_result (RError e) = Inl e"
| "str_result RNil = Inl RedisNil"
| "str_result _ = Inl (ErrorString ''redis: unexpected reply'')"

fun bit_result :: "redis_reply \<Rightarrow> bool res" where
  "bit_result (RBit b) = Inr b"
| "bit_result (RError e) = Inl e"
| "bit_result _ = Inl (ErrorString ''redis: unexpected reply'')"

fun map_result :: "redis_reply \<Rightarrow> (string \<times> string) list res" where
  "map_result (RMap m) = Inr m"
| "map_result (RError e) = Inl e"
| "map_result _ = Inl (ErrorString ''redis: unexpected reply'')"

fun list_result :: "redis_reply \<Rightarrow> string list res" where
  "list_result (RList xs) = Inr xs"
| "list_result (RError e) = Inl e"
| "list_result _ = Inl (ErrorString ''redis: unexpected reply'')"

section \<open>Wallet tracking\<close>

definition walletsKey :: "BlockchainType \<Rightarrow> string" where
  "walletsKey network = ''watch:wallets:'' @ network"

definition AddWatchedWallet ::
  "'e redis_exec \<Rightarrow> 'f bloom_lib \<Rightarrow> BlockchainType \<Rightarrow> string \<Rightarrow> string
   \<Rightarrow> ('e, 'f, 'm) world_scheme \<Rightarrow> error option \<times> ('e, 'f, 'm) world_scheme" where
  "AddWatchedWallet ex BL network address walletID w =
     (case rcmd ex (HSet (walletsKey network) address walletID) w of (rep, w1) \<Rightarrow>
        (case cmd_err rep of
           Some err \<Rightarrow> (Some err, w1)
         | None \<Rightarrow> (None, w1\<lparr>wbloom := bloom_Add BL network address (wbloom w1)\<rparr>)))"

definition RemoveWatchedWallet ::
  "'e redis_exec \<Rightarrow> BlockchainType \<Rightarrow> string \<Rightarrow> ('e, 'f, 'm) world_scheme \<Rightarrow> error option \<times> ('e, 'f, 'm) world_scheme" where
  "RemoveWatchedWallet ex network address w =
     (case rcmd ex (HDel (walletsKey network) address) w of (rep, w1) \<Rightarrow> (cmd_err rep, w1))"

definition IsWatchedWallet ::
  "'e redis_exec \<Rightarrow> 'f bloom_lib \<Rightarrow> BlockchainType \<Rightarrow> string
   \<Rightarrow> ('e, 'f, 'm) world_scheme \<Rightarrow> (string \<times> bool) res \<times> ('e, 'f, 'm) world_scheme" where
  "IsWatchedWallet ex BL network address w =
     (if \<not> MaybeContains BL network address (wbloom w) then (Inr ('''', False), w)
      else case rcmd ex (HGet (walletsKey network) address) w of (rep, w1) \<Rightarrow>
        (case str_result rep of
           Inl err \<Rightarrow> if err = RedisNil then (Inr ('''', False), w1) else (Inl err, w1)
         | Inr walletID \<Rightarrow> (Inr (walletID, True), w1)))"

definition GetWatchedWallets ::
  "'e redis_exec \<Rightarrow> BlockchainType \<Rightarrow> ('e, 'f, 'm) world_scheme \<Rightarrow> (string \<times> string) list res \<times> ('e, 'f, 'm) world_scheme" where
  "GetWatchedWallets ex network w =
     (case rcmd ex (HGetAll (walletsKey network)) w of (rep, w1) \<Rightarrow> (map_result rep, w1))"

text \<open>
  The constructor: parse the URL (\<open>parseURL\<close>, of the client library), test the connection, then
  fill the Bloom filters from the stored wallets; a failure to fill them is only logged.
\<close>

definition seedGet ::
  "'e redis_exec \<Rightarrow> BlockchainType \<Rightarrow> 'e \<Rightarrow> (string \<times> string) list res \<times> 'e" where
  "seedGet ex network e = (case ex (HGetAll (walletsKey network)) e of (rep, e') \<Rightarrow> (map_result rep, e'))"

definition NewRedisStorage ::
  "'e redis_exec \<Rightarrow> 'f bloom_lib \<Rightarrow> (string \<Rightarrow> error option) \<Rightarrow> string \<Rightarrow> BlockchainType list
   \<Rightarrow> 'e \<Rightarrow> ('e, 'f) world res \<times> 'e" where
  "NewRedisStorage ex BL parseURL url networks e =
     (case parseURL url of
        Some err \<Rightarrow> (Inl (Wrap ''failed to parse Redis URL'' err), e)
      | None \<Rightarrow> (case ex PingCmd e of (rep, e1) \<Rightarrow>
          (case cmd_err rep of
             Some err \<Rightarrow> (Inl (Wrap ''failed to connect to Redis'' err), e1)
           | None \<Rightarrow> (case SeedAll BL (seedGet ex) networks (NewWalletBloom, e1) of
               (_, (wb, e2)) \<Rightarrow> (Inr \<lparr>env = e2, wbloom = wb\<rparr>, e2)))))"

section \<open>Block progress\<close>

definition lastKey :: string where
  "lastKey = ''last_processed_blocks''"

definition windowSize :: u64 where
  "windowSize = 100000"

definition windowKey :: "BlockchainType \<Rightarrow> u64 \<Rightarrow> string" where
  "windowKey network blockNumber =
     ''processed_blocks:'' @ network @ '':'' @ FormatUint (blockNumber div windowSize)"

definition bitPos :: "u64 \<Rightarrow> nat" where
  "bitPos blockNumber = unat (blockNumber mod windowSize)"

definition SetLastProcessedBlock ::
  "'e redis_exec \<Rightarrow> BlockchainType \<Rightarrow> u64 \<Rightarrow> ('e, 'f, 'm) world_scheme \<Rightarrow> error option \<times> ('e, 'f, 'm) world_scheme" where
  "SetLastProcessedBlock ex network blockNumber w =
     (case rcmd ex (HGet lastKey network) w of (rep, w1) \<Rightarrow>
        (let write = (case rcmd ex (HSet lastKey network (FormatUint blockNumber)) w1 of
                        (rep', w2) \<Rightarrow> (cmd_err rep', w2))
         in case str_result rep of
              Inl err \<Rightarrow> if err \<noteq> RedisNil then (Some err, w1) else write
            | Inr curStr \<Rightarrow>
                (case ParseUint curStr of
                   Inr cur \<Rightarrow> if blockNumber < cur then (None, w1) else write
                 | Inl _ \<Rightarrow> write)))"

definition ForceSetLastProcessedBlock ::
  "'e redis_exec \<Rightarrow> BlockchainType \<Rightarrow> u64 \<Rightarrow> ('e, 'f, 'm) world_scheme \<Rightarrow> error option \<times> ('e, 'f, 'm) world_scheme" where
  "ForceSetLastProcessedBlock ex network blockNumber w =
     (case rcmd ex (HSet lastKey network (FormatUint blockNumber)) w of (rep, w1) \<Rightarrow> (cmd_err rep, w1))"

definition GetLastProcessedBlock ::
  "'e redis_exec \<Rightarrow> BlockchainType \<Rightarrow> ('e, 'f, 'm) world_scheme \<Rightarrow> u64 res \<times> ('e, 'f, 'm) world_scheme" where
  "GetLastProcessedBlock ex network w =
     (case rcmd ex (HGet lastKey network) w of (rep, w1) \<Rightarrow>
        (case str_result rep of
           Inl err \<Rightarrow> if err = RedisNil then (Inr 0, w1) else (Inl err, w1)
         | Inr result \<Rightarrow> (ParseUint result, w1)))"

definition IsBlockProcessed ::
  "'e redis_exec \<Rightarrow> BlockchainType \<Rightarrow> u64 \<Rightarrow> ('e, 'f, 'm) world_scheme \<Rightarrow> bool res \<times> ('e, 'f, 'm) world_scheme" where
  "IsBlockProcessed ex network blockNumber w =
     (case rcmd ex (GetBit (windowKey network blockNumber) (bitPos blockNumber)) w of
        (rep, w1) \<Rightarrow> (bit_result rep, w1))"

definition MarkBlockProcessed ::
  "'e redis_exec \<Rightarrow> BlockchainType \<Rightarrow> u64 \<Rightarrow> ('e, 'f, 'm) world_scheme \<Rightarrow> error option \<times> ('e, 'f, 'm) world_scheme" where
  "MarkBlockProcessed ex network blockNumber w =
     (case rcmd ex (SetBit (windowKey network blockNumber) (bitPos blockNumber) True) w of
        (rep, w1) \<Rightarrow>
          (case cmd_err rep of
             Some err \<Rightarrow> (Some err, w1)
           | None \<Rightarrow>
               (case rcmd ex (Expire (windowKey network blockNumber) (30 * 24 * 3600 * Second)) w1 of
                  (rep', w2) \<Rightarrow> (cmd_err rep', w2))))"

text \<open>
  The walk of \<open>AdvanceHighWaterMark\<close>: follow the processed bits from \<open>advanced\<close>, stop at the
  first bit that is not set or once more than 10000 blocks were passed.
\<close>

function advanceWalk ::
  "'e redis_exec \<Rightarrow> BlockchainType \<Rightarrow> u64 \<Rightarrow> u64 \<Rightarrow> ('e, 'f, 'm) world_scheme \<Rightarrow> u64 res \<times> ('e, 'f, 'm) world_scheme" where
  "advanceWalk ex network last0 advanced w =
     (let next = advanced + 1 in
      case rcmd ex (GetBit (windowKey network next) (bitPos next)) w of (rep, w1) \<Rightarrow>
        (case bit_result rep of
           Inl err \<Rightarrow> (Inl err, w1)
         | Inr v \<Rightarrow>
             if \<not> v then (Inr advanced, w1)
             else if next - last0 > 10000 then (Inr next, w1)
             else advanceWalk ex network last0 next w1))"
  by pat_completeness auto
termination
proof (relation "measure (\<lambda>(ex, network, last0, advanced, w). unat (last0 + 10001 - advanced))", goal_cases)
  case (2 ex network last0 advanced w)
  have *: "unat (10001 - d) < unat (10002 - d)" if "\<not> d > 10000" for d :: u64
    using that by unat_arith
  have "\<not> 10000 < advanced + 1 - last0" using 2 by simp
  from * [OF this] show ?case using 2 by (simp add: algebra_simps)
qed simp

declare advanceWalk.simps [simp del]

definition AdvanceHighWaterMark ::
  "'e redis_exec \<Rightarrow> BlockchainType \<Rightarrow> ('e, 'f, 'm) world_scheme \<Rightarrow> error option \<times> ('e, 'f, 'm) world_scheme" where
  "AdvanceHighWaterMark ex network w =
     (case GetLastProcessedBlock ex network w of
        (Inl err, w1) \<Rightarrow> (Some err, w1)
      | (Inr last0, w1) \<Rightarrow>
          (case advanceWalk ex network last0 last0 w1 of
             (Inl err, w2) \<Rightarrow> (Some err, w2)
           | (Inr advanced, w2) \<Rightarrow>
               if advanced > last0 then SetLastProcessedBlock ex network advanced w2 else (None, w2)))"

section \<open>Per-block transaction progress and the cache\<close>

definition progressKey :: "BlockchainType \<Rightarrow> u64 \<Rightarrow> string" where
  "progressKey network blockNumber = network @ '':block_progress:'' @ FormatUint blockNumber"

definition AddProcessedTransaction ::
  "'e redis_exec \<Rightarrow> BlockchainType \<Rightarrow> u64 \<Rightarrow> string \<Rightarrow> ('e, 'f, 'm) world_scheme \<Rightarrow> error option \<times> ('e, 'f, 'm) world_scheme" where
  "AddProcessedTransaction ex network blockNumber txHash w =
     (case rcmd ex (SAdd (progressKey network blockNumber) txHash) w of (rep, w1) \<Rightarrow> (cmd_err rep, w1))"

definition GetProcessedTransactions ::
  "'e redis_exec \<Rightarrow> BlockchainType \<Rightarrow> u64 \<Rightarrow> ('e, 'f, 'm) world_scheme \<Rightarrow> string list res \<times> ('e, 'f, 'm) world_scheme" where
  "GetProcessedTransactions ex network blockNumber w =
     (case rcmd ex (SMembers (progressKey network blockNumber)) w of (rep, w1) \<Rightarrow> (list_result rep, w1))"

definition ClearBlockProgress ::
  "'e redis_exec \<Rightarrow> BlockchainType \<Rightarrow> u64 \<Rightarrow> ('e, 'f, 'm) world_scheme \<Rightarrow> error option \<times> ('e, 'f, 'm) world_scheme" where
  "ClearBlockProgress ex network blockNumber w =
     (case rcmd ex (Del (progressKey network blockNumber)) w of (rep, w1) \<Rightarrow> (cmd_err rep, w1))"

text \<open>
  The cache holds JSON text. Encoding and decoding belong to the type of the cached value: \<open>SetCache\<close>
  takes the result of \<open>json.Marshal\<close>, \<open>GetCache\<close> the function that \<open>json.Unmarshal\<close> is for the
  destination.
\<close>

definition SetCache ::
  "'e redis_exec \<Rightarrow> string \<Rightarrow> string res \<Rightarrow> duration \<Rightarrow> ('e, 'f, 'm) world_scheme \<Rightarrow> error option \<times> ('e, 'f, 'm) world_scheme" where
  "SetCache ex key marshalled ttl w =
     (case marshalled of
        Inl err \<Rightarrow> (Some (Wrap ''failed to marshal cache value'' err), w)
      | Inr data \<Rightarrow> (case rcmd ex (SetKey key data ttl) w of (rep, w1) \<Rightarrow> (cmd_err rep, w1)))"

definition GetCache ::
  "'e redis_exec \<Rightarrow> (string \<Rightarrow> 'd res) \<Rightarrow> string \<Rightarrow> ('e, 'f, 'm) world_scheme \<Rightarrow> 'd res \<times> ('e, 'f, 'm) world_scheme" where
  "GetCache ex unmarshal key w =
     (case rcmd ex (GetKey key) w of (rep, w1) \<Rightarrow>
        (case str_result rep of
           Inl err \<Rightarrow> if err = RedisNil then (Inl (ErrorString (''cache key not found: '' @ key)), w1)
                      else (Inl err, w1)
         | Inr data \<Rightarrow> (unmarshal data, w1)))"

definition DeleteCache ::
  "'e redis_exec \<Rightarrow> string \<Rightarrow> ('e, 'f, 'm) world_scheme \<Rightarrow> error option \<times> ('e, 'f, 'm) world_scheme" where
  "DeleteCache ex key w = (case rcmd ex (Del key) w of (rep, w1) \<Rightarrow> (cmd_err rep, w1))"

definition Ping :: "'e redis_exec \<Rightarrow> ('e, 'f, 'm) world_scheme \<Rightarrow> error option \<times> ('e, 'f, 'm) world_scheme" where
  "Ping ex w = (case rcmd ex PingCmd w of (rep, w1) \<Rightarrow> (cmd_err rep, w1))"

text \<open>The implementation as a value of the interface.\<close>

definition redisStorage :: "'e redis_exec \<Rightarrow> 'f bloom_lib \<Rightarrow> ('e, 'f, 'm) world_scheme Storage" where
  "redisStorage ex BL = \<lparr>
     st_AddWatchedWallet = AddWatchedWallet ex BL,
     st_RemoveWatchedWallet = RemoveWatchedWallet ex,
     st_IsWatchedWallet = IsWatchedWallet ex BL,
     st_GetWatchedWallets = GetWatchedWallets ex,
     st_SetLastProcessedBlock = SetLastProcessedBlock ex,
     st_ForceSetLastProcessedBlock = ForceSetLastProcessedBlock ex,
     st_GetLastProcessedBlock = GetLastProcessedBlock ex,
     st_IsBlockProcessed = IsBlockProcessed ex,
     st_MarkBlockProcessed = MarkBlockProcessed ex,
     st_AdvanceHighWaterMark = AdvanceHighWaterMark ex,
     st_AddProcessedTransaction = AddProcessedTransaction ex,
     st_GetProcessedTransactions = GetProcessedTransactions ex,
     st_ClearBlockProgress = ClearBlockProgress ex,
     st_SetCache = SetCache ex,
     st_GetCache = GetCache ex Inr,
     st_DeleteCache = DeleteCache ex,
     st_Ping = Ping ex\<rparr>"

lemma st_redis [simp]:
  "st_AddWatchedWallet (redisStorage ex BL) = AddWatchedWallet ex BL"
  "st_RemoveWatchedWallet (redisStorage ex BL) = RemoveWatchedWallet ex"
  "st_IsWatchedWallet (redisStorage ex BL) = IsWatchedWallet ex BL"
  "st_GetWatchedWallets (redisStorage ex BL) = GetWatchedWallets ex"
  "st_SetLastProcessedBlock (redisStorage ex BL) = SetLastProcessedBlock ex"
  "st_ForceSetLastProcessedBlock (redisStorage ex BL) = ForceSetLastProcessedBlock ex"
  "st_GetLastProcessedBlock (redisStorage ex BL) = GetLastProcessedBlock ex"
  "st_IsBlockProcessed (redisStorage ex BL) = IsBlockProcessed ex"
  "st_MarkBlockProcessed (redisStorage ex BL) = MarkBlockProcessed ex"
  "st_AdvanceHighWaterMark (redisStorage ex BL) = AdvanceHighWaterMark ex"
  "st_AddProcessedTransaction (redisStorage ex BL) = AddProcessedTransaction ex"
  "st_GetProcessedTransactions (redisStorage ex BL) = GetProcessedTransactions ex"
  "st_ClearBlockProgress (redisStorage ex BL) = ClearBlockProgress ex"
  "st_SetCache (redisStorage ex BL) = SetCache ex"
  "st_GetCache (redisStorage ex BL) = GetCache ex Inr"
  "st_DeleteCache (redisStorage ex BL) = DeleteCache ex"
  "st_Ping (redisStorage ex BL) = Ping ex"
  by (simp_all add: redisStorage_def)

section \<open>Views of the stored state\<close>

text \<open>
  What a world stores for a network, read off the keyspace \<open>view\<close> shows: the watched wallets, the
  marked blocks and the high-water mark (\<open>0\<close> when there is none).
\<close>

definition keys :: "('e \<Rightarrow> keyspace) \<Rightarrow> ('e, 'f, 'm) world_scheme \<Rightarrow> keyspace" where
  "keys view w = view (env w)"

definition watched :: "('e \<Rightarrow> keyspace) \<Rightarrow> BlockchainType \<Rightarrow> ('e, 'f, 'm) world_scheme \<Rightarrow> string \<Rightarrow> string option" where
  "watched view network w = hash_at (keys view w) (walletsKey network)"

definition marked :: "('e \<Rightarrow> keyspace) \<Rightarrow> BlockchainType \<Rightarrow> ('e, 'f, 'm) world_scheme \<Rightarrow> u64 \<Rightarrow> bool" where
  "marked view network w b \<longleftrightarrow> bitPos b \<in> bits_at (keys view w) (windowKey network b)"

definition lastStored :: "('e \<Rightarrow> keyspace) \<Rightarrow> BlockchainType \<Rightarrow> ('e, 'f, 'm) world_scheme \<Rightarrow> string option" where
  "lastStored view network w = hash_at (keys view w) lastKey network"

definition lastBlock :: "('e \<Rightarrow> keyspace) \<Rightarrow> BlockchainType \<Rightarrow> ('e, 'f, 'm) world_scheme \<Rightarrow> u64" where
  "lastBlock view network w =
     (case lastStored view network w of
        None \<Rightarrow> 0
      | Some s \<Rightarrow> (case ParseUint s of Inr n \<Rightarrow> n | Inl _ \<Rightarrow> 0))"

text \<open>The stored high-water mark, if there is one, is a decimal the program wrote.\<close>

definition last_wf :: "('e \<Rightarrow> keyspace) \<Rightarrow> BlockchainType \<Rightarrow> ('e, 'f, 'm) world_scheme \<Rightarrow> bool" where
  "last_wf view network w \<longleftrightarrow>
     (case lastStored view network w of None \<Rightarrow> True | Some s \<Rightarrow> \<exists>n. s = FormatUint n)"

text \<open>The network has a Bloom filter and the filter knows every stored wallet.\<close>

definition filter_covers ::
  "'f bloom_lib \<Rightarrow> ('e \<Rightarrow> keyspace) \<Rightarrow> BlockchainType \<Rightarrow> ('e, 'f, 'm) world_scheme \<Rightarrow> bool" where
  "filter_covers BL view network w \<longleftrightarrow>
     filters (wbloom w) network \<noteq> None \<and>
     (\<forall>a. watched view network w a \<noteq> None \<longrightarrow> MaybeContains BL network a (wbloom w))"

text \<open>
  The weaker fact that an answer of the filter is never wrong where it is used: a network without a
  filter is sound, since every lookup then goes to Redis.
\<close>

definition filter_sound ::
  "'f bloom_lib \<Rightarrow> ('e \<Rightarrow> keyspace) \<Rightarrow> BlockchainType \<Rightarrow> ('e, 'f, 'm) world_scheme \<Rightarrow> bool" where
  "filter_sound BL view network w \<longleftrightarrow>
     (\<forall>a. watched view network w a \<noteq> None \<longrightarrow> MaybeContains BL network a (wbloom w))"

lemma filter_covers_sound: "filter_covers BL view n w \<Longrightarrow> filter_sound BL view n w"
  by (simp add: filter_covers_def filter_sound_def)

section \<open>One client call\<close>

lemma rcmd_law:
  "redis_laws ex view \<Longrightarrow> rcmd ex c w = (rep, w') \<Longrightarrow>
   redis_ok c (keys view w) rep (keys view w') \<and> wbloom w' = wbloom w"
  by (auto simp: rcmd_def keys_def split: prod.splits dest: redis_lawsD)

lemma rcmd_read:
  "redis_laws ex view \<Longrightarrow> rcmd ex c w = (rep, w') \<Longrightarrow> is_read c \<Longrightarrow>
   keys view w' = keys view w \<and> wbloom w' = wbloom w"
  using redis_ok_read rcmd_law by blast

lemma rcmd_frame:
  "redis_laws ex view \<Longrightarrow> rcmd ex c w = (rep, w') \<Longrightarrow> k \<noteq> cmd_key c \<Longrightarrow>
   keys view w' k = keys view w k"
  by (rule redis_ok_frame [OF rcmd_law [THEN conjunct1]])

lemma views_cong:
  assumes "keys view w' = keys view w"
  shows "watched view n w' = watched view n w" "marked view n w' = marked view n w"
    "lastBlock view n w' = lastBlock view n w" "last_wf view n w' = last_wf view n w"
  using assms by (auto simp: watched_def marked_def lastBlock_def last_wf_def lastStored_def)

lemma hash_at_cong: "ks' k = ks k \<Longrightarrow> hash_at ks' k = hash_at ks k"
  by (simp add: hash_at_def fields_at_def)

lemma bits_at_cong: "ks' k = ks k \<Longrightarrow> bits_at ks' k = bits_at ks k"
  by (simp add: bits_at_def)

lemma last_cong:
  "keys view w' lastKey = keys view w lastKey \<Longrightarrow>
   lastBlock view n w' = lastBlock view n w \<and> last_wf view n w' = last_wf view n w"
  by (simp add: lastBlock_def last_wf_def lastStored_def cong: hash_at_cong)

lemma marked_cong:
  "(\<And>b. keys view w' (windowKey n b) = keys view w (windowKey n b)) \<Longrightarrow>
   marked view n w' = marked view n w"
  by (rule ext) (simp add: marked_def bits_at_def)

text \<open>Typed replies that can only come from a successful command.\<close>

lemma hget_ok:
  assumes "redis_ok (HGet k f) ks rep ks'"
  shows "str_result rep = Inr v \<Longrightarrow> hash_at ks k f = Some v"
    and "str_result rep = Inl RedisNil \<Longrightarrow> hash_at ks k f = None"
  using assms by (auto simp: redis_ok_def wrong_type_def split: if_splits option.splits)

lemma getbit_ok:
  "redis_ok (GetBit k i) ks rep ks' \<Longrightarrow> bit_result rep = Inr v \<Longrightarrow> v = (i \<in> bits_at ks k)"
  by (auto simp: redis_ok_def split: if_splits)

lemma hset_any:
  "redis_ok (HSet k f v) ks rep ks' \<Longrightarrow>
   hash_at ks' k = hash_at ks k \<or> hash_at ks' k = (hash_at ks k)(f \<mapsto> v)"
  by (auto simp: redis_ok_def hash_at_def fields_at_def update_conv' split: if_splits)

lemma hset_ok:
  "redis_ok (HSet k f v) ks rep ks' \<Longrightarrow> cmd_err rep = None \<Longrightarrow> hash_at ks' k = (hash_at ks k)(f \<mapsto> v)"
  by (auto simp: redis_ok_def hash_at_def fields_at_def update_conv' split: if_splits)

lemma hdel_any:
  "redis_ok (HDel k f) ks rep ks' \<Longrightarrow>
   hash_at ks' k = hash_at ks k \<or> hash_at ks' k = (hash_at ks k)(f := None)"
  by (auto simp: redis_ok_def hash_at_def fields_at_def put_hash_def simp flip: delete_conv'
      split: if_splits)

lemma hdel_ok:
  "redis_ok (HDel k f) ks rep ks' \<Longrightarrow> cmd_err rep = None \<Longrightarrow> hash_at ks' k = (hash_at ks k)(f := None)"
  by (auto simp: redis_ok_def hash_at_def fields_at_def put_hash_def simp flip: delete_conv'
      split: if_splits)

lemma setbit_any:
  "redis_ok (SetBit k i True) ks rep ks' \<Longrightarrow>
   bits_at ks' k = bits_at ks k \<or> bits_at ks' k = insert i (bits_at ks k)"
  by (auto simp: redis_ok_def bits_at_def split: if_splits)

lemma setbit_ok:
  "redis_ok (SetBit k i True) ks rep ks' \<Longrightarrow> cmd_err rep = None \<Longrightarrow>
   bits_at ks' k = insert i (bits_at ks k)"
  by (auto simp: redis_ok_def bits_at_def split: if_splits)

section \<open>Keys\<close>

lemma windowKey_inject:
  "windowKey n a = windowKey m b \<longleftrightarrow> n = m \<and> a div windowSize = b div windowSize"
  using colon_dec_inject [of "''processed_blocks:'' @ n" "unat (a div windowSize)"
      "''processed_blocks:'' @ m" "unat (b div windowSize)"]
  by (auto simp: windowKey_def FormatUint_def word_unat_eq_iff)

lemma block_slot_inject:
  "windowKey n a = windowKey n b \<Longrightarrow> bitPos a = bitPos b \<Longrightarrow> a = b"
  by (metis windowKey_inject bitPos_def word_unat_eq_iff div_mult_mod_eq)

lemma keys_distinct [simp]:
  "windowKey n b \<noteq> lastKey" "lastKey \<noteq> windowKey n b"
  "walletsKey n \<noteq> lastKey" "lastKey \<noteq> walletsKey n"
  "walletsKey n \<noteq> windowKey m b" "windowKey m b \<noteq> walletsKey n"
  by (simp_all add: windowKey_def lastKey_def walletsKey_def)

lemma blockCacheKey_neq_windowKey [simp]: "blockCacheKey n b \<noteq> windowKey n a"
proof
  assume "blockCacheKey n b = windowKey n a"
  then have "n @ '':block'' = ''processed_blocks:'' @ n"
    using colon_dec_inject [of "n @ '':block''" "unat b" "''processed_blocks:'' @ n"
        "unat (a div windowSize)"]
    by (simp add: blockCacheKey_def windowKey_def FormatUint_def)
  then have "length (n @ '':block'') = length (''processed_blocks:'' @ n)" by (rule arg_cong)
  then show False by simp
qed

lemma blockCacheKey_neq_lastKey [simp]: "blockCacheKey n b \<noteq> lastKey"
proof
  assume "blockCacheKey n b = lastKey"
  moreover have "CHR '':'' \<in> set (blockCacheKey n b)" by (simp add: blockCacheKey_def)
  ultimately show False by (simp add: lastKey_def)
qed

section \<open>Block progress: the operations meet the interface\<close>

text \<open>The representation invariant of the progress data of one network.\<close>

definition progress_inv ::
  "'e redis_exec \<Rightarrow> ('e \<Rightarrow> keyspace) \<Rightarrow> BlockchainType \<Rightarrow> ('e, 'f, 'm) world_scheme \<Rightarrow> bool" where
  "progress_inv ex view network w \<longleftrightarrow> redis_laws ex view \<and> last_wf view network w"

definition progress_same ::
  "('e \<Rightarrow> keyspace) \<Rightarrow> BlockchainType \<Rightarrow> ('e, 'f, 'm) world_scheme \<Rightarrow> ('e, 'f, 'm) world_scheme \<Rightarrow> bool" where
  "progress_same view n w w' \<longleftrightarrow>
     marked view n w' = marked view n w \<and> lastBlock view n w' = lastBlock view n w \<and>
     last_wf view n w' = last_wf view n w"

lemma progress_same_trans:
  "progress_same view n w w1 \<Longrightarrow> progress_same view n w1 w2 \<Longrightarrow> progress_same view n w w2"
  by (simp add: progress_same_def)

lemma rcmd_read_same:
  assumes "redis_laws ex view" "rcmd ex c w = (rep, w')" "is_read c"
  shows "progress_same view n w w'"
  using views_cong [OF rcmd_read [OF assms, THEN conjunct1]] unfolding progress_same_def by blast

text \<open>A command on a key that is neither the mark nor a window of the network leaves them alone.\<close>

lemma rcmd_other_key_same:
  assumes "redis_laws ex view" "rcmd ex c w = (rep, w')"
    and "cmd_key c \<noteq> lastKey" "\<And>b. cmd_key c \<noteq> windowKey n b"
  shows "progress_same view n w w'"
proof -
  have "keys view w' lastKey = keys view w lastKey"
    by (rule rcmd_frame [OF assms(1,2)]) (use assms(3) in simp)
  moreover have "keys view w' (windowKey n b) = keys view w (windowKey n b)" for b
    by (rule rcmd_frame [OF assms(1,2)]) (metis assms(4))
  ultimately show ?thesis
    unfolding progress_same_def by (intro conjI marked_cong last_cong [THEN conjunct1]
        last_cong [THEN conjunct2])
qed

lemma lastBlock_Some:
  "last_wf view n w \<Longrightarrow> lastStored view n w = Some s \<Longrightarrow> ParseUint s = Inr (lastBlock view n w)"
  by (auto simp: last_wf_def lastBlock_def)

lemma GetLast_correct:
  assumes "progress_inv ex view n w" "GetLastProcessedBlock ex n w = (r, w')"
  shows "progress_same view n w w' \<and> (\<forall>v. r = Inr v \<longrightarrow> v = lastBlock view n w)"
proof -
  obtain rep where c: "rcmd ex (HGet lastKey n) w = (rep, w')"
    using assms(2) by (auto simp: GetLastProcessedBlock_def split: prod.splits sum.splits if_splits)
  have laws: "redis_laws ex view" and wf: "last_wf view n w"
    using assms(1) by (simp_all add: progress_inv_def)
  note ok = rcmd_law [OF laws c, THEN conjunct1]
  have "v = lastBlock view n w" if "r = Inr v" for v
    using that assms(2) hget_ok [OF ok] lastBlock_Some [OF wf]
    by (auto simp: GetLastProcessedBlock_def c lastStored_def lastBlock_def
        split: sum.splits if_splits)
  with rcmd_read_same [OF laws c] show ?thesis by simp
qed

lemma IsBlockProcessed_correct:
  assumes "redis_laws ex view" "IsBlockProcessed ex n b w = (r, w')"
  shows "progress_same view n w w' \<and> (\<forall>v. r = Inr v \<longrightarrow> v = marked view n w b)"
proof -
  obtain rep where c: "rcmd ex (GetBit (windowKey n b) (bitPos b)) w = (rep, w')"
    and r: "r = bit_result rep"
    using assms(2) by (auto simp: IsBlockProcessed_def split: prod.splits)
  show ?thesis
    using rcmd_read_same [OF assms(1) c] getbit_ok [OF rcmd_law [OF assms(1) c, THEN conjunct1]] r
    by (simp add: marked_def)
qed

text \<open>Writing the high-water mark.\<close>

lemma rcmd_hset_last:
  assumes "redis_laws ex view" "rcmd ex (HSet lastKey n (FormatUint b)) w = (rep, w')"
  shows "marked view n w' = marked view n w"
    and "last_wf view n w \<Longrightarrow> last_wf view n w'"
    and "lastBlock view n w' = lastBlock view n w \<or> lastBlock view n w' = b"
    and "cmd_err rep = None \<Longrightarrow> lastBlock view n w' = b"
proof -
  note ok = rcmd_law [OF assms, THEN conjunct1]
  show "marked view n w' = marked view n w"
    by (rule marked_cong) (simp add: rcmd_frame [OF assms])
  show "last_wf view n w \<Longrightarrow> last_wf view n w'"
    and "lastBlock view n w' = lastBlock view n w \<or> lastBlock view n w' = b"
    using hset_any [OF ok] by (auto simp: last_wf_def lastBlock_def lastStored_def)
  show "cmd_err rep = None \<Longrightarrow> lastBlock view n w' = b"
    using hset_ok [OF ok] by (simp add: lastBlock_def lastStored_def)
qed

lemma ForceSet_correct:
  assumes "progress_inv ex view n w" "ForceSetLastProcessedBlock ex n b w = (r, w')"
  shows "progress_inv ex view n w' \<and> marked view n w' = marked view n w \<and>
    (lastBlock view n w' = lastBlock view n w \<or> lastBlock view n w' = b) \<and>
    (r = None \<longrightarrow> lastBlock view n w' = b)"
proof -
  obtain rep where c: "rcmd ex (HSet lastKey n (FormatUint b)) w = (rep, w')" and r: "r = cmd_err rep"
    using assms(2) by (auto simp: ForceSetLastProcessedBlock_def split: prod.splits)
  have laws: "redis_laws ex view" and wf: "last_wf view n w"
    using assms(1) by (simp_all add: progress_inv_def)
  show ?thesis using rcmd_hset_last [OF laws c] wf laws r by (simp add: progress_inv_def)
qed

lemma SetLast_correct:
  assumes "progress_inv ex view n w" "SetLastProcessedBlock ex n b w = (r, w')"
  shows "progress_inv ex view n w' \<and> marked view n w' = marked view n w \<and>
    (lastBlock view n w' = lastBlock view n w \<or> lastBlock view n w' = max (lastBlock view n w) b) \<and>
    (r = None \<longrightarrow> lastBlock view n w' = max (lastBlock view n w) b)"
proof -
  obtain rep w1 where c: "rcmd ex (HGet lastKey n) w = (rep, w1)" by (cases "rcmd ex (HGet lastKey n) w")
  obtain rep' w2 where c': "rcmd ex (HSet lastKey n (FormatUint b)) w1 = (rep', w2)"
    by (cases "rcmd ex (HSet lastKey n (FormatUint b)) w1")
  have laws: "redis_laws ex view" and wf: "last_wf view n w"
    using assms(1) by (simp_all add: progress_inv_def)
  note same = rcmd_read_same [OF laws c, of n, unfolded progress_same_def, simplified]
  note ok = hget_ok [OF rcmd_law [OF laws c, THEN conjunct1]]
  note wr = rcmd_hset_last [OF laws c']
  show ?thesis
  proof (cases "str_result rep")
    case (Inl err)
    show ?thesis
    proof (cases "err = RedisNil")
      case True
      then have "lastBlock view n w = 0" using ok(2) Inl by (simp add: lastBlock_def lastStored_def)
      with True Inl assms(2) c c' show ?thesis
        using wr same wf laws by (auto simp: SetLastProcessedBlock_def progress_inv_def max_def)
    next
      case False
      with Inl assms(2) c show ?thesis
        using same wf laws by (auto simp: SetLastProcessedBlock_def progress_inv_def)
    qed
  next
    case (Inr curStr)
    then have "ParseUint curStr = Inr (lastBlock view n w)"
      using ok(1) lastBlock_Some [OF wf] by (simp add: lastStored_def)
    with Inr assms(2) c c' show ?thesis
      using wr same wf laws
      by (auto simp: SetLastProcessedBlock_def progress_inv_def max_def split: if_splits)
  qed
qed

lemma Mark_correct:
  assumes "progress_inv ex view n w" "MarkBlockProcessed ex n b w = (r, w')"
  shows "progress_inv ex view n w' \<and> lastBlock view n w' = lastBlock view n w \<and>
    (marked view n w' = marked view n w \<or> marked view n w' = (marked view n w)(b := True)) \<and>
    (r = None \<longrightarrow> marked view n w' b)"
proof -
  obtain rep w1 where c: "rcmd ex (SetBit (windowKey n b) (bitPos b) True) w = (rep, w1)"
    by (cases "rcmd ex (SetBit (windowKey n b) (bitPos b) True) w")
  have laws: "redis_laws ex view" and wf: "last_wf view n w"
    using assms(1) by (simp_all add: progress_inv_def)
  note ok = rcmd_law [OF laws c, THEN conjunct1]
  have l: "lastBlock view n w1 = lastBlock view n w \<and> last_wf view n w1 = last_wf view n w"
    by (rule last_cong) (simp add: rcmd_frame [OF laws c])
  have fr: "bits_at (keys view w1) (windowKey n a) = bits_at (keys view w) (windowKey n a)"
    if "windowKey n a \<noteq> windowKey n b" for a
    by (rule bits_at_cong) (simp add: rcmd_frame [OF laws c] that)
  have m: "marked view n w1 = marked view n w \<or> marked view n w1 = (marked view n w)(b := True)"
  proof (cases "bits_at (keys view w1) (windowKey n b) = bits_at (keys view w) (windowKey n b)")
    case True
    then have "marked view n w1 = marked view n w"
      unfolding marked_def by (metis fr)
    then show ?thesis ..
  next
    case False
    with setbit_any [OF ok]
    have "bits_at (keys view w1) (windowKey n b) = insert (bitPos b) (bits_at (keys view w) (windowKey n b))"
      by simp
    then have "marked view n w1 a = ((marked view n w)(b := True)) a" for a
      using fr [of a] block_slot_inject [of n a b]
      by (cases "windowKey n a = windowKey n b") (auto simp: marked_def)
    then show ?thesis by blast
  qed
  have s: "progress_same view n w1 w'" and "r = None \<Longrightarrow> marked view n w1 b"
    using assms(2) c setbit_ok [OF ok] rcmd_read_same [OF laws, of "Expire _ _" w1 _ w' n]
    by (auto simp: MarkBlockProcessed_def marked_def progress_same_def
        split: prod.splits option.splits)
  then show ?thesis using l m wf laws by (auto simp: progress_inv_def progress_same_def)
qed

text \<open>
  The walk: it reads only, every block it passes is marked, and it stops in front of a block that
  is not marked unless it has passed more than 10000 blocks.
\<close>

lemma advanceWalk_correct:
  assumes "redis_laws ex view" "advanceWalk ex n l a w = (r, w')" "unat (a - l) \<le> 10000"
  shows "progress_same view n w w' \<and>
    (\<forall>v. r = Inr v \<longrightarrow> unat (a - l) \<le> unat (v - l) \<and> unat (v - l) \<le> 10001 \<and>
       (\<forall>i. unat (a - l) < i \<and> i \<le> unat (v - l) \<longrightarrow> marked view n w (l + of_nat i)) \<and>
       (unat (v - l) \<le> 10000 \<longrightarrow> \<not> marked view n w (v + 1)))"
  using assms
proof (induction ex n l a w rule: advanceWalk.induct)
  case (1 ex n l a w)
  obtain rep w1 where c: "rcmd ex (GetBit (windowKey n (a + 1)) (bitPos (a + 1))) w = (rep, w1)"
    by (cases "rcmd ex (GetBit (windowKey n (a + 1)) (bitPos (a + 1))) w")
  note laws = "1.prems"(1) and small = "1.prems"(3)
  have same: "progress_same view n w w1" by (rule rcmd_read_same [OF laws c]) simp
  note ok = getbit_ok [OF rcmd_law [OF laws c, THEN conjunct1]]
  have step: "unat (a + 1 - l) = Suc (unat (a - l))"
    using small unat_plus_one_u64 [of "a - l"] by (simp add: algebra_simps)
  have nxt: "l + of_nat (Suc (unat (a - l))) = a + 1" by simp
  note eq = "1.prems"(2) [unfolded advanceWalk.simps [of ex n l a w] Let_def c prod.case]
  show ?case
  proof (cases "bit_result rep")
    case (Inl err)
    then show ?thesis using eq same by auto
  next
    case (Inr v)
    then have v: "v = marked view n w (a + 1)" using ok by (simp add: marked_def)
    consider (stop) "\<not> v" | (cut) "v" "a + 1 - l > 10000" | (go) "v" "\<not> a + 1 - l > 10000" by blast
    then show ?thesis
    proof cases
      case stop
      then show ?thesis using eq same Inr v small by auto
    next
      case cut
      then have "unat (a + 1 - l) = 10001" using step small by (simp add: word_less_nat_alt)
      moreover from cut Inr eq have "r = Inr (a + 1)" "w' = w1" by simp_all
      moreover have "marked view n w (l + of_nat i)" if "unat (a - l) < i" "i \<le> unat (a + 1 - l)" for i
        using that step v cut nxt by (metis Suc_leI le_antisym)
      ultimately show ?thesis using same step by auto
    next
      case go
      then have "unat (a + 1 - l) \<le> 10000" by (simp add: word_less_nat_alt)
      moreover from go Inr eq have "advanceWalk ex n l (a + 1) w1 = (r, w')" by simp
      ultimately have ih: "progress_same view n w1 w' \<and>
        (\<forall>v. r = Inr v \<longrightarrow> unat (a + 1 - l) \<le> unat (v - l) \<and> unat (v - l) \<le> 10001 \<and>
          (\<forall>i. unat (a + 1 - l) < i \<and> i \<le> unat (v - l) \<longrightarrow> marked view n w1 (l + of_nat i)) \<and>
          (unat (v - l) \<le> 10000 \<longrightarrow> \<not> marked view n w1 (v + 1)))"
        using "1.IH" [OF refl c [symmetric] Inr] go laws by simp
      have m: "marked view n w1 = marked view n w" using same by (simp add: progress_same_def)
      have "marked view n w (l + of_nat i)"
        if "unat (a - l) < i" "i \<le> unat (v' - l)" "r = Inr v'" for i v'
        using that ih m step nxt v go by (metis Suc_lessI)
      with ih m step same show ?thesis by (auto intro: progress_same_trans)
    qed
  qed
qed

text \<open>Blocks between two heights, as offsets from the lower one.\<close>

lemma u64_between_offset:
  fixes l v b :: u64
  assumes "l < b" "b \<le> v"
  shows "0 < unat (b - l)" "unat (b - l) \<le> unat (v - l)" "b = l + of_nat (unat (b - l))"
proof -
  show "b = l + of_nat (unat (b - l))" by simp
  have "unat l < unat b" "unat b \<le> unat v"
    using assms by (simp_all add: word_less_nat_alt word_le_nat_alt)
  moreover have "unat (b - l) = unat b - unat l" "unat (v - l) = unat v - unat l"
    using assms by (auto intro!: unat_sub)
  ultimately show "0 < unat (b - l)" "unat (b - l) \<le> unat (v - l)" by simp_all
qed

lemma Advance_correct:
  assumes "progress_inv ex view n w" "AdvanceHighWaterMark ex n w = (r, w')"
  shows "progress_inv ex view n w' \<and> marked view n w' = marked view n w \<and>
    lastBlock view n w \<le> lastBlock view n w' \<and>
    (\<forall>b. lastBlock view n w < b \<and> b \<le> lastBlock view n w' \<longrightarrow> marked view n w b)"
proof -
  have laws: "redis_laws ex view" using assms(1) by (simp add: progress_inv_def)
  obtain r1 w1 where g: "GetLastProcessedBlock ex n w = (r1, w1)"
    by (cases "GetLastProcessedBlock ex n w")
  note G = GetLast_correct [OF assms(1) g]
  show ?thesis
  proof (cases r1)
    case (Inl err)
    then show ?thesis using assms g G by (auto simp: AdvanceHighWaterMark_def progress_same_def progress_inv_def)
  next
    case (Inr l)
    obtain r2 w2 where a: "advanceWalk ex n l l w1 = (r2, w2)" by (cases "advanceWalk ex n l l w1")
    note A = advanceWalk_correct [OF laws a, simplified]
    have l: "l = lastBlock view n w" using G Inr by simp
    have s12: "progress_same view n w w2" using G A progress_same_trans by blast
    then have i2: "progress_inv ex view n w2"
      using assms(1) by (simp add: progress_inv_def progress_same_def)
    show ?thesis
    proof (cases "\<exists>v. r2 = Inr v \<and> v > l")
      case False
      then show ?thesis using assms(2) g Inr a s12 i2
        by (auto simp: AdvanceHighWaterMark_def progress_same_def split: sum.splits)
    next
      case True
      then obtain v where v: "r2 = Inr v" "v > l" by blast
      then have st: "SetLastProcessedBlock ex n v w2 = (r, w')"
        using assms(2) g Inr a by (simp add: AdvanceHighWaterMark_def)
      have "marked view n w b" if "l < b" "b \<le> v" for b
        using u64_between_offset [OF that] A v(1) G by (metis progress_same_def)
      then show ?thesis
        using SetLast_correct [OF i2 st] s12 l v(2)
        by (auto simp: progress_same_def max_def split: if_splits)
    qed
  qed
qed

interpretation rs: progress_store "redisStorage ex BL" network "progress_inv ex view network"
    "marked view network" "lastBlock view network" for ex BL view network
proof unfold_locales
  fix w :: "('a, 'b, 'c) world_scheme" and b rb rn w' eo vb vn
  assume I: "progress_inv ex view network w"
  then have laws: "redis_laws ex view" by (simp add: progress_inv_def)
  show "st_IsBlockProcessed (redisStorage ex BL) network b w = (rb, w') \<Longrightarrow>
      progress_inv ex view network w' \<and> marked view network w' = marked view network w \<and>
      lastBlock view network w' = lastBlock view network w"
    unfolding st_redis by (drule IsBlockProcessed_correct [OF laws, of network b w])
      (use I in \<open>simp add: progress_inv_def progress_same_def\<close>)
  show "st_IsBlockProcessed (redisStorage ex BL) network b w = (Inr vb, w') \<Longrightarrow> vb = marked view network w b"
    unfolding st_redis by (drule IsBlockProcessed_correct [OF laws, of network b w]) simp
  show "st_GetLastProcessedBlock (redisStorage ex BL) network w = (rn, w') \<Longrightarrow>
      progress_inv ex view network w' \<and> marked view network w' = marked view network w \<and>
      lastBlock view network w' = lastBlock view network w"
    unfolding st_redis by (drule GetLast_correct [OF I])
      (use I in \<open>simp add: progress_inv_def progress_same_def\<close>)
  show "st_GetLastProcessedBlock (redisStorage ex BL) network w = (Inr vn, w') \<Longrightarrow>
      vn = lastBlock view network w"
    unfolding st_redis by (drule GetLast_correct [OF I]) simp
  show "st_DeleteCache (redisStorage ex BL) (blockCacheKey network b) w = (eo, w') \<Longrightarrow>
      progress_inv ex view network w' \<and> marked view network w' = marked view network w \<and>
      lastBlock view network w' = lastBlock view network w"
    using rcmd_other_key_same [OF laws, of "Del (blockCacheKey network b)" w _ w' network] I
    by (auto simp: st_redis DeleteCache_def progress_inv_def progress_same_def split: prod.splits)
  show "st_MarkBlockProcessed (redisStorage ex BL) network b w = (eo, w') \<Longrightarrow>
      progress_inv ex view network w' \<and> lastBlock view network w' = lastBlock view network w \<and>
      (marked view network w' = marked view network w \<or>
       marked view network w' = (marked view network w)(b := True))"
    unfolding st_redis by (drule Mark_correct [OF I]) blast
  show "st_MarkBlockProcessed (redisStorage ex BL) network b w = (None, w') \<Longrightarrow> marked view network w' b"
    unfolding st_redis by (drule Mark_correct [OF I]) blast
  show "st_SetLastProcessedBlock (redisStorage ex BL) network b w = (eo, w') \<Longrightarrow>
      progress_inv ex view network w' \<and> marked view network w' = marked view network w \<and>
      (lastBlock view network w' = lastBlock view network w \<or>
       lastBlock view network w' = max (lastBlock view network w) b)"
    unfolding st_redis by (drule SetLast_correct [OF I]) blast
  show "st_SetLastProcessedBlock (redisStorage ex BL) network b w = (None, w') \<Longrightarrow>
      lastBlock view network w' = max (lastBlock view network w) b"
    unfolding st_redis by (drule SetLast_correct [OF I]) blast
  show "st_ForceSetLastProcessedBlock (redisStorage ex BL) network b w = (eo, w') \<Longrightarrow>
      progress_inv ex view network w' \<and> marked view network w' = marked view network w \<and>
      (lastBlock view network w' = lastBlock view network w \<or> lastBlock view network w' = b)"
    unfolding st_redis by (drule ForceSet_correct [OF I]) blast
  show "st_ForceSetLastProcessedBlock (redisStorage ex BL) network b w = (None, w') \<Longrightarrow>
      lastBlock view network w' = b"
    unfolding st_redis by (drule ForceSet_correct [OF I]) blast
  show "st_AdvanceHighWaterMark (redisStorage ex BL) network w = (eo, w') \<Longrightarrow>
      progress_inv ex view network w' \<and> marked view network w' = marked view network w \<and>
      lastBlock view network w \<le> lastBlock view network w' \<and>
      (\<forall>b. lastBlock view network w < b \<and> b \<le> lastBlock view network w' \<longrightarrow> marked view network w b)"
    unfolding st_redis by (drule Advance_correct [OF I]) blast
qed

section \<open>Watched wallets: the operations meet the interface\<close>

definition wallet_inv ::
  "'e redis_exec \<Rightarrow> 'f bloom_lib \<Rightarrow> ('e \<Rightarrow> keyspace) \<Rightarrow> BlockchainType \<Rightarrow> ('e, 'f, 'm) world_scheme \<Rightarrow> bool" where
  "wallet_inv ex BL view network w \<longleftrightarrow>
     redis_laws ex view \<and> bloom_laws BL \<and> filter_covers BL view network w"

lemma IsWatched_correct:
  assumes "redis_laws ex view" "filter_sound BL view n w" "IsWatchedWallet ex BL n a w = (r, w')"
  shows "keys view w' = keys view w \<and> wbloom w' = wbloom w \<and>
    (\<forall>v. r = Inr v \<longrightarrow> v = (case watched view n w a of None \<Rightarrow> ('''', False) | Some i \<Rightarrow> (i, True)))"
proof (cases "MaybeContains BL n a (wbloom w)")
  case False
  then have "watched view n w a = None"
    using assms(2) by (auto simp: filter_sound_def)
  with False assms(3) show ?thesis by (auto simp: IsWatchedWallet_def)
next
  case True
  note laws = assms(1)
  obtain rep w1 where c: "rcmd ex (HGet (walletsKey n) a) w = (rep, w1)"
    by (cases "rcmd ex (HGet (walletsKey n) a) w")
  have "w' = w1" using assms(3) c True
    by (auto simp: IsWatchedWallet_def split: sum.splits if_splits)
  with rcmd_read [OF laws c] hget_ok [OF rcmd_law [OF laws c, THEN conjunct1]] assms(3) c True
  show ?thesis
    by (auto simp: IsWatchedWallet_def watched_def split: sum.splits if_splits)
qed

lemma AddWatched_correct:
  assumes "wallet_inv ex BL view n w" "AddWatchedWallet ex BL n a i w = (None, w')"
  shows "wallet_inv ex BL view n w' \<and> watched view n w' = (watched view n w)(a \<mapsto> i)"
proof -
  have laws: "redis_laws ex view" "bloom_laws BL" using assms(1) by (simp_all add: wallet_inv_def)
  obtain rep w1 where c: "rcmd ex (HSet (walletsKey n) a i) w = (rep, w1)"
    by (cases "rcmd ex (HSet (walletsKey n) a i) w")
  have e: "cmd_err rep = None" and w': "w' = w1\<lparr>wbloom := bloom_Add BL n a (wbloom w1)\<rparr>"
    using assms(2) c by (auto simp: AddWatchedWallet_def split: option.splits)
  have k: "keys view w' = keys view w1" by (simp add: keys_def w')
  have W: "watched view n w' = (watched view n w)(a \<mapsto> i)"
    using hset_ok [OF rcmd_law [OF laws(1) c, THEN conjunct1] e] by (simp add: watched_def k)
  have "wbloom w1 = wbloom w" using rcmd_law [OF laws(1) c] by simp
  then have "filter_covers BL view n w'"
    using assms(1) W laws(2) unfolding filter_covers_def wallet_inv_def w'
    by (auto intro: MaybeContains_Add_mono)
  with W laws show ?thesis by (simp add: wallet_inv_def)
qed

lemma RemoveWatched_correct:
  assumes "wallet_inv ex BL view n w" "RemoveWatchedWallet ex n a w = (r, w')"
  shows "wallet_inv ex BL view n w' \<and>
    (watched view n w' = watched view n w \<or> watched view n w' = (watched view n w)(a := None)) \<and>
    (r = None \<longrightarrow> watched view n w' = (watched view n w)(a := None))"
proof -
  have laws: "redis_laws ex view" "bloom_laws BL" using assms(1) by (simp_all add: wallet_inv_def)
  obtain rep where c: "rcmd ex (HDel (walletsKey n) a) w = (rep, w')" and r: "r = cmd_err rep"
    using assms(2) by (auto simp: RemoveWatchedWallet_def split: prod.splits)
  note ok = rcmd_law [OF laws(1) c]
  from ok have W: "watched view n w' = watched view n w \<or> watched view n w' = (watched view n w)(a := None)"
    "r = None \<longrightarrow> watched view n w' = (watched view n w)(a := None)"
    using hdel_any [OF ok [THEN conjunct1]] hdel_ok [OF ok [THEN conjunct1]] r
    by (simp_all add: watched_def)
  moreover have "filter_covers BL view n w'"
    using W(1) ok assms(1) by (auto simp: filter_covers_def wallet_inv_def split: if_splits)
  ultimately show ?thesis using laws by (simp add: wallet_inv_def)
qed

interpretation ws: wallet_store "redisStorage ex BL" network "wallet_inv ex BL view network"
    "watched view network" for ex BL view network
proof unfold_locales
  fix w :: "('a, 'b, 'c) world_scheme" and a i r w' v eo
  assume I: "wallet_inv ex BL view network w"
  then have S: "redis_laws ex view" "filter_sound BL view network w"
    by (simp_all add: wallet_inv_def filter_covers_sound)
  show "st_IsWatchedWallet (redisStorage ex BL) network a w = (r, w') \<Longrightarrow>
      wallet_inv ex BL view network w' \<and> watched view network w' = watched view network w"
    unfolding st_redis using I
    by (auto dest!: IsWatched_correct [OF S] simp: wallet_inv_def filter_covers_def watched_def)
  show "st_IsWatchedWallet (redisStorage ex BL) network a w = (Inr v, w') \<Longrightarrow>
      v = (case watched view network w a of None \<Rightarrow> ('''', False) | Some i \<Rightarrow> (i, True))"
    unfolding st_redis by (drule IsWatched_correct [OF S]) simp
  show "st_AddWatchedWallet (redisStorage ex BL) network a i w = (None, w') \<Longrightarrow>
      wallet_inv ex BL view network w' \<and> watched view network w' = (watched view network w)(a \<mapsto> i)"
    unfolding st_redis by (rule AddWatched_correct [OF I])
  show "st_RemoveWatchedWallet (redisStorage ex BL) network a w = (eo, w') \<Longrightarrow>
      wallet_inv ex BL view network w' \<and>
      (watched view network w' = watched view network w \<or>
       watched view network w' = (watched view network w)(a := None))"
    unfolding st_redis by (drule RemoveWatched_correct [OF I]) blast
  show "st_RemoveWatchedWallet (redisStorage ex BL) network a w = (None, w') \<Longrightarrow>
      watched view network w' = (watched view network w)(a := None)"
    unfolding st_redis by (drule RemoveWatched_correct [OF I]) blast
qed

text \<open>
  Filling the filters: whatever fails on the way, every filter that is installed knows the stored
  wallets of its network, and without a failure every listed network has one.
\<close>

lemma seedGet_ok:
  assumes "redis_laws ex view" "seedGet ex n e = (r, e')"
  shows "view e' = view e \<and>
    (\<forall>m. r = Inr m \<longrightarrow> (\<forall>a. hash_at (view e) (walletsKey n) a \<noteq> None \<longrightarrow> a \<in> fst ` set m))"
proof -
  obtain rep where c: "ex (HGetAll (walletsKey n)) e = (rep, e')" and r: "r = map_result rep"
    using assms(2) by (auto simp: seedGet_def split: prod.splits)
  note ok = redis_lawsD [OF assms(1) c]
  have "a \<in> fst ` set m" if "r = Inr m" "hash_at (view e) (walletsKey n) a \<noteq> None" for m a
  proof -
    have "map_of m = hash_at (view e) (walletsKey n)"
      using ok r that(1) by (auto simp: redis_ok_def split: if_splits)
    with that(2) show ?thesis by (metis map_of_eq_None_iff)
  qed
  with redis_ok_read [OF _ ok] show ?thesis by simp
qed

definition covers_keys :: "'f bloom_lib \<Rightarrow> keyspace \<Rightarrow> BlockchainType \<Rightarrow> 'f WalletBloom \<Rightarrow> bool" where
  "covers_keys BL ks n wb \<longleftrightarrow>
     (\<forall>a. hash_at ks (walletsKey n) a \<noteq> None \<longrightarrow> MaybeContains BL n a wb)"

lemma covers_keys_world: "filter_sound BL view n w = covers_keys BL (keys view w) n (wbloom w)"
  by (simp add: filter_sound_def covers_keys_def watched_def)

lemma Refresh_seed:
  assumes "redis_laws ex view" "bloom_laws BL" "Refresh BL (seedGet ex) m (wb, e) = (r, (wb1, e1))"
  shows "view e1 = view e \<and>
    (covers_keys BL (view e) n wb \<longrightarrow> covers_keys BL (view e) n wb1) \<and>
    (filters wb n \<noteq> None \<or> (n = m \<and> r = None) \<longrightarrow> filters wb1 n \<noteq> None)"
proof -
  obtain g e' where g: "seedGet ex m e = (g, e')" by (cases "seedGet ex m e")
  note G = seedGet_ok [OF assms(1) g]
  have "view e1 = view e"
    using G assms(3) g by (auto simp: Refresh_def Let_def split: sum.splits)
  moreover have "filters wb n \<noteq> None \<or> (n = m \<and> r = None) \<longrightarrow> filters wb1 n \<noteq> None"
    using assms(3) g by (auto simp: Refresh_def Let_def split: sum.splits)
  moreover have "covers_keys BL (view e) n wb1" if sound: "covers_keys BL (view e) n wb"
  proof (cases "n = m \<and> (\<exists>al. g = Inr al)")
    case True
    then show ?thesis unfolding covers_keys_def
      using Refresh_covers [where get = "seedGet ex", OF assms(2) _ _ assms(3)] g G by blast
  next
    case False
    then have "filters wb1 n = filters wb n"
      using assms(3) g by (auto simp: Refresh_def Let_def split: sum.splits)
    then show ?thesis using sound by (simp add: MaybeContains_def covers_keys_def)
  qed
  ultimately show ?thesis by blast
qed

lemma SeedAll_sound:
  assumes "redis_laws ex view" "bloom_laws BL" "SeedAll BL (seedGet ex) ns (wb, e) = (r, (wb', e'))"
  shows "view e' = view e \<and>
    (covers_keys BL (view e) n wb \<longrightarrow> covers_keys BL (view e) n wb') \<and>
    (r = None \<and> (filters wb n \<noteq> None \<or> n \<in> set ns) \<longrightarrow> filters wb' n \<noteq> None)"
  using assms(3)
proof (induction ns arbitrary: wb e)
  case Nil
  then show ?case by auto
next
  case (Cons m ns)
  obtain r1 wb1 e1 where R: "Refresh BL (seedGet ex) m (wb, e) = (r1, (wb1, e1))"
    by (cases "Refresh BL (seedGet ex) m (wb, e)") auto
  note F = Refresh_seed [OF assms(1,2) R, of n]
  show ?case
  proof (cases r1)
    case None
    then have "SeedAll BL (seedGet ex) ns (wb1, e1) = (r, (wb', e'))" using Cons.prems R by simp
    from Cons.IH [OF this] F None show ?thesis by auto
  next
    case (Some err)
    then show ?thesis using F Cons.prems R by auto
  qed
qed

section \<open>Properties of the storage layer\<close>

text \<open>A storage state for the examples: an in-memory server with two processed blocks after 41.\<close>

definition demo_world :: "(mem_server, string list) world" where
  "demo_world = \<lparr>
     env = \<lparr>msKeys = [lastKey \<mapsto> VHash [(''ETH'', ''41'')],
        windowKey ''ETH'' 42 \<mapsto> VBits {42, 43, 45},
        walletsKey ''ETH'' \<mapsto> VHash [(''0xaa'', ''alice'')]], msFail = []\<rparr>,
     wbloom = \<lparr>filters = [''ETH'' \<mapsto> [''0xaa'']], falsePos = 1 / 1000, minCapacity = 1000\<rparr>\<rparr>"

lemma ParseUint_41: "ParseUint ''41'' = Inr 41"
  by (simp add: ParseUint_def isDigit_def)

lemma FormatUint_41: "''41'' = FormatUint 41"
  by code_simp

lemma demo_world_inv:
  "progress_inv mem_exec msKeys ''ETH'' demo_world"
  "wallet_inv mem_exec exact_bloom msKeys ''ETH'' demo_world"
proof -
  show "progress_inv mem_exec msKeys ''ETH'' demo_world"
    using FormatUint_41
    by (auto simp: progress_inv_def mem_exec_laws last_wf_def lastStored_def keys_def demo_world_def
        hash_at_def fields_at_def)
  show "wallet_inv mem_exec exact_bloom msKeys ''ETH'' demo_world"
    by (auto simp: wallet_inv_def mem_exec_laws exact_bloom_laws filter_covers_def watched_def
        keys_def demo_world_def hash_at_def fields_at_def MaybeContains_def
        split: if_splits)
qed

text \<open>
  C4: Advancing the high-water mark is exact. A successful call moves the stored mark from \<open>l\<close> to
  \<open>l + k\<close>, where the blocks \<open>l + 1 .. l + k\<close> are all marked as processed, block \<open>l + k + 1\<close> is not
  (unless the limit of 10001 blocks per call was reached), and the marks themselves are untouched.
\<close>

theorem hwm_advance_exact:
  assumes "progress_inv ex view n w" "AdvanceHighWaterMark ex n w = (None, w')"
    and "unat (lastBlock view n w) + 10001 < 2 ^ 64"
  shows "\<exists>k \<le> 10001. lastBlock view n w' = lastBlock view n w + of_nat k \<and>
    (\<forall>i. 0 < i \<and> i \<le> k \<longrightarrow> marked view n w (lastBlock view n w + of_nat i)) \<and>
    (k < 10001 \<longrightarrow> \<not> marked view n w (lastBlock view n w + of_nat (Suc k))) \<and>
    marked view n w' = marked view n w"
proof -
  obtain l w1 where g: "GetLastProcessedBlock ex n w = (Inr l, w1)"
    using assms(2) by (auto simp: AdvanceHighWaterMark_def split: prod.splits sum.splits)
  obtain v w2 where a: "advanceWalk ex n l l w1 = (Inr v, w2)"
    using assms(2) g by (auto simp: AdvanceHighWaterMark_def split: prod.splits sum.splits)
  note G = GetLast_correct [OF assms(1) g]
  have laws: "redis_laws ex view" using assms(1) by (simp add: progress_inv_def)
  note A = advanceWalk_correct [OF laws a, simplified]
  have m1: "marked view n w1 = marked view n w" and l: "l = lastBlock view n w"
    using G by (simp_all add: progress_same_def)
  have s: "progress_same view n w w2" using G A progress_same_trans by blast
  then have i2: "progress_inv ex view n w2"
    using assms(1) by (simp add: progress_inv_def progress_same_def)
  define k where "k = unat (v - l)"
  have v: "v = l + of_nat k" by (simp add: k_def)
  have "k \<le> 10001" using A by (simp add: k_def)
  then have vl: "unat v = unat l + k"
    using assms(3) l v by (simp add: unat_word_ariths unsigned_of_nat take_bit_nat_eq_self)
  have "lastBlock view n w' = v"
  proof (cases "v > l")
    case True
    then have "SetLastProcessedBlock ex n v w2 = (None, w')"
      using assms(2) g a by (simp add: AdvanceHighWaterMark_def)
    from SetLast_correct [OF i2 this] True s l show ?thesis
      by (simp add: progress_same_def max_def less_imp_le)
  next
    case False
    then have "v = l" using vl by (simp add: word_less_nat_alt word_unat_eq_iff)
    with False assms(2) g a s l show ?thesis
      by (simp add: AdvanceHighWaterMark_def progress_same_def)
  qed
  moreover have "marked view n w' = marked view n w"
    using Advance_correct [OF assms(1,2)] by blast
  moreover have "v + 1 = l + of_nat (Suc k)" using v by (simp add: algebra_simps)
  ultimately show ?thesis
    using A m1 l v \<open>k \<le> 10001\<close> unfolding k_def [symmetric]
    by (intro exI [of _ k]) (auto simp: ac_simps)
qed

lemma demo_advance: "fst (AdvanceHighWaterMark mem_exec ''ETH'' demo_world) = None"
  by code_simp

lemma demo_last: "lastBlock msKeys ''ETH'' demo_world = 41"
  by code_simp

theorem hwm_advance_exact_witness:
  "\<exists>k \<le> 10001. lastBlock msKeys ''ETH'' (snd (AdvanceHighWaterMark mem_exec ''ETH'' demo_world)) = 41 + of_nat k
     \<and> (\<forall>i. 0 < i \<and> i \<le> k \<longrightarrow> marked msKeys ''ETH'' demo_world (41 + of_nat i))
     \<and> (k < 10001 \<longrightarrow> \<not> marked msKeys ''ETH'' demo_world (41 + of_nat (Suc k)))"
  using hwm_advance_exact [OF demo_world_inv(1) pair_fst [OF demo_advance]]
  unfolding demo_last by auto

text \<open>
  C5: Marking a block and asking for it agree, and marking one block says nothing about any other:
  after a successful mark of \<open>b\<close>, a successful query for \<open>a\<close> answers whether \<open>a = b\<close> or \<open>a\<close> was
  marked before.
\<close>

theorem mark_then_query:
  assumes "progress_inv ex view n w" "MarkBlockProcessed ex n b w = (None, w1)"
    and "IsBlockProcessed ex n a w1 = (Inr v, w2)"
  shows "v \<longleftrightarrow> a = b \<or> marked view n w a"
proof -
  have "redis_laws ex view" using assms(1) by (simp add: progress_inv_def)
  from IsBlockProcessed_correct [OF this assms(3)] Mark_correct [OF assms(1,2)]
  show ?thesis by (auto split: if_splits)
qed

theorem mark_then_query_witness:
  "(case MarkBlockProcessed mem_exec ''ETH'' 50 demo_world of (r, w1) \<Rightarrow>
      r = None \<and> fst (IsBlockProcessed mem_exec ''ETH'' 42 w1) = Inr True)
   \<and> marked msKeys ''ETH'' demo_world 42"
proof -
  define w1 where "w1 = snd (MarkBlockProcessed mem_exec ''ETH'' 50 demo_world)"
  have m: "fst (MarkBlockProcessed mem_exec ''ETH'' 50 demo_world) = None"
    and q: "fst (IsBlockProcessed mem_exec ''ETH'' 42 w1) = Inr True"
    unfolding w1_def by code_simp+
  have "marked msKeys ''ETH'' demo_world 42"
    using mark_then_query [OF demo_world_inv(1) pair_fst [OF m, folded w1_def] pair_fst [OF q]] by simp
  with m q show ?thesis by (simp add: w1_def case_prod_beta)
qed

text \<open>
  C6: The last processed block round-trips through its decimal text and never moves backwards: after
  a successful \<open>SetLastProcessedBlock b\<close>, reading it returns the maximum of \<open>b\<close> and the old value.
\<close>

theorem set_then_get_last:
  assumes "progress_inv ex view n w" "SetLastProcessedBlock ex n b w = (None, w1)"
    and "GetLastProcessedBlock ex n w1 = (Inr v, w2)"
  shows "v = max (lastBlock view n w) b"
proof -
  from SetLast_correct [OF assms(1,2)]
  have "progress_inv ex view n w1" "lastBlock view n w1 = max (lastBlock view n w) b" by auto
  with GetLast_correct [OF _ assms(3)] show ?thesis by auto
qed

theorem set_then_get_last_witness:
  "fst (GetLastProcessedBlock mem_exec ''ETH'' (snd (SetLastProcessedBlock mem_exec ''ETH'' 40 demo_world)))
     = Inr (max (lastBlock msKeys ''ETH'' demo_world) 40)"
proof -
  define w1 where "w1 = snd (SetLastProcessedBlock mem_exec ''ETH'' 40 demo_world)"
  have m: "fst (SetLastProcessedBlock mem_exec ''ETH'' 40 demo_world) = None"
    and q: "fst (GetLastProcessedBlock mem_exec ''ETH'' w1) = Inr 41"
    unfolding w1_def by code_simp+
  show ?thesis
    using set_then_get_last [OF demo_world_inv(1) pair_fst [OF m, folded w1_def] pair_fst [OF q]] q
    by (simp add: w1_def)
qed

text \<open>
  C7: The watch list behind the Bloom filter is a map. From a state whose filter covers the stored
  wallets, after any sequence of successful additions and removals, a lookup that returns no error
  answers exactly what the same sequence on a plain map answers.
\<close>

theorem watched_wallets_refine_map:
  assumes "wallet_inv ex BL view n w" "wallet_run (redisStorage ex BL) n ops w = Some w1"
    and "IsWatchedWallet ex BL n a w1 = (Inr v, w2)"
  shows "v = (case wallet_map ops (watched view n w) a of None \<Rightarrow> ('''', False) | Some i \<Rightarrow> (i, True))"
  by (rule ws.watched_after_run [OF assms(1,2)]) (simp add: assms(3))

lemma demo_wallet_ops:
  "map_option (\<lambda>w1. fst (IsWatchedWallet mem_exec exact_bloom ''ETH'' ''0xbb'' w1))
     (wallet_run (redisStorage mem_exec exact_bloom) ''ETH''
        [OpAdd ''0xbb'' ''bob'', OpRemove ''0xaa''] demo_world) = Some (Inr (''bob'', True))"
  by code_simp

theorem watched_wallets_refine_map_witness:
  "(''bob'', True) = (case wallet_map [OpAdd ''0xbb'' ''bob'', OpRemove ''0xaa'']
       (watched msKeys ''ETH'' demo_world) ''0xbb'' of None \<Rightarrow> ('''', False) | Some i \<Rightarrow> (i, True))"
proof -
  obtain w1 where r: "wallet_run (redisStorage mem_exec exact_bloom) ''ETH''
        [OpAdd ''0xbb'' ''bob'', OpRemove ''0xaa''] demo_world = Some w1"
    and q: "fst (IsWatchedWallet mem_exec exact_bloom ''ETH'' ''0xbb'' w1) = Inr (''bob'', True)"
    using demo_wallet_ops by auto
  show ?thesis by (rule watched_wallets_refine_map [OF demo_world_inv(2) r pair_fst [OF q]])
qed

text \<open>
  C8: A freshly opened storage never hides a watched wallet, even when filling the Bloom filters
  failed for some networks: a lookup that returns no error answers what Redis stores.
\<close>

theorem new_storage_lookup_exact:
  assumes "redis_laws ex view" "bloom_laws BL"
    and "NewRedisStorage ex BL parseURL url networks e = (Inr w, e')"
    and "IsWatchedWallet ex BL n a w = (Inr v, w')"
  shows "v = (case hash_at (view e) (walletsKey n) a of None \<Rightarrow> ('''', False) | Some i \<Rightarrow> (i, True))"
proof -
  obtain rep e1 where p: "ex PingCmd e = (rep, e1)" by (cases "ex PingCmd e")
  obtain r wb e2 where s: "SeedAll BL (seedGet ex) networks (NewWalletBloom, e1) = (r, (wb, e2))"
    by (metis prod_cases3)
  have w: "w = \<lparr>env = e2, wbloom = wb\<rparr>"
    using assms(3) p s by (auto simp: NewRedisStorage_def split: option.splits)
  have "view e1 = view e" using redis_ok_read [OF _ redis_lawsD [OF assms(1) p]] by simp
  moreover have "covers_keys BL (view e1) n NewWalletBloom"
    by (simp add: covers_keys_def MaybeContains_def NewWalletBloom_def)
  ultimately have "view e2 = view e" "filter_sound BL view n w"
    using SeedAll_sound [OF assms(1,2) s] by (simp_all add: covers_keys_world keys_def w)
  with IsWatched_correct [OF assms(1) _ assms(4)] show ?thesis
    by (simp add: watched_def keys_def w)
qed

text \<open>Opening the storage with a lost read while filling the filter of the second network.\<close>

definition demo_new :: "(mem_server, string list) world res" where
  "demo_new = fst (NewRedisStorage mem_exec exact_bloom (\<lambda>_. None) ''redis://localhost:6379''
     [''ETH'', ''BTC''] ((env demo_world)\<lparr>msFail := [False, False, True]\<rparr>))"

theorem new_storage_lookup_exact_witness:
  "\<exists>w. demo_new = Inr w \<and> filters (wbloom w) ''BTC'' = None \<and>
     fst (IsWatchedWallet mem_exec exact_bloom ''ETH'' ''0xaa'' w) =
       Inr (case hash_at (msKeys (env demo_world)) (walletsKey ''ETH'') ''0xaa'' of
              None \<Rightarrow> ('''', False) | Some i \<Rightarrow> (i, True))"
proof -
  have c: "case demo_new of Inl _ \<Rightarrow> False | Inr w \<Rightarrow> filters (wbloom w) ''BTC'' = None \<and>
      fst (IsWatchedWallet mem_exec exact_bloom ''ETH'' ''0xaa'' w) = Inr (''alice'', True)"
    by code_simp
  then obtain w where w: "demo_new = Inr w" "filters (wbloom w) ''BTC'' = None"
    and q: "fst (IsWatchedWallet mem_exec exact_bloom ''ETH'' ''0xaa'' w) = Inr (''alice'', True)"
    by (auto split: sum.splits)
  show ?thesis
    using new_storage_lookup_exact [OF mem_exec_laws exact_bloom_laws
        pair_fst [OF w(1) [unfolded demo_new_def]] pair_fst [OF q]] w q
    by (intro exI [of _ w]) simp
qed

text \<open>
  C9: A network whose filter could not be filled at start loses its stored wallets with the next
  addition. Adding a wallet \<open>b\<close> to a network without a filter creates one that holds \<open>b\<close> only, so a
  wallet \<open>a\<close> that is still stored in Redis is reported as not watched (unless the new filter has a
  false positive for it).
\<close>

theorem unseeded_add_hides_wallet:
  assumes "redis_laws ex view" "filters (wbloom w) n = None" "watched view n w a = Some i" "a \<noteq> b"
    and "AddWatchedWallet ex BL n b j w = (None, w1)"
    and "\<not> TestString BL (AddString BL
           (NewWithEstimates BL (minCapacity (wbloom w)) (falsePos (wbloom w))) b) a"
  shows "watched view n w1 a = Some i \<and> IsWatchedWallet ex BL n a w1 = (Inr ('''', False), w1)"
proof -
  obtain rep w' where c: "rcmd ex (HSet (walletsKey n) b j) w = (rep, w')"
    by (cases "rcmd ex (HSet (walletsKey n) b j) w")
  note L = rcmd_law [OF assms(1) c]
  have e: "cmd_err rep = None" and w1: "w1 = w'\<lparr>wbloom := bloom_Add BL n b (wbloom w')\<rparr>"
    using assms(5) c by (auto simp: AddWatchedWallet_def split: option.splits)
  have "watched view n w1 a = Some i"
    using hset_ok [OF L [THEN conjunct1] e] assms(3,4) by (simp add: watched_def keys_def w1)
  moreover have "\<not> MaybeContains BL n a (wbloom w1)"
    using L assms(2,6) by (simp add: w1 MaybeContains_def bloom_Add_def Let_def)
  ultimately show ?thesis by (simp add: IsWatchedWallet_def)
qed

definition demo_unseeded :: "(mem_server, string list) world" where
  "demo_unseeded = demo_world\<lparr>wbloom := NewWalletBloom\<rparr>"

theorem unseeded_add_hides_wallet_witness:
  "\<exists>w1. AddWatchedWallet mem_exec exact_bloom ''ETH'' ''0xbb'' ''bob'' demo_unseeded = (None, w1)
     \<and> watched msKeys ''ETH'' w1 ''0xaa'' = Some ''alice''
     \<and> fst (IsWatchedWallet mem_exec exact_bloom ''ETH'' ''0xaa'' w1) = Inr ('''', False)"
proof -
  have a: "fst (AddWatchedWallet mem_exec exact_bloom ''ETH'' ''0xbb'' ''bob'' demo_unseeded) = None"
    by code_simp
  have h: "watched msKeys ''ETH'' demo_unseeded ''0xaa'' = Some ''alice''"
    "filters (wbloom demo_unseeded) ''ETH'' = None"
    by code_simp+
  show ?thesis
    using unseeded_add_hides_wallet [where BL = exact_bloom, OF mem_exec_laws h(2,1) _ pair_fst [OF a]]
      pair_fst [OF a]
    by (intro exI [of _ "snd (AddWatchedWallet mem_exec exact_bloom ''ETH'' ''0xbb'' ''bob'' demo_unseeded)"]) simp
qed

end
