(* ===== verification/Messaging.thy ===== *)
theory Messaging
  imports Base_Tracker Redis_Storage
begin

text \<open>
  The publishers of \<open>internal/messaging/publisher.go\<close>. The RabbitMQ publisher hands a message to the
  AMQP channel, which is a parameter: the function \<open>amqp\<close> on the state of the outside services. The
  body of a message is the JSON text of the event; the model keeps the event itself, and the one way
  in which \<open>json.Marshal\<close> fails on it, a time outside the years 0 to 9999.
\<close>

section \<open>Messages\<close>

record amqp_message =
  msgExchange :: string
  msgRoutingKey :: string
  msgMandatory :: bool
  msgImmediate :: bool
  msgContentType :: string
  msgBody :: Event
  msgTimestamp :: go_time
  msgMessageId :: string
  msgDeliveryMode :: int

type_synonym 'e amqp_send = "amqp_message \<Rightarrow> 'e \<Rightarrow> error option \<times> 'e"

definition amqp_Persistent :: int where "amqp_Persistent = 2"

text \<open>The years 0 to 9999 in nanoseconds around the epoch.\<close>

definition time_marshals :: "go_time \<Rightarrow> bool" where
  "time_marshals t \<longleftrightarrow> - 62167219200 * 1000000000 \<le> t \<and> t < 253402300800 * 1000000000"

fun payload_time :: "payload \<Rightarrow> go_time" where
  "payload_time (PDeposit d) = dTimestamp d"
| "payload_time (PWithdrawal x) = wTimestamp x"

definition json_Marshal_event :: "Event \<Rightarrow> Event res" where
  "json_Marshal_event event =
     (if time_marshals (payload_time (evPayload event)) \<and> time_marshals (evTimestamp event) then Inr event
      else Inl (ErrorString ''Time.MarshalJSON: year outside of range [0,9999]''))"

text \<open>The clock, also a parameter: every reading may be later than the one before.\<close>

type_synonym 'e clock = "'e \<Rightarrow> go_time \<times> 'e"

section \<open>The RabbitMQ publisher\<close>

record RabbitMQPublisher =
  pubExchange :: string

text \<open>
  What \<open>NewRabbitMQPublisher\<close> asks of the broker: a connection, a channel and a durable topic
  exchange; a failed step closes what is open. \<open>amqp_setup\<close> lists the calls of the library.
\<close>

record 'e amqp_setup =
  as_Dial :: "string \<Rightarrow> 'e \<Rightarrow> error option \<times> 'e"
  as_Channel :: "'e \<Rightarrow> error option \<times> 'e"
  as_ExchangeDeclare :: "string \<Rightarrow> string \<Rightarrow> bool \<Rightarrow> bool \<Rightarrow> bool \<Rightarrow> bool \<Rightarrow> 'e \<Rightarrow> error option \<times> 'e"
  as_CloseChannel :: "'e \<Rightarrow> error option \<times> 'e"
  as_CloseConn :: "'e \<Rightarrow> error option \<times> 'e"

definition NewRabbitMQPublisher ::
  "'e amqp_setup \<Rightarrow> string \<Rightarrow> string \<Rightarrow> 'e \<Rightarrow> RabbitMQPublisher res \<times> 'e" where
  "NewRabbitMQPublisher A url exchange e =
     (case as_Dial A url e of
        (Some err, e1) \<Rightarrow> (Inl (Wrap ''failed to connect to RabbitMQ'' err), e1)
      | (None, e1) \<Rightarrow>
          (case as_Channel A e1 of
             (Some err, e2) \<Rightarrow> (Inl (Wrap ''failed to open channel'' err), snd (as_CloseConn A e2))
           | (None, e2) \<Rightarrow>
               (case as_ExchangeDeclare A exchange ''topic'' True False False False e2 of
                  (Some err, e3) \<Rightarrow>
                    (Inl (Wrap ''failed to declare exchange'' err), snd (as_CloseConn A (snd (as_CloseChannel A e3))))
                | (None, e3) \<Rightarrow> (Inr \<lparr>pubExchange = exchange\<rparr>, e3))))"

definition routingKey :: "Event \<Rightarrow> string" where
  "routingKey event = evType event @ ''.'' @ evSource event"

definition Publish ::
  "'e amqp_send \<Rightarrow> 'e clock \<Rightarrow> RabbitMQPublisher \<Rightarrow> Event \<Rightarrow> ('e, 'f, 'm) world_scheme \<Rightarrow>
   error option \<times> ('e, 'f, 'm) world_scheme" where
  "Publish amqp clock p event w =
     (case json_Marshal_event event of
        Inl err \<Rightarrow> (Some (Wrap ''failed to marshal event'' err), w)
      | Inr body \<Rightarrow>
          (case clock (env w) of (now1, e1) \<Rightarrow>
          (case clock e1 of (now2, e2) \<Rightarrow>
          (case amqp \<lparr>msgExchange = pubExchange p, msgRoutingKey = routingKey event,
                       msgMandatory = False, msgImmediate = False, msgContentType = ''application/json'',
                       msgBody = body, msgTimestamp = now1,
                       msgMessageId = evType event @ ''-'' @ FormatInt now2,
                       msgDeliveryMode = amqp_Persistent\<rparr> e2 of
             (Some err, e3) \<Rightarrow> (Some (Wrap ''failed to publish event'' err), w\<lparr>env := e3\<rparr>)
           | (None, e3) \<Rightarrow> (None, w\<lparr>env := e3\<rparr>)))))"

definition PublishDeposit ::
  "'e amqp_send \<Rightarrow> 'e clock \<Rightarrow> RabbitMQPublisher \<Rightarrow> WalletDeposit \<Rightarrow> ('e, 'f, 'm) world_scheme \<Rightarrow>
   error option \<times> ('e, 'f, 'm) world_scheme" where
  "PublishDeposit amqp clock p deposit w =
     (case clock (env w) of (now, e1) \<Rightarrow>
        Publish amqp clock p \<lparr>evType = EventTypeWalletDeposit, evPayload = PDeposit deposit,
          evTimestamp = now, evSource = dNetwork deposit\<rparr> (w\<lparr>env := e1\<rparr>))"

definition PublishWithdrawal ::
  "'e amqp_send \<Rightarrow> 'e clock \<Rightarrow> RabbitMQPublisher \<Rightarrow> WalletWithdrawal \<Rightarrow> ('e, 'f, 'm) world_scheme \<Rightarrow>
   error option \<times> ('e, 'f, 'm) world_scheme" where
  "PublishWithdrawal amqp clock p withdrawal w =
     (case clock (env w) of (now, e1) \<Rightarrow>
        Publish amqp clock p \<lparr>evType = EventTypeWalletWithdraw, evPayload = PWithdrawal withdrawal,
          evTimestamp = now, evSource = wNetwork withdrawal\<rparr> (w\<lparr>env := e1\<rparr>))"

text \<open>\<open>Close\<close>: the error of closing the channel is dropped.\<close>

definition pub_Close :: "'e amqp_setup \<Rightarrow> 'e \<Rightarrow> error option \<times> 'e" where
  "pub_Close A e = as_CloseConn A (snd (as_CloseChannel A e))"

definition rabbitPublisher ::
  "'e amqp_send \<Rightarrow> 'e clock \<Rightarrow> RabbitMQPublisher \<Rightarrow> ('e, 'f, 'm) world_scheme Publisher" where
  "rabbitPublisher amqp clock p =
     \<lparr>pub_PublishDeposit = PublishDeposit amqp clock p, pub_PublishWithdrawal = PublishWithdrawal amqp clock p\<rparr>"

section \<open>The publishers that send nothing\<close>

definition NoOpPublisher :: "'w Publisher" where
  "NoOpPublisher = \<lparr>pub_PublishDeposit = (\<lambda>d w. (None, w)), pub_PublishWithdrawal = (\<lambda>x w. (None, w))\<rparr>"

text \<open>The webhook publisher is a placeholder in the code too: it only logs that it is not implemented.\<close>

definition WebhookPublisher :: "string list \<Rightarrow> 'w Publisher" where
  "WebhookPublisher endpoints =
     \<lparr>pub_PublishDeposit = (\<lambda>d w. (None, w)), pub_PublishWithdrawal = (\<lambda>x w. (None, w))\<rparr>"

section \<open>The hypothesis on the broker\<close>

text \<open>
  \<open>sent\<close> lists the messages the broker took, in order. A successful send appends its message, a failed
  one may or may not have reached the broker; neither touches what \<open>frame\<close> shows. Reading the clock
  changes neither.
\<close>

definition amqp_laws :: "'e amqp_send \<Rightarrow> 'e clock \<Rightarrow> ('e \<Rightarrow> amqp_message list) \<Rightarrow> ('e \<Rightarrow> 'v) \<Rightarrow> bool" where
  "amqp_laws amqp clock sent frame \<longleftrightarrow>
     (\<forall>m e r e'. amqp m e = (r, e') \<longrightarrow> frame e' = frame e \<and>
        (sent e' = sent e @ [m] \<or> r \<noteq> None \<and> sent e' = sent e)) \<and>
     (\<forall>e n e'. clock e = (n, e') \<longrightarrow> frame e' = frame e \<and> sent e' = sent e)"

text \<open>A broker that takes every message, and a clock within the years a message can carry.\<close>

definition amqp_healthy :: "'e amqp_send \<Rightarrow> 'e clock \<Rightarrow> bool" where
  "amqp_healthy amqp clock \<longleftrightarrow> (\<forall>m e. fst (amqp m e) = None) \<and> (\<forall>e. time_marshals (fst (clock e)))"

definition published :: "('e \<Rightarrow> amqp_message list) \<Rightarrow> ('e, 'f, 'm) world_scheme \<Rightarrow> payload list" where
  "published sent w = map (evPayload \<circ> msgBody) (sent (env w))"

lemma Publish_correct:
  assumes "amqp_laws amqp clock sent frame" "Publish amqp clock p event w = (r, w')"
  shows "frame (env w') = frame (env w) \<and> wbloom w' = wbloom w \<and>
    (\<exists>ms. sent (env w') = sent (env w) @ ms \<and>
       (ms = [] \<and> r \<noteq> None \<or>
        (\<exists>m. ms = [m] \<and> msgBody m = event \<and> msgExchange m = pubExchange p \<and>
          msgRoutingKey m = routingKey event \<and> msgDeliveryMode m = amqp_Persistent))) \<and>
    (amqp_healthy amqp clock \<and> time_marshals (payload_time (evPayload event)) \<and>
       time_marshals (evTimestamp event) \<longrightarrow> r = None)"
proof (cases "json_Marshal_event event")
  case (Inl err)
  then show ?thesis using assms(2)
    by (auto simp: Publish_def json_Marshal_event_def split: if_splits)
next
  case (Inr body)
  then have b: "body = event" by (auto simp: json_Marshal_event_def split: if_splits)
  obtain n1 e1 where c1: "clock (env w) = (n1, e1)" by (cases "clock (env w)")
  obtain n2 e2 where c2: "clock e1 = (n2, e2)" by (cases "clock e1")
  let ?m = "\<lparr>msgExchange = pubExchange p, msgRoutingKey = routingKey event,
    msgMandatory = False, msgImmediate = False, msgContentType = ''application/json'',
    msgBody = body, msgTimestamp = n1, msgMessageId = evType event @ ''-'' @ FormatInt n2,
    msgDeliveryMode = amqp_Persistent\<rparr>"
  obtain x e3 where a: "amqp ?m e2 = (x, e3)" by (cases "amqp ?m e2")
  have out: "w' = w\<lparr>env := e3\<rparr>" "r = None \<longleftrightarrow> x = None"
    using assms(2) Inr c1 c2 a by (auto simp: Publish_def split: option.splits)
  have "frame e1 = frame (env w)" "sent e1 = sent (env w)" "frame e2 = frame e1" "sent e2 = sent e1"
    "frame e3 = frame e2" "sent e3 = sent e2 @ [?m] \<or> x \<noteq> None \<and> sent e3 = sent e2"
    using assms(1) c1 c2 a unfolding amqp_laws_def by blast+
  moreover have "x = None" if "amqp_healthy amqp clock"
    using that arg_cong [OF a, of fst] by (simp add: amqp_healthy_def)
  ultimately show ?thesis using out b by fastforce
qed

lemma deposit_sent:
  assumes "amqp_laws amqp clock sent frame" "PublishDeposit amqp clock p deposit w = (r, w')"
  shows "frame (env w') = frame (env w) \<and> wbloom w' = wbloom w \<and>
    (\<exists>ms. sent (env w') = sent (env w) @ ms \<and>
       (ms = [] \<and> r \<noteq> None \<or>
        (\<exists>m. ms = [m] \<and> evPayload (msgBody m) = PDeposit deposit \<and> msgExchange m = pubExchange p \<and>
          msgRoutingKey m = ''wallet.deposit.'' @ dNetwork deposit \<and> msgDeliveryMode m = amqp_Persistent))) \<and>
    (amqp_healthy amqp clock \<and> time_marshals (dTimestamp deposit) \<longrightarrow> r = None)"
proof -
  obtain n e1 where c: "clock (env w) = (n, e1)" by (cases "clock (env w)")
  have f: "frame e1 = frame (env w)" "sent e1 = sent (env w)"
    using assms(1) c unfolding amqp_laws_def by blast+
  let ?ev = "\<lparr>evType = EventTypeWalletDeposit, evPayload = PDeposit deposit, evTimestamp = n,
    evSource = dNetwork deposit\<rparr>"
  have "Publish amqp clock p ?ev (w\<lparr>env := e1\<rparr>) = (r, w')"
    using assms(2) c by (simp add: PublishDeposit_def)
  note P = Publish_correct [OF assms(1) this]
  have "time_marshals n" if "amqp_healthy amqp clock"
    using that arg_cong [OF c, of fst] unfolding amqp_healthy_def by (metis fst_conv)
  with P f show ?thesis by (fastforce simp: routingKey_def EventTypeWalletDeposit_def)
qed

text \<open>
  C32: what is handed to the broker: publishing a deposit sends at most one message, persistent, to the configured
  exchange under the routing key \<open>wallet.deposit.<network>\<close>, whose body carries that deposit; success means that it
  was sent, and with a working broker and times that JSON can carry it does succeed. Nothing else the
  process holds changes.
\<close>

theorem deposit_message:
  assumes "amqp_laws amqp clock sent frame" "PublishDeposit amqp clock p deposit w = (r, w')"
  shows "frame (env w') = frame (env w) \<and> wbloom w' = wbloom w \<and>
    (\<exists>ms. sent (env w') = sent (env w) @ ms \<and>
       (ms = [] \<and> r \<noteq> None \<or>
        (\<exists>m. ms = [m] \<and> evPayload (msgBody m) = PDeposit deposit \<and> msgExchange m = pubExchange p \<and>
          msgRoutingKey m = ''wallet.deposit.'' @ dNetwork deposit \<and> msgDeliveryMode m = amqp_Persistent))) \<and>
    (amqp_healthy amqp clock \<and> time_marshals (dTimestamp deposit) \<longrightarrow> r = None)"
  using assms by (rule deposit_sent)

text \<open>The same for a withdrawal.\<close>

lemma withdrawal_message:
  assumes "amqp_laws amqp clock sent frame" "PublishWithdrawal amqp clock p withdrawal w = (r, w')"
  shows "frame (env w') = frame (env w) \<and> wbloom w' = wbloom w \<and>
    (\<exists>ms. sent (env w') = sent (env w) @ ms \<and>
       (ms = [] \<and> r \<noteq> None \<or>
        (\<exists>m. ms = [m] \<and> evPayload (msgBody m) = PWithdrawal withdrawal \<and> msgExchange m = pubExchange p \<and>
          msgRoutingKey m = ''wallet.withdrawal.'' @ wNetwork withdrawal \<and> msgDeliveryMode m = amqp_Persistent))) \<and>
    (amqp_healthy amqp clock \<and> time_marshals (wTimestamp withdrawal) \<longrightarrow> r = None)"
proof -
  obtain n e1 where c: "clock (env w) = (n, e1)" by (cases "clock (env w)")
  have f: "frame e1 = frame (env w)" "sent e1 = sent (env w)"
    using assms(1) c unfolding amqp_laws_def by blast+
  let ?ev = "\<lparr>evType = EventTypeWalletWithdraw, evPayload = PWithdrawal withdrawal, evTimestamp = n,
    evSource = wNetwork withdrawal\<rparr>"
  have "Publish amqp clock p ?ev (w\<lparr>env := e1\<rparr>) = (r, w')"
    using assms(2) c by (simp add: PublishWithdrawal_def)
  note P = Publish_correct [OF assms(1) this]
  have "time_marshals n" if "amqp_healthy amqp clock"
    using that arg_cong [OF c, of fst] unfolding amqp_healthy_def by (metis fst_conv)
  with P f show ?thesis by (fastforce simp: routingKey_def EventTypeWalletWithdraw_def)
qed

section \<open>An environment for the examples\<close>

text \<open>
  The in-memory Redis server of \<open>Redis_Service\<close> beside a broker that takes every message, and a clock
  that stands at one second after the epoch.
\<close>

record demo_env =
  deRedis :: mem_server
  deSent :: "amqp_message list"

definition demo_exec :: "demo_env redis_exec" where
  "demo_exec c e = (case mem_exec c (deRedis e) of (rep, s) \<Rightarrow> (rep, e\<lparr>deRedis := s\<rparr>))"

definition demo_view :: "demo_env \<Rightarrow> keyspace" where
  "demo_view e = msKeys (deRedis e)"

definition demo_amqp :: "demo_env amqp_send" where
  "demo_amqp m e = (None, e\<lparr>deSent := deSent e @ [m]\<rparr>)"

definition demo_clock :: "demo_env clock" where
  "demo_clock e = (Second, e)"

lemma demo_redis_laws: "redis_laws demo_exec demo_view"
  using mem_exec_laws unfolding redis_laws_def demo_exec_def demo_view_def by (simp add: split_beta)

lemma demo_amqp_laws: "amqp_laws demo_amqp demo_clock deSent demo_view"
  by (auto simp: amqp_laws_def demo_amqp_def demo_clock_def demo_view_def)

lemma demo_amqp_healthy: "amqp_healthy demo_amqp demo_clock"
  by (simp add: amqp_healthy_def demo_amqp_def demo_clock_def time_marshals_def Second_def Millisecond_def)

definition demo_deposit :: WalletDeposit where
  "demo_deposit = \<lparr>dTxHash = ''tx'', dWalletID = ''alice'', dWalletAddress = ''0xaa'', dFromAddress = ''0xbb'',
     dInputs = [], dAmount = ''1'', dCurrency = ''ETH'', dNetwork = ''ETH'', dBlockNumber = 42, dConfirmations = 1,
     dTimestamp = Second, dNetworkFee = ''0'', dStatus = StatusConfirmed\<rparr>"

definition demo_base :: "(demo_env, string list) world" where
  "demo_base = \<lparr>env = \<lparr>deRedis = \<lparr>msKeys = Map.empty, msFail = []\<rparr>, deSent = []\<rparr>, wbloom = NewWalletBloom\<rparr>"

theorem deposit_message_witness:
  "\<exists>w'. PublishDeposit demo_amqp demo_clock \<lparr>pubExchange = ''bloop''\<rparr> demo_deposit demo_base = (None, w') \<and>
     (\<exists>m. deSent (env w') = [m] \<and> msgRoutingKey m = ''wallet.deposit.ETH'' \<and> msgExchange m = ''bloop'')"
proof -
  let ?p = "\<lparr>pubExchange = ''bloop''\<rparr>"
  obtain r w' where c: "PublishDeposit demo_amqp demo_clock ?p demo_deposit demo_base = (r, w')"
    by (cases "PublishDeposit demo_amqp demo_clock ?p demo_deposit demo_base")
  have "time_marshals (dTimestamp demo_deposit)"
    by (simp add: time_marshals_def demo_deposit_def Second_def Millisecond_def)
  with deposit_message [OF demo_amqp_laws c] demo_amqp_healthy c show ?thesis
    by (auto simp: demo_base_def demo_deposit_def)
qed

end
