(* ===== verification/Event_Env.thy ===== *)
theory Event_Env
  imports Messaging "HOL-Library.Multiset"
begin

text \<open>
  The interface between a block processor and its surroundings, as a locale: the watch list it asks,
  the publisher it feeds and the per-block list of handled transactions. A processor is then specified
  by the events it should publish for a block, a pure function of the watch list and the block;
  \<open>emits V c es w w'\<close> says how far a run from \<open>w\<close> to \<open>w'\<close> follows the list \<open>es\<close>: what it publishes
  is a subsequence of \<open>es\<close> whatever fails on the way, and all of \<open>es\<close> when \<open>c\<close> holds.
\<close>

section \<open>Runs that publish\<close>

text \<open>
  The views of a world the contract speaks about: an invariant every call keeps, one that makes the
  answers about wallets exact, the data of the tracker a processor must not touch, the watch list, the
  published events, and whether the services answer without failures.
\<close>

record ('w, 'v) event_view =
  ev_winv :: "'w \<Rightarrow> bool"
  ev_sinv :: "'w \<Rightarrow> bool"
  ev_frame :: "'w \<Rightarrow> 'v"
  ev_watched :: "'w \<Rightarrow> string \<Rightarrow> string option"
  ev_published :: "'w \<Rightarrow> payload list"
  ev_healthy :: bool

definition emits :: "('w, 'v) event_view \<Rightarrow> bool \<Rightarrow> payload list \<Rightarrow> 'w \<Rightarrow> 'w \<Rightarrow> bool" where
  "emits V c es w w' \<longleftrightarrow> ev_winv V w' \<and> ev_frame V w' = ev_frame V w \<and>
     (ev_sinv V w \<longrightarrow> ev_sinv V w' \<and> ev_watched V w' = ev_watched V w \<and>
        (\<exists>xs. ev_published V w' = ev_published V w @ xs \<and> subseq xs es \<and> (c \<longrightarrow> xs = es)))"

abbreviation silent :: "('w, 'v) event_view \<Rightarrow> 'w \<Rightarrow> 'w \<Rightarrow> bool" where
  "silent V \<equiv> emits V True []"

lemma emits_refl: "ev_winv V w \<Longrightarrow> silent V w w"
  by (simp add: emits_def)

lemma emits_none: "silent V w w' \<Longrightarrow> \<not> c \<or> es = [] \<Longrightarrow> emits V c es w w'"
  by (auto simp: emits_def)

lemma emits_weaken: "emits V c es w w' \<Longrightarrow> (c' \<Longrightarrow> c) \<Longrightarrow> emits V c' es w w'"
  by (auto simp: emits_def)

lemma emits_trans:
  assumes "emits V c es w w1" "emits V d fs w1 w2"
  shows "emits V (c \<and> d) (es @ fs) w w2"
proof -
  have "\<exists>xs. ev_published V w2 = ev_published V w @ xs \<and> subseq xs (es @ fs) \<and> (c \<and> d \<longrightarrow> xs = es @ fs)"
    if "ev_sinv V w"
  proof -
    from assms(1) that obtain xs where x: "ev_published V w1 = ev_published V w @ xs" "subseq xs es" "c \<longrightarrow> xs = es"
      and i: "ev_sinv V w1" by (auto simp: emits_def)
    from assms(2) i obtain ys where y: "ev_published V w2 = ev_published V w1 @ ys" "subseq ys fs" "d \<longrightarrow> ys = fs"
      by (auto simp: emits_def)
    have "subseq (xs @ ys) (es @ fs)" using x(2) y(2) by (rule list_emb_append_mono)
    with x y show ?thesis by (intro exI [of _ "xs @ ys"]) simp
  qed
  moreover have "ev_winv V w2" "ev_frame V w2 = ev_frame V w"
    "ev_sinv V w \<longrightarrow> ev_sinv V w2 \<and> ev_watched V w2 = ev_watched V w"
    using assms by (simp_all add: emits_def)
  ultimately show ?thesis by (simp add: emits_def)
qed

lemma emits_trans_app:
  "emits V c es w w1 \<Longrightarrow> emits V d fs w1 w2 \<Longrightarrow> (c' \<Longrightarrow> c \<and> d) \<Longrightarrow> emits V c' (es @ fs) w w2"
  by (rule emits_weaken [OF emits_trans])

lemma silent_then: "silent V w w1 \<Longrightarrow> emits V c es w1 w2 \<Longrightarrow> emits V c es w w2"
  using emits_trans [of V True "[]" w w1 c es w2] by simp

lemma then_silent: "emits V c es w w1 \<Longrightarrow> silent V w1 w2 \<Longrightarrow> emits V c es w w2"
  using emits_trans [of V c es w w1 True "[]" w2] by simp

lemma emits_winv: "emits V c es w w' \<Longrightarrow> ev_winv V w'"
  by (simp add: emits_def)

lemma emits_watched: "emits V c es w w' \<Longrightarrow> ev_sinv V w \<Longrightarrow> ev_sinv V w' \<and> ev_watched V w' = ev_watched V w"
  by (simp add: emits_def)

text \<open>A run that stops early has published a part of what it should.\<close>

lemma emits_prefix: "emits V c es w w' \<Longrightarrow> \<not> c' \<Longrightarrow> emits V c' (es @ fs) w w'"
  by (fastforce simp: emits_def)

text \<open>
  The events a run should publish are a function of the watch list, which the run does not change:
  \<open>follows V c f w w'\<close> compares it with that function at the watch list of its start.
\<close>

definition follows :: "('w, 'v) event_view \<Rightarrow> bool \<Rightarrow> ((string \<rightharpoonup> string) \<Rightarrow> payload list) \<Rightarrow> 'w \<Rightarrow> 'w \<Rightarrow> bool" where
  "follows V c f w w' \<longleftrightarrow> emits V c (f (ev_watched V w)) w w'"

lemma follows_trans:
  assumes "follows V c f w w1" "follows V d g w1 w2" "c' \<Longrightarrow> c \<and> d"
  shows "follows V c' (\<lambda>m. f m @ g m) w w2"
proof (cases "ev_sinv V w")
  case True
  then have "ev_watched V w1 = ev_watched V w" using assms(1) by (simp add: follows_def emits_def)
  with assms show ?thesis unfolding follows_def by (auto intro: emits_trans_app)
qed (use assms(1,2) in \<open>simp add: follows_def emits_def\<close>)

lemma follows_silent: "silent V w w' \<Longrightarrow> follows V c (\<lambda>m. []) w w'"
  unfolding follows_def by (rule emits_none) simp_all

lemma silent_follows: "silent V w w1 \<Longrightarrow> follows V c f w1 w2 \<Longrightarrow> follows V c f w w2"
  using follows_trans [OF follows_silent [of V w w1 c], of c f w2 c] by simp

lemma follows_then_silent: "follows V c f w w1 \<Longrightarrow> silent V w1 w2 \<Longrightarrow> follows V c f w w2"
  using follows_trans [of V c f w w1 c "\<lambda>m. []" w2 c] follows_silent by fastforce

lemma follows_winv: "follows V c f w w' \<Longrightarrow> ev_winv V w'"
  by (simp add: follows_def emits_def)

lemma follows_weaken: "follows V c f w w' \<Longrightarrow> (c' \<Longrightarrow> c) \<Longrightarrow> follows V c' f w w'"
  unfolding follows_def by (rule emits_weaken)

lemma follows_frame: "follows V c f w w' \<Longrightarrow> ev_frame V w' = ev_frame V w"
  by (simp add: follows_def emits_def)

text \<open>A run whose outcome is known only where the answers about wallets are exact.\<close>

lemma followsI:
  "silent V w w1 \<Longrightarrow> emits V d es w1 w' \<Longrightarrow> (ev_sinv V w \<Longrightarrow> es = f (ev_watched V w)) \<Longrightarrow>
   (ev_sinv V w \<Longrightarrow> c \<Longrightarrow> d) \<Longrightarrow> follows V c f w w'"
  unfolding follows_def by (drule (1) silent_then) (auto simp: emits_def)

lemma follows_stuck:
  "silent V w w' \<Longrightarrow> (ev_sinv V w \<Longrightarrow> \<not> c \<or> f (ev_watched V w) = []) \<Longrightarrow> follows V c f w w'"
  unfolding follows_def by (auto simp: emits_def)

text \<open>
  Where an event carries the time at which it was built, the comparison leaves the times out:
  \<open>followsU\<close> compares the events with their time set to zero.
\<close>

fun untimed :: "payload \<Rightarrow> payload" where
  "untimed (PDeposit d) = PDeposit (d\<lparr>dTimestamp := 0\<rparr>)"
| "untimed (PWithdrawal x) = PWithdrawal (x\<lparr>wTimestamp := 0\<rparr>)"

definition followsU :: "('w, 'v) event_view \<Rightarrow> bool \<Rightarrow> ((string \<rightharpoonup> string) \<Rightarrow> payload list) \<Rightarrow> 'w \<Rightarrow> 'w \<Rightarrow> bool" where
  "followsU V c f w w' \<longleftrightarrow> ev_winv V w' \<and> ev_frame V w' = ev_frame V w \<and>
     (ev_sinv V w \<longrightarrow> ev_sinv V w' \<and> ev_watched V w' = ev_watched V w \<and>
        (\<exists>xs. ev_published V w' = ev_published V w @ xs \<and> subseq (map untimed xs) (f (ev_watched V w)) \<and>
           (c \<longrightarrow> map untimed xs = f (ev_watched V w))))"

lemma followsU_trans:
  assumes "followsU V c f w w1" "followsU V d g w1 w2" "c' \<Longrightarrow> c \<and> d"
  shows "followsU V c' (\<lambda>m. f m @ g m) w w2"
proof -
  have "\<exists>xs. ev_published V w2 = ev_published V w @ xs \<and>
      subseq (map untimed xs) (f (ev_watched V w) @ g (ev_watched V w)) \<and>
      (c' \<longrightarrow> map untimed xs = f (ev_watched V w) @ g (ev_watched V w))" if "ev_sinv V w"
  proof -
    from assms(1) that obtain xs where x: "ev_published V w1 = ev_published V w @ xs"
      "subseq (map untimed xs) (f (ev_watched V w))" "c \<longrightarrow> map untimed xs = f (ev_watched V w)"
      and i: "ev_sinv V w1" "ev_watched V w1 = ev_watched V w" by (auto simp: followsU_def)
    from assms(2) i obtain ys where y: "ev_published V w2 = ev_published V w1 @ ys"
      "subseq (map untimed ys) (g (ev_watched V w))" "d \<longrightarrow> map untimed ys = g (ev_watched V w)"
      by (auto simp: followsU_def)
    have "subseq (map untimed xs @ map untimed ys) (f (ev_watched V w) @ g (ev_watched V w))"
      using x(2) y(2) by (rule list_emb_append_mono)
    with x y assms(3) show ?thesis by (intro exI [of _ "xs @ ys"]) auto
  qed
  moreover have "ev_winv V w2" "ev_frame V w2 = ev_frame V w"
    "ev_sinv V w \<longrightarrow> ev_sinv V w2 \<and> ev_watched V w2 = ev_watched V w"
    using assms by (simp_all add: followsU_def)
  ultimately show ?thesis by (simp add: followsU_def)
qed

lemma followsU_stuck:
  "silent V w w' \<Longrightarrow> (ev_sinv V w \<Longrightarrow> \<not> c \<or> f (ev_watched V w) = []) \<Longrightarrow> followsU V c f w w'"
  by (auto simp: followsU_def emits_def)

lemma followsU_silent: "silent V w w' \<Longrightarrow> followsU V c (\<lambda>m. []) w w'"
  by (rule followsU_stuck) simp_all

lemma silent_followsU: "silent V w w1 \<Longrightarrow> followsU V c f w1 w2 \<Longrightarrow> followsU V c f w w2"
  using followsU_trans [OF followsU_silent [of V w w1 c], of c f w2 c] by simp

lemma followsU_then_silent: "followsU V c f w w1 \<Longrightarrow> silent V w1 w2 \<Longrightarrow> followsU V c f w w2"
  using followsU_trans [of V c f w w1 c "\<lambda>m. []" w2 c] followsU_silent by fastforce

lemma followsU_winv: "followsU V c f w w' \<Longrightarrow> ev_winv V w'"
  by (simp add: followsU_def)

lemma followsU_frame: "followsU V c f w w' \<Longrightarrow> ev_frame V w' = ev_frame V w"
  by (simp add: followsU_def)

lemma followsU_weaken: "followsU V c f w w' \<Longrightarrow> (c' \<Longrightarrow> c) \<Longrightarrow> followsU V c' f w w'"
  by (auto simp: followsU_def)

lemma followsU_cong:
  "followsU V c f w w' \<Longrightarrow> (ev_sinv V w \<Longrightarrow> f (ev_watched V w) = g (ev_watched V w)) \<Longrightarrow> followsU V c g w w'"
  by (auto simp: followsU_def)

text \<open>A run that stops early has published a part of what it should.\<close>

lemma followsU_prefix: "followsU V c f w w' \<Longrightarrow> \<not> c' \<Longrightarrow> followsU V c' (\<lambda>m. f m @ g m) w w'"
  by (fastforce simp: followsU_def)

lemma followsUI:
  "silent V w w1 \<Longrightarrow> emits V d es w1 w' \<Longrightarrow> (ev_sinv V w \<Longrightarrow> map untimed es = f (ev_watched V w)) \<Longrightarrow>
   (ev_sinv V w \<Longrightarrow> c \<Longrightarrow> d) \<Longrightarrow> followsU V c f w w'"
proof (drule (1) silent_then)
  assume e: "emits V d es w w'" and u: "ev_sinv V w \<Longrightarrow> map untimed es = f (ev_watched V w)"
    and c: "ev_sinv V w \<Longrightarrow> c \<Longrightarrow> d"
  have "\<exists>xs. ev_published V w' = ev_published V w @ xs \<and> subseq (map untimed xs) (f (ev_watched V w)) \<and>
      (c \<longrightarrow> map untimed xs = f (ev_watched V w))" if i: "ev_sinv V w"
  proof -
    from e i obtain xs where x: "ev_published V w' = ev_published V w @ xs" "subseq xs es" "d \<longrightarrow> xs = es"
      by (auto simp: emits_def)
    from subseq_map [OF x(2), of untimed] x u [OF i] c [OF i] show ?thesis by auto
  qed
  with e show ?thesis by (simp add: followsU_def emits_def)
qed

lemma follows_followsU: "follows V c f w w' \<Longrightarrow> followsU V c (\<lambda>m. map untimed (f m)) w w'"
proof -
  assume f: "follows V c f w w'"
  have "\<exists>xs. ev_published V w' = ev_published V w @ xs \<and> subseq (map untimed xs) (map untimed (f (ev_watched V w))) \<and>
      (c \<longrightarrow> map untimed xs = map untimed (f (ev_watched V w)))" if "ev_sinv V w"
    using f that subseq_map by (fastforce simp: follows_def emits_def)
  with f show ?thesis by (simp add: follows_def emits_def followsU_def)
qed

text \<open>What the watch list says of an address, and the events of one transfer for it.\<close>

definition wallet_of :: "(string \<rightharpoonup> string) \<Rightarrow> string \<Rightarrow> string \<times> bool" where
  "wallet_of watch a = (case watch a of None \<Rightarrow> ('''', False) | Some i \<Rightarrow> (i, True))"

definition pairEvents ::
  "(string \<Rightarrow> WalletDeposit) \<Rightarrow> (string \<Rightarrow> WalletWithdrawal) \<Rightarrow> string \<Rightarrow> string \<Rightarrow> (string \<rightharpoonup> string) \<Rightarrow> payload list" where
  "pairEvents mkD mkW from' to' watch =
     (case watch to' of
        Some toID \<Rightarrow> [PDeposit (mkD toID)]
      | None \<Rightarrow> (case watch from' of Some fromID \<Rightarrow> [PWithdrawal (mkW fromID)] | None \<Rightarrow> []))"

lemma wallet_of_simps [simp]:
  "wallet_of m a = (i, True) \<longleftrightarrow> m a = Some i" "wallet_of m a = (i, False) \<longleftrightarrow> m a = None \<and> i = ''''"
  by (auto simp: wallet_of_def split: option.splits)

definition payload_ok :: "payload \<Rightarrow> bool" where
  "payload_ok p \<longleftrightarrow> time_marshals (payload_time p)"

section \<open>The keys of a processor\<close>

text \<open>
  The keys a processor writes for its network (the progress of a block, the cached block, the cached tip)
  are none of the keys that hold the marks, the high-water mark and the wallets of that network.
\<close>

definition tipCacheKey :: "BlockchainType \<Rightarrow> string" where
  "tipCacheKey network = network @ '':tip''"

definition proc_key :: "BlockchainType \<Rightarrow> string \<Rightarrow> bool" where
  "proc_key n k \<longleftrightarrow> (\<exists>b. k = progressKey n b \<or> k = blockCacheKey n b) \<or> k = tipCacheKey n"

lemma dec_not_colon: "CHR '':'' \<notin> set (dec m)"
  using isDigit_dec isDigit_not_colon by blast

lemma proc_key_colon: "proc_key n k \<Longrightarrow> CHR '':'' \<in> set k"
  by (auto simp: proc_key_def progressKey_def blockCacheKey_def tipCacheKey_def)

lemma proc_key_not_last: "proc_key n k \<Longrightarrow> k \<noteq> lastKey"
  using proc_key_colon [of n k] by (auto simp: lastKey_def)

lemma append_conj_mset: "n @ x = y @ n \<Longrightarrow> mset x = mset y"
  by (metis add.commute add_left_cancel mset_append)

lemma proc_keyE:
  assumes "proc_key n k"
  obtains "k = n @ '':tip''" | m where "k = n @ '':block_progress:'' @ dec m" | m where "k = n @ '':block:'' @ dec m"
  using assms unfolding proc_key_def progressKey_def blockCacheKey_def tipCacheKey_def FormatUint_def by blast

lemma dec_digit: "\<exists>c \<in> set (dec m). isDigit c"
  using isDigit_dec [of "hd (dec m)" m] by (intro bexI [of _ "hd (dec m)"]) simp_all

lemma dec_neq: "dec m = s \<Longrightarrow> list_all isDigit s"
  using isDigit_dec by (auto simp: list_all_iff)

lemma proc_key_not_wallets:
  assumes "proc_key n k"
  shows "k \<noteq> walletsKey n"
proof
  assume k: "k = walletsKey n"
  have nd: "\<not> list_ex isDigit ''watch:wallets:''" by code_simp
  have no: "\<not> isDigit c" "length x = 14" if "k = n @ x" "c \<in> set x" for x c
  proof -
    have m: "mset x = mset ''watch:wallets:''"
      by (rule append_conj_mset [of n]) (use k that(1) in \<open>simp add: walletsKey_def\<close>)
    from that(2) have "c \<in> set ''watch:wallets:''" unfolding mset_eq_setD [OF m] .
    with nd show "\<not> isDigit c" unfolding list_ex_iff by blast
    have "size (mset x) = 14" unfolding m by simp
    then show "length x = 14" by simp
  qed
  from assms show False
  proof (cases rule: proc_keyE)
    case 1
    from no(2) [OF this] show False by auto
  next
    case (2 m)
    obtain c where "c \<in> set (dec m)" "isDigit c" using dec_digit by blast
    with no(1) [OF 2, of c] show False by simp
  next
    case (3 m)
    obtain c where "c \<in> set (dec m)" "isDigit c" using dec_digit by blast
    with no(1) [OF 3, of c] show False by simp
  qed
qed

lemma proc_key_not_window:
  assumes "proc_key n k"
  shows "k \<noteq> windowKey n b"
proof
  assume k: "k = windowKey n b"
  have split: "n @ y = ''processed_blocks:'' @ n" if "k = n @ y @ CHR '':'' # dec m" for y m
    using k that colon_dec_inject [of "n @ y" m "''processed_blocks:'' @ n" "unat (b div windowSize)"]
    by (simp add: windowKey_def FormatUint_def)
  from assms show False
  proof (cases rule: proc_keyE)
    case (2 m)
    then have "n @ '':block_progress'' = ''processed_blocks:'' @ n" by (intro split [of _ m]) simp
    from arg_cong [OF this, of length] show False by simp
  next
    case (3 m)
    then have "n @ '':block'' = ''processed_blocks:'' @ n" by (intro split [of _ m]) simp
    from arg_cong [OF this, of length] show False by simp
  next
    case 1
    with k have "length (n @ '':tip'') = length (windowKey n b)" by simp
    then show False by (simp add: windowKey_def)
  qed
qed

section \<open>The contract\<close>

locale event_env =
  fixes S :: "'w Storage" and pub :: "'w Publisher" and network :: BlockchainType
    and V :: "('w, 'v) event_view"
  assumes lookup_silent:
      "ev_winv V w \<Longrightarrow> st_IsWatchedWallet S network a w = (r, w') \<Longrightarrow> silent V w w'"
    and lookup_val:
      "ev_winv V w \<Longrightarrow> ev_sinv V w \<Longrightarrow> st_IsWatchedWallet S network a w = (Inr v, w') \<Longrightarrow>
       v = wallet_of (ev_watched V w) a"
    and lookup_ok:
      "ev_winv V w \<Longrightarrow> ev_sinv V w \<Longrightarrow> ev_healthy V \<Longrightarrow>
       \<exists>v w'. st_IsWatchedWallet S network a w = (Inr v, w')"
    and deposit_emits:
      "ev_winv V w \<Longrightarrow> pub_PublishDeposit pub d w = (ro, w') \<Longrightarrow> emits V (ro = None) [PDeposit d] w w'"
    and deposit_ok:
      "ev_winv V w \<Longrightarrow> ev_healthy V \<Longrightarrow> payload_ok (PDeposit d) \<Longrightarrow>
       pub_PublishDeposit pub d w = (ro, w') \<Longrightarrow> ro = None"
    and withdrawal_emits:
      "ev_winv V w \<Longrightarrow> pub_PublishWithdrawal pub x w = (ro, w') \<Longrightarrow> emits V (ro = None) [PWithdrawal x] w w'"
    and withdrawal_ok:
      "ev_winv V w \<Longrightarrow> ev_healthy V \<Longrightarrow> payload_ok (PWithdrawal x) \<Longrightarrow>
       pub_PublishWithdrawal pub x w = (ro, w') \<Longrightarrow> ro = None"
    and getTxs_silent:
      "ev_winv V w \<Longrightarrow> st_GetProcessedTransactions S network b w = (rl, w') \<Longrightarrow> silent V w w'"
    and addTx_silent:
      "ev_winv V w \<Longrightarrow> st_AddProcessedTransaction S network b h w = (ro, w') \<Longrightarrow> silent V w w'"
    and clear_silent:
      "ev_winv V w \<Longrightarrow> st_ClearBlockProgress S network b w = (ro, w') \<Longrightarrow> silent V w w'"
    and getCache_silent:
      "ev_winv V w \<Longrightarrow> proc_key network k \<Longrightarrow> st_GetCache S k w = (rs, w') \<Longrightarrow> silent V w w'"
    and setCache_silent:
      "ev_winv V w \<Longrightarrow> proc_key network k \<Longrightarrow> st_SetCache S k m ttl w = (ro, w') \<Longrightarrow> silent V w w'"
begin

text \<open>The publisher as the base tracker passes it on.\<close>

lemma bt_deposit_emits:
  "ev_winv V w \<Longrightarrow> bt_PublishDeposit pub d w = (r, w') \<Longrightarrow> emits V (r = None) [PDeposit d] w w'"
  using deposit_emits [of w d] by (auto simp: bt_PublishDeposit_def split: prod.splits option.splits)

lemma bt_withdrawal_emits:
  "ev_winv V w \<Longrightarrow> bt_PublishWithdrawal pub x w = (r, w') \<Longrightarrow> emits V (r = None) [PWithdrawal x] w w'"
  using withdrawal_emits [of w x] by (auto simp: bt_PublishWithdrawal_def split: prod.splits option.splits)

lemma bt_deposit_ok:
  "ev_winv V w \<Longrightarrow> ev_healthy V \<Longrightarrow> payload_ok (PDeposit d) \<Longrightarrow> bt_PublishDeposit pub d w = (r, w') \<Longrightarrow> r = None"
  using deposit_ok [of w d] by (auto simp: bt_PublishDeposit_def split: prod.splits option.splits)

lemma bt_withdrawal_ok:
  "ev_winv V w \<Longrightarrow> ev_healthy V \<Longrightarrow> payload_ok (PWithdrawal x) \<Longrightarrow>
   bt_PublishWithdrawal pub x w = (r, w') \<Longrightarrow> r = None"
  using withdrawal_ok [of w x] by (auto simp: bt_PublishWithdrawal_def split: prod.splits option.splits)

text \<open>Two lookups in a row, as every transfer makes them for its sender and its recipient.\<close>

lemma lookup2:
  assumes "ev_winv V w" "st_IsWatchedWallet S network a w = (Inr v, w1)"
    and "st_IsWatchedWallet S network b w1 = (r, w2)"
  shows "silent V w w2"
    "ev_sinv V w \<Longrightarrow> v = wallet_of (ev_watched V w) a"
    "ev_sinv V w \<Longrightarrow> r = Inr u \<Longrightarrow> u = wallet_of (ev_watched V w) b"
    "ev_sinv V w \<Longrightarrow> ev_healthy V \<Longrightarrow> \<exists>u. r = Inr u"
proof -
  note s1 = lookup_silent [OF assms(1,2)]
  note w1 = emits_winv [OF s1]
  show "silent V w w2" using silent_then [OF s1 lookup_silent [OF w1 assms(3)]] .
  assume i: "ev_sinv V w"
  show "v = wallet_of (ev_watched V w) a" using lookup_val [OF assms(1) i assms(2)] .
  note i1 = emits_watched [OF s1 i]
  show "r = Inr u \<Longrightarrow> u = wallet_of (ev_watched V w) b"
    using lookup_val [of w1 b u w2] w1 i1 assms(3) by simp
  show "ev_healthy V \<Longrightarrow> \<exists>u. r = Inr u"
    using lookup_ok [OF w1 i1 [THEN conjunct1], of b] assms(3) by auto
qed

lemma lookup_healthy:
  assumes "ev_winv V w" "ev_sinv V w" "ev_healthy V" "st_IsWatchedWallet S network a w = (r, w')"
  shows "\<exists>v. r = Inr v"
  using lookup_ok [OF assms(1,2,3), of a] assms(4) by auto

text \<open>
  The step every transfer makes: look up both ends, publish a withdrawal when only the sender is
  watched and a deposit when the recipient is; a failed lookup ends it. \<open>pd\<close> and \<open>pw\<close> publish.
\<close>

definition pairStep :: "(string \<Rightarrow> 'w \<Rightarrow> 'w) \<Rightarrow> (string \<Rightarrow> 'w \<Rightarrow> 'w) \<Rightarrow> string \<Rightarrow> string \<Rightarrow> 'w \<Rightarrow> 'w" where
  "pairStep pd pw from' to' w =
     (case st_IsWatchedWallet S network from' w of
        (Inl err, w1) \<Rightarrow> w1
      | (Inr (fid, fw), w1) \<Rightarrow> (case st_IsWatchedWallet S network to' w1 of
          (Inl err, w2) \<Rightarrow> w2
        | (Inr (tid, tw), w2) \<Rightarrow>
            let w3 = (if fw \<and> \<not> tw then pw fid w2 else w2) in if \<not> tw then w3 else pd tid w3))"

lemma pairStep_cases:
  assumes w: "ev_winv V w"
  obtains (failed) "silent V w (pairStep pd pw from' to' w)" "ev_sinv V w \<Longrightarrow> \<not> ev_healthy V"
    | (unwatched) "silent V w (pairStep pd pw from' to' w)"
        "ev_sinv V w \<Longrightarrow> ev_watched V w to' = None \<and> ev_watched V w from' = None"
    | (deposit) tid w2 where "silent V w w2" "pairStep pd pw from' to' w = pd tid w2"
        "ev_sinv V w \<Longrightarrow> ev_watched V w to' = Some tid"
    | (withdrawal) fid w2 where "silent V w w2" "pairStep pd pw from' to' w = pw fid w2"
        "ev_sinv V w \<Longrightarrow> ev_watched V w to' = None \<and> ev_watched V w from' = Some fid"
proof -
  obtain r1 w1 where l1: "st_IsWatchedWallet S network from' w = (r1, w1)"
    by (cases "st_IsWatchedWallet S network from' w")
  note s1 = lookup_silent [OF w l1]
  show thesis
  proof (cases r1)
    case (Inl err)
    then show thesis
      using l1 s1 lookup_healthy [OF w _ _ l1] failed by (auto simp: pairStep_def)
  next
    case (Inr v)
    obtain fid fw where v: "v = (fid, fw)" by (cases v)
    obtain r2 w2 where l2: "st_IsWatchedWallet S network to' w1 = (r2, w2)"
      by (cases "st_IsWatchedWallet S network to' w1")
    note L = lookup2 [OF w l1 [unfolded Inr v] l2]
    show thesis
    proof (cases r2)
      case (Inl err)
      then show thesis using L(1,4) l1 l2 Inr v failed by (auto simp: pairStep_def)
    next
      case r2: (Inr u)
      obtain tid tw where u: "u = (tid, tw)" by (cases u)
      have look: "wallet_of (ev_watched V w) from' = (fid, fw)" "wallet_of (ev_watched V w) to' = (tid, tw)"
        if "ev_sinv V w" using that L(2,3) r2 u by simp_all
      have "pairStep pd pw from' to' w = (if tw then pd tid w2 else if fw then pw fid w2 else w2)"
        using l1 l2 Inr r2 u v by (simp add: pairStep_def)
      then show thesis
        using look L(1) unwatched deposit [of w2 tid] withdrawal [of w2 fid] by (cases tw; cases fw) auto
    qed
  qed
qed

definition transferStep ::
  "(string \<Rightarrow> WalletDeposit) \<Rightarrow> (string \<Rightarrow> WalletWithdrawal) \<Rightarrow> string \<Rightarrow> string \<Rightarrow> 'w \<Rightarrow> 'w" where
  "transferStep mkD mkW =
     pairStep (\<lambda>i w. snd (bt_PublishDeposit pub (mkD i) w)) (\<lambda>i w. snd (bt_PublishWithdrawal pub (mkW i) w))"

lemma transferStep_follows:
  assumes w: "ev_winv V w"
    and ok: "c \<Longrightarrow> ev_healthy V" "\<And>i. c \<Longrightarrow> payload_ok (PDeposit (mkD i))"
      "\<And>i. c \<Longrightarrow> payload_ok (PWithdrawal (mkW i))"
  shows "follows V c (pairEvents mkD mkW from' to') w (transferStep mkD mkW from' to' w)"
  unfolding transferStep_def
  using w
proof (cases rule: pairStep_cases [where pd = "\<lambda>i w. snd (bt_PublishDeposit pub (mkD i) w)"
      and pw = "\<lambda>i w. snd (bt_PublishWithdrawal pub (mkW i) w)" and from' = from' and to' = to'])
  case (deposit tid w2)
  obtain x w' where d: "bt_PublishDeposit pub (mkD tid) w2 = (x, w')"
    by (cases "bt_PublishDeposit pub (mkD tid) w2")
  note w2 = emits_winv [OF deposit(1)]
  show "follows V c (pairEvents mkD mkW from' to') w (pairStep (\<lambda>i w. snd (bt_PublishDeposit pub (mkD i) w))
      (\<lambda>i w. snd (bt_PublishWithdrawal pub (mkW i) w)) from' to' w)"
    unfolding deposit(2) d snd_conv
    by (rule followsI [OF deposit(1) bt_deposit_emits [OF w2 d]])
      (use deposit(3) ok bt_deposit_ok [OF w2 _ _ d] in \<open>auto simp: pairEvents_def\<close>)
next
  case (withdrawal fid w2)
  obtain x w' where d: "bt_PublishWithdrawal pub (mkW fid) w2 = (x, w')"
    by (cases "bt_PublishWithdrawal pub (mkW fid) w2")
  note w2 = emits_winv [OF withdrawal(1)]
  show "follows V c (pairEvents mkD mkW from' to') w (pairStep (\<lambda>i w. snd (bt_PublishDeposit pub (mkD i) w))
      (\<lambda>i w. snd (bt_PublishWithdrawal pub (mkW i) w)) from' to' w)"
    unfolding withdrawal(2) d snd_conv
    by (rule followsI [OF withdrawal(1) bt_withdrawal_emits [OF w2 d]])
      (use withdrawal(3) ok bt_withdrawal_ok [OF w2 _ _ d] in \<open>auto simp: pairEvents_def\<close>)
qed (use ok(1) in \<open>auto simp: pairEvents_def intro!: follows_stuck\<close>)

text \<open>The same where publishing reads the time first: the times of the events are left out.\<close>

lemma pairStep_followsU:
  assumes w: "ev_winv V w" and ok: "c \<Longrightarrow> ev_healthy V"
    and pd: "\<And>i w. ev_winv V w \<Longrightarrow> followsU V c (\<lambda>m. [PDeposit (mkD i)]) w (pd i w)"
    and pw: "\<And>i w. ev_winv V w \<Longrightarrow> followsU V c (\<lambda>m. [PWithdrawal (mkW i)]) w (pw i w)"
  shows "followsU V c (pairEvents mkD mkW from' to') w (pairStep pd pw from' to' w)"
  using w
proof (cases rule: pairStep_cases [where pd = pd and pw = pw and from' = from' and to' = to'])
  case (deposit tid w2)
  show ?thesis unfolding deposit(2)
    by (rule followsU_cong [OF silent_followsU [OF deposit(1) pd [OF emits_winv [OF deposit(1)]]]])
      (use deposit(3) in \<open>auto simp: pairEvents_def\<close>)
next
  case (withdrawal fid w2)
  show ?thesis unfolding withdrawal(2)
    by (rule followsU_cong [OF silent_followsU [OF withdrawal(1) pw [OF emits_winv [OF withdrawal(1)]]]])
      (use withdrawal(3) in \<open>auto simp: pairEvents_def\<close>)
qed (use ok in \<open>auto simp: pairEvents_def intro!: followsU_stuck\<close>)

lemma followsU_fold:
  assumes step: "\<And>x w. ev_winv V w \<Longrightarrow> followsU V c (f x) w (g x w)"
  shows "ev_winv V w \<Longrightarrow> followsU V c (\<lambda>m. concat (map (\<lambda>x. f x m) xs)) w (fold g xs w)"
proof (induction xs arbitrary: w)
  case Nil
  then show ?case by (simp add: followsU_silent emits_refl)
next
  case (Cons x xs)
  note s = step [OF Cons.prems, of x]
  show ?case using followsU_trans [OF s Cons.IH [OF followsU_winv [OF s]], of c] by simp
qed

lemma follows_fold:
  assumes step: "\<And>x w. ev_winv V w \<Longrightarrow> follows V c (f x) w (g x w)"
  shows "ev_winv V w \<Longrightarrow> follows V c (\<lambda>m. concat (map (\<lambda>x. f x m) xs)) w (fold g xs w)"
proof (induction xs arbitrary: w)
  case Nil
  then show ?case by (simp add: follows_silent emits_refl)
next
  case (Cons x xs)
  note s = step [OF Cons.prems, of x]
  show ?case using follows_trans [OF s Cons.IH [OF follows_winv [OF s]], of c] by simp
qed

end

section \<open>Restricting the worlds\<close>

text \<open>
  A property \<open>J\<close> of the world that storage, watch list and publisher keep (for instance one of the chain's client)
  can be added to the invariant of a view.
\<close>

definition restrictV :: "('w \<Rightarrow> bool) \<Rightarrow> ('w, 'v) event_view \<Rightarrow> ('w, 'v) event_view" where
  "restrictV J V = V\<lparr>ev_winv := \<lambda>w. ev_winv V w \<and> J w\<rparr>"

lemma restrictV_simps [simp]:
  "ev_winv (restrictV J V) w \<longleftrightarrow> ev_winv V w \<and> J w" "ev_sinv (restrictV J V) = ev_sinv V"
  "ev_frame (restrictV J V) = ev_frame V" "ev_watched (restrictV J V) = ev_watched V"
  "ev_published (restrictV J V) = ev_published V" "ev_healthy (restrictV J V) = ev_healthy V"
  by (simp_all add: restrictV_def)

lemma emits_restrict: "emits (restrictV J V) c es w w' \<longleftrightarrow> emits V c es w w' \<and> J w'"
  by (auto simp: emits_def)

lemma followsU_restrict: "followsU (restrictV J V) c f w w' \<longleftrightarrow> followsU V c f w w' \<and> J w'"
  by (auto simp: followsU_def)

text \<open>What storage and publisher must keep for that.\<close>

definition keeps :: "('w \<Rightarrow> bool) \<Rightarrow> 'w Storage \<Rightarrow> 'w Publisher \<Rightarrow> BlockchainType \<Rightarrow> bool" where
  "keeps J S pub network \<longleftrightarrow> (\<forall>w. J w \<longrightarrow>
     (\<forall>a. J (snd (st_IsWatchedWallet S network a w))) \<and>
     (\<forall>d. J (snd (pub_PublishDeposit pub d w))) \<and> (\<forall>x. J (snd (pub_PublishWithdrawal pub x w))) \<and>
     (\<forall>b. J (snd (st_GetProcessedTransactions S network b w))) \<and>
     (\<forall>b h. J (snd (st_AddProcessedTransaction S network b h w))) \<and>
     (\<forall>b. J (snd (st_ClearBlockProgress S network b w))) \<and>
     (\<forall>k. J (snd (st_GetCache S k w))) \<and> (\<forall>k m ttl. J (snd (st_SetCache S k m ttl w))))"

lemma keepsD:
  assumes "keeps J S pub network" "J w"
  shows "st_IsWatchedWallet S network a w = (r1, w') \<Longrightarrow> J w'" "pub_PublishDeposit pub d w = (r2, w') \<Longrightarrow> J w'"
    "pub_PublishWithdrawal pub x w = (r3, w') \<Longrightarrow> J w'" "st_GetProcessedTransactions S network b w = (r4, w') \<Longrightarrow> J w'"
    "st_AddProcessedTransaction S network b h w = (r5, w') \<Longrightarrow> J w'" "st_ClearBlockProgress S network b w = (r6, w') \<Longrightarrow> J w'"
    "st_GetCache S k w = (r7, w') \<Longrightarrow> J w'" "st_SetCache S k m ttl w = (r8, w') \<Longrightarrow> J w'"
  using assms unfolding keeps_def by (metis snd_conv)+

lemma event_env_restrict:
  assumes "event_env S pub network V" "keeps J S pub network"
  shows "event_env S pub network (restrictV J V)"
proof -
  note K = keepsD [OF assms(2)]
  note D = event_env.lookup_silent event_env.lookup_val event_env.lookup_ok event_env.deposit_emits event_env.deposit_ok
    event_env.withdrawal_emits event_env.withdrawal_ok event_env.getTxs_silent event_env.addTx_silent event_env.clear_silent
    event_env.getCache_silent event_env.setCache_silent
  show ?thesis
    by (rule event_env.intro)
      (simp_all only: restrictV_simps emits_restrict, (blast intro: K D [OF assms(1)])+)
qed

section \<open>The contract on Redis and RabbitMQ\<close>

text \<open>Commands of Redis leave the broker's messages alone; a healthy Redis answers every command.\<close>

definition redis_apart :: "'e redis_exec \<Rightarrow> ('e \<Rightarrow> amqp_message list) \<Rightarrow> bool" where
  "redis_apart ex sent \<longleftrightarrow> (\<forall>c e. sent (snd (ex c e)) = sent e)"

definition redis_healthy :: "'e redis_exec \<Rightarrow> ('e \<Rightarrow> keyspace) \<Rightarrow> bool" where
  "redis_healthy ex view \<longleftrightarrow> (\<forall>c e. redis_spec c (view e) (fst (ex c e)) (view (snd (ex c e))))"

definition services_ok ::
  "'e redis_exec \<Rightarrow> ('e \<Rightarrow> keyspace) \<Rightarrow> 'e amqp_send \<Rightarrow> 'e clock \<Rightarrow> ('e \<Rightarrow> amqp_message list) \<Rightarrow> bool" where
  "services_ok ex view amqp clock sent \<longleftrightarrow>
     redis_laws ex view \<and> redis_apart ex sent \<and> amqp_laws amqp clock sent view"

text \<open>The wallets of the network are in a hash and its Bloom filter, if there is one, knows them all.\<close>

definition wallets_ok :: "'f bloom_lib \<Rightarrow> ('e \<Rightarrow> keyspace) \<Rightarrow> BlockchainType \<Rightarrow> ('e, 'f, 'm) world_scheme \<Rightarrow> bool" where
  "wallets_ok BL view network w \<longleftrightarrow>
     filter_sound BL view network w \<and> is_hash_key (keys view w) (walletsKey network)"

definition redisView ::
  "'e redis_exec \<Rightarrow> 'f bloom_lib \<Rightarrow> ('e \<Rightarrow> keyspace) \<Rightarrow> 'e amqp_send \<Rightarrow> 'e clock \<Rightarrow>
   ('e \<Rightarrow> amqp_message list) \<Rightarrow> BlockchainType \<Rightarrow>
   (('e, 'f, 'm) world_scheme, (u64 \<Rightarrow> bool) \<times> u64 \<times> bool) event_view" where
  "redisView ex BL view amqp clock sent network = \<lparr>
     ev_winv = (\<lambda>w. services_ok ex view amqp clock sent),
     ev_sinv = wallets_ok BL view network,
     ev_frame = (\<lambda>w. (marked view network w, lastBlock view network w, last_wf view network w)),
     ev_watched = watched view network,
     ev_published = published sent,
     ev_healthy = (redis_healthy ex view \<and> amqp_healthy amqp clock)\<rparr>"

lemma redisView_simps [simp]:
  "ev_winv (redisView ex BL view amqp clock sent n) w = services_ok ex view amqp clock sent"
  "ev_sinv (redisView ex BL view amqp clock sent n) = wallets_ok BL view n"
  "ev_frame (redisView ex BL view amqp clock sent n) w = (marked view n w, lastBlock view n w, last_wf view n w)"
  "ev_watched (redisView ex BL view amqp clock sent n) = watched view n"
  "ev_published (redisView ex BL view amqp clock sent n) = published sent"
  "ev_healthy (redisView ex BL view amqp clock sent n) \<longleftrightarrow> redis_healthy ex view \<and> amqp_healthy amqp clock"
  by (simp_all add: redisView_def)

text \<open>A step that leaves the keys of the network and the published messages as they are is silent.\<close>

lemma silent_redis:
  assumes "services_ok ex view amqp clock sent"
    and "progress_same view n w w'" "keys view w' (walletsKey n) = keys view w (walletsKey n)"
    and "wbloom w' = wbloom w" "sent (env w') = sent (env w)"
  shows "silent (redisView ex BL view amqp clock sent n) w w'"
proof -
  have "watched view n w' = watched view n w"
    unfolding watched_def by (rule hash_at_cong) (rule assms(3))
  moreover have "is_hash_key (keys view w') (walletsKey n) = is_hash_key (keys view w) (walletsKey n)"
    by (simp add: is_hash_key_def assms(3))
  ultimately show ?thesis using assms
    by (simp add: emits_def wallets_ok_def filter_sound_def progress_same_def published_def)
qed

lemma rcmd_sent: "redis_apart ex sent \<Longrightarrow> rcmd ex c w = (rep, w') \<Longrightarrow> sent (env w') = sent (env w)"
  unfolding redis_apart_def rcmd_def by (auto split: prod.splits) (metis snd_conv)

lemma silent_proc_cmd:
  assumes "services_ok ex view amqp clock sent" "rcmd ex c w = (rep, w')" "proc_key n (cmd_key c)"
  shows "silent (redisView ex BL view amqp clock sent n) w w'"
proof (rule silent_redis [OF assms(1)])
  have laws: "redis_laws ex view" "redis_apart ex sent" using assms(1) by (simp_all add: services_ok_def)
  show "progress_same view n w w'"
    by (rule rcmd_other_key_same [OF laws(1) assms(2)])
      (use proc_key_not_last [OF assms(3)] proc_key_not_window [OF assms(3)] in blast)+
  show "keys view w' (walletsKey n) = keys view w (walletsKey n)"
    by (rule rcmd_frame [OF laws(1) assms(2)]) (use proc_key_not_wallets [OF assms(3)] in simp)
  show "wbloom w' = wbloom w" using rcmd_law [OF laws(1) assms(2)] by simp
  show "sent (env w') = sent (env w)" by (rule rcmd_sent [OF laws(2) assms(2)])
qed

text \<open>A change of the outside world that leaves Redis and the broker alone.\<close>

lemma silent_env:
  assumes "services_ok ex view amqp clock sent" "view (env w') = view (env w)"
    and "sent (env w') = sent (env w)" "wbloom w' = wbloom w"
  shows "silent (redisView ex BL view amqp clock sent n) w w'"
proof -
  have "keys view w' = keys view w" by (simp add: keys_def assms(2))
  from views_cong [OF this] this show ?thesis
    by (intro silent_redis [OF assms(1)]) (simp_all add: progress_same_def assms(3,4))
qed

lemma proc_keys [simp]: "proc_key n (progressKey n b)" "proc_key n (blockCacheKey n b)" "proc_key n (tipCacheKey n)"
  by (auto simp: proc_key_def)

lemma IsWatched_sent:
  "redis_apart ex sent \<Longrightarrow> IsWatchedWallet ex BL n a w = (r, w') \<Longrightarrow> sent (env w') = sent (env w)"
  using rcmd_sent by (fastforce simp: IsWatchedWallet_def split: if_splits prod.splits sum.splits)

lemma IsWatched_keys:
  assumes "redis_laws ex view" "IsWatchedWallet ex BL n a w = (r, w')"
  shows "keys view w' = keys view w" "wbloom w' = wbloom w"
proof -
  obtain rep w1 where c: "rcmd ex (HGet (walletsKey n) a) w = (rep, w1)"
    by (cases "rcmd ex (HGet (walletsKey n) a) w")
  have "w' = w \<or> w' = w1"
    using assms(2) c by (auto simp: IsWatchedWallet_def split: if_splits sum.splits)
  with rcmd_read [OF assms(1) c] show "keys view w' = keys view w" "wbloom w' = wbloom w" by auto
qed

lemma silent_lookup:
  assumes "services_ok ex view amqp clock sent" "IsWatchedWallet ex BL' n' a w = (r, w')"
  shows "silent (redisView ex BL view amqp clock sent n) w w'"
proof -
  have laws: "redis_laws ex view" "redis_apart ex sent" using assms(1) by (simp_all add: services_ok_def)
  note k = IsWatched_keys [OF laws(1) assms(2)]
  from views_cong [OF k(1)] k show ?thesis
    by (intro silent_redis [OF assms(1)])
      (simp_all add: progress_same_def IsWatched_sent [OF laws(2) assms(2)])
qed

lemma IsWatched_healthy:
  assumes "redis_healthy ex view" "is_hash_key (keys view w) (walletsKey n)"
  shows "\<exists>v w'. IsWatchedWallet ex BL n a w = (Inr v, w')"
proof -
  obtain rep w1 where c: "rcmd ex (HGet (walletsKey n) a) w = (rep, w1)"
    by (cases "rcmd ex (HGet (walletsKey n) a) w")
  obtain e' where x: "ex (HGet (walletsKey n) a) (env w) = (rep, e')"
    using c by (auto simp: rcmd_def split: prod.splits)
  have "redis_spec (HGet (walletsKey n) a) (keys view w) rep (view e')"
    using assms(1) x unfolding redis_healthy_def keys_def by (metis fst_conv snd_conv)
  then have "rep = RNil \<or> (\<exists>s. rep = RString s)" using assms(2) by (auto split: option.splits)
  with c show ?thesis by (auto simp: IsWatchedWallet_def)
qed

lemma emits_send:
  assumes "services_ok ex view amqp clock sent" "view (env w') = view (env w)" "wbloom w' = wbloom w"
    and "published sent w' = published sent w @ [p] \<or> r \<noteq> None \<and> published sent w' = published sent w"
  shows "emits (redisView ex BL view amqp clock sent n) (r = None) [p] w w'"
proof -
  have k: "keys view w' = keys view w" by (simp add: keys_def assms(2))
  then have "wallets_ok BL view n w' = wallets_ok BL view n w"
    by (simp add: wallets_ok_def filter_sound_def watched_def assms(3))
  with views_cong [OF k] assms(1,4) show ?thesis by (auto simp: emits_def)
qed

lemma publish_deposit_view:
  assumes "services_ok ex view amqp clock sent" "PublishDeposit amqp clock p d w = (r, w')"
  shows "emits (redisView ex BL view amqp clock sent n) (r = None) [PDeposit d] w w'"
    "amqp_healthy amqp clock \<Longrightarrow> time_marshals (dTimestamp d) \<Longrightarrow> r = None"
proof -
  note D = deposit_sent [OF _ assms(2), of sent view]
  have l: "amqp_laws amqp clock sent view" using assms(1) by (simp add: services_ok_def)
  show "emits (redisView ex BL view amqp clock sent n) (r = None) [PDeposit d] w w'"
    using D [OF l] by (intro emits_send [OF assms(1)]) (auto simp: published_def)
  show "amqp_healthy amqp clock \<Longrightarrow> time_marshals (dTimestamp d) \<Longrightarrow> r = None" using D [OF l] by blast
qed

lemma publish_withdrawal_view:
  assumes "services_ok ex view amqp clock sent" "PublishWithdrawal amqp clock p x w = (r, w')"
  shows "emits (redisView ex BL view amqp clock sent n) (r = None) [PWithdrawal x] w w'"
    "amqp_healthy amqp clock \<Longrightarrow> time_marshals (wTimestamp x) \<Longrightarrow> r = None"
proof -
  note D = withdrawal_message [OF _ assms(2), of sent view]
  have l: "amqp_laws amqp clock sent view" using assms(1) by (simp add: services_ok_def)
  show "emits (redisView ex BL view amqp clock sent n) (r = None) [PWithdrawal x] w w'"
    using D [OF l] by (intro emits_send [OF assms(1)]) (auto simp: published_def)
  show "amqp_healthy amqp clock \<Longrightarrow> time_marshals (wTimestamp x) \<Longrightarrow> r = None" using D [OF l] by blast
qed

interpretation re: event_env "redisStorage ex BL" "rabbitPublisher amqp clock p" network
    "redisView ex BL view amqp clock sent network" for ex BL amqp clock p network view sent
proof unfold_locales
  let ?V = "redisView ex BL view amqp clock sent network"
  fix w :: "('a, 'b, 'c) world_scheme" and a r w' v d ro x b rl h k rs m ttl
  assume I: "ev_winv ?V w"
  then have ok: "services_ok ex view amqp clock sent" by simp
  then have laws: "redis_laws ex view" "redis_apart ex sent" by (simp_all add: services_ok_def)
  show "st_IsWatchedWallet (redisStorage ex BL) network a w = (r, w') \<Longrightarrow> silent ?V w w'"
    unfolding st_redis by (rule silent_lookup [OF ok])
  show "ev_sinv ?V w \<Longrightarrow> st_IsWatchedWallet (redisStorage ex BL) network a w = (Inr v, w') \<Longrightarrow>
      v = wallet_of (ev_watched ?V w) a"
    using IsWatched_correct [OF laws(1), of BL network w a "Inr v" w'] unfolding st_redis
    by (simp only: redisView_simps wallets_ok_def wallet_of_def)
  show "ev_sinv ?V w \<Longrightarrow> ev_healthy ?V \<Longrightarrow>
      \<exists>v w'. st_IsWatchedWallet (redisStorage ex BL) network a w = (Inr v, w')"
    using IsWatched_healthy by (auto simp: wallets_ok_def)
  show "pub_PublishDeposit (rabbitPublisher amqp clock p) d w = (ro, w') \<Longrightarrow>
      emits ?V (ro = None) [PDeposit d] w w'"
    using publish_deposit_view(1) [OF ok] by (simp add: rabbitPublisher_def)
  show "ev_healthy ?V \<Longrightarrow> payload_ok (PDeposit d) \<Longrightarrow>
      pub_PublishDeposit (rabbitPublisher amqp clock p) d w = (ro, w') \<Longrightarrow> ro = None"
    using publish_deposit_view(2) [OF ok] by (simp add: rabbitPublisher_def payload_ok_def)
  show "pub_PublishWithdrawal (rabbitPublisher amqp clock p) x w = (ro, w') \<Longrightarrow>
      emits ?V (ro = None) [PWithdrawal x] w w'"
    using publish_withdrawal_view(1) [OF ok] by (simp add: rabbitPublisher_def)
  show "ev_healthy ?V \<Longrightarrow> payload_ok (PWithdrawal x) \<Longrightarrow>
      pub_PublishWithdrawal (rabbitPublisher amqp clock p) x w = (ro, w') \<Longrightarrow> ro = None"
    using publish_withdrawal_view(2) [OF ok] by (simp add: rabbitPublisher_def payload_ok_def)
  show "st_GetProcessedTransactions (redisStorage ex BL) network b w = (rl, w') \<Longrightarrow> silent ?V w w'"
    using silent_proc_cmd [OF ok, of "SMembers (progressKey network b)" w]
    by (auto simp: GetProcessedTransactions_def split: prod.splits)
  show "st_AddProcessedTransaction (redisStorage ex BL) network b h w = (ro, w') \<Longrightarrow> silent ?V w w'"
    using silent_proc_cmd [OF ok, of "SAdd (progressKey network b) h" w]
    by (auto simp: AddProcessedTransaction_def split: prod.splits)
  show "st_ClearBlockProgress (redisStorage ex BL) network b w = (ro, w') \<Longrightarrow> silent ?V w w'"
    using silent_proc_cmd [OF ok, of "Del (progressKey network b)" w]
    by (auto simp: ClearBlockProgress_def split: prod.splits)
  show "proc_key network k \<Longrightarrow> st_GetCache (redisStorage ex BL) k w = (rs, w') \<Longrightarrow> silent ?V w w'"
    using silent_proc_cmd [OF ok, of "GetKey k" w]
    by (auto simp: GetCache_def split: prod.splits sum.splits if_splits)
  show "proc_key network k \<Longrightarrow> st_SetCache (redisStorage ex BL) k m ttl w = (ro, w') \<Longrightarrow> silent ?V w w'"
    using silent_proc_cmd [OF ok, of "SetKey k (projr m) ttl" w] emits_refl [OF I]
    by (auto simp: SetCache_def split: prod.splits sum.splits)
qed

end
