(* ===== verification/Tracker_Queues.thy ===== *)
theory Tracker_Queues
  imports Base_Tracker
begin

text \<open>
  What the base tracker puts on its queues: worker and capacity defaults, and that polling and
  catch-up enqueue a contiguous run of blocks, in order, from the block after the stored mark up to
  the safe head, stopping early only when a queue is full or the tracker is being stopped.
\<close>

section \<open>Defaults\<close>

lemma go_int_small: "- (2 ^ 63) \<le> x \<Longrightarrow> x < 2 ^ 63 \<Longrightarrow> go_int x = x"
  unfolding go_int_def by (simp add: signed_take_bit_int_eq_self)

section \<open>Runs of jobs\<close>

definition jobs :: "string \<Rightarrow> u64 \<Rightarrow> nat \<Rightarrow> BlockJob list" where
  "jobs src b k = map (\<lambda>i. \<lparr>jobNumber = b + of_nat i, jobSource = src\<rparr>) [0..<k]"

lemma jobs_0 [simp]: "jobs src b 0 = []"
  by (simp add: jobs_def)

lemma length_jobs [simp]: "length (jobs src b k) = k"
  by (simp add: jobs_def)

lemma jobs_Suc: "jobs src b (Suc k) = \<lparr>jobNumber = b, jobSource = src\<rparr> # jobs src (b + 1) k"
proof -
  have "jobs src b (Suc k) = \<lparr>jobNumber = b, jobSource = src\<rparr> #
      map (\<lambda>i. \<lparr>jobNumber = b + of_nat (Suc i), jobSource = src\<rparr>) [0..<k]"
    unfolding jobs_def upt_conv_Cons [OF zero_less_Suc] map_Suc_upt [symmetric] by simp
  then show ?thesis by (simp add: jobs_def algebra_simps)
qed

lemma jobs_append: "jobs src b m @ jobs src (b + of_nat m) k = jobs src b (m + k)"
proof (induction m arbitrary: b)
  case (Suc m)
  from Suc [of "b + 1"] show ?case by (simp add: jobs_Suc add.assoc)
qed simp

text \<open>The part of the state that enqueueing does not touch.\<close>

definition enq_core :: "BaseTracker \<Rightarrow> BaseTracker" where
  "enq_core t = t\<lparr>realtimeCh := [], catchupCh := [], lastEnqueued := 0, skippedChannelFull := 0\<rparr>"

definition queueOf :: "string \<Rightarrow> BaseTracker \<Rightarrow> BlockJob list" where
  "queueOf src t = (if src = blockSourceCatchup then catchupCh t else realtimeCh t)"

definition otherQueue :: "string \<Rightarrow> BaseTracker \<Rightarrow> BlockJob list" where
  "otherQueue src t = (if src = blockSourceCatchup then realtimeCh t else catchupCh t)"

definition capOf :: "string \<Rightarrow> BaseTracker \<Rightarrow> int" where
  "capOf src t = (if src = blockSourceCatchup then catchupCap t else realtimeCap t)"

text \<open>Why an enqueue may fail: the queue is full, or the tracker is being stopped.\<close>

definition held_up :: "string \<Rightarrow> BaseTracker \<Rightarrow> bool" where
  "held_up src t \<longleftrightarrow> capOf src t \<le> int (length (queueOf src t)) \<or> cancelled t \<or> stopped t"

lemma enq_core_eqs:
  assumes "enq_core t' = enq_core t"
  shows "config t' = config t" "cancelled t' = cancelled t" "stopped t' = stopped t"
    "isRunning t' = isRunning t" "inFlightBlocks t' = inFlightBlocks t"
    "catchupCap t' = catchupCap t" "realtimeCap t' = realtimeCap t" "errorCount t' = errorCount t"
    "processedBlocks t' = processedBlocks t" "requeues t' = requeues t" "capOf src t' = capOf src t"
  using arg_cong [OF assms, of config] arg_cong [OF assms, of cancelled]
    arg_cong [OF assms, of stopped] arg_cong [OF assms, of isRunning]
    arg_cong [OF assms, of inFlightBlocks] arg_cong [OF assms, of catchupCap]
    arg_cong [OF assms, of realtimeCap] arg_cong [OF assms, of errorCount]
    arg_cong [OF assms, of processedBlocks] arg_cong [OF assms, of requeues]
  by (simp_all add: enq_core_def capOf_def)

text \<open>One enqueue: what it appends, and that a refusal has one of the two reasons.\<close>

lemma skipped_frame [simp]:
  "enq_core (t\<lparr>skippedChannelFull := n\<rparr>) = enq_core t"
  "queueOf src (t\<lparr>skippedChannelFull := n\<rparr>) = queueOf src t"
  "otherQueue src (t\<lparr>skippedChannelFull := n\<rparr>) = otherQueue src t"
  by (simp_all add: enq_core_def queueOf_def otherQueue_def)

lemma select_refused:
  "select_case pick (ready_cases room c s) \<noteq> SendReady \<Longrightarrow> room \<Longrightarrow> c \<or> s"
  by (auto simp: select_case_def ready_cases_def split: if_splits)

lemma branch_not_send:
  "sel \<noteq> SendReady \<Longrightarrow>
   (case sel of SendReady \<Rightarrow> a | CtxDone \<Rightarrow> b | StopClosed \<Rightarrow> b | TimerFired \<Rightarrow> c) = b \<or>
   (case sel of SendReady \<Rightarrow> a | CtxDone \<Rightarrow> b | StopClosed \<Rightarrow> b | TimerFired \<Rightarrow> c) = c"
  by (cases sel) auto

lemma enqueueJob_spec:
  assumes "src \<noteq> []" "enqueueJob pick \<lparr>jobNumber = n, jobSource = src\<rparr> t = (ok, t')"
  shows "enq_core t' = enq_core t \<and> otherQueue src t' = otherQueue src t \<and>
    queueOf src t' = queueOf src t @ (if ok then [\<lparr>jobNumber = n, jobSource = src\<rparr>] else []) \<and>
    (ok \<longrightarrow> int (length (queueOf src t)) < capOf src t) \<and>
    (\<not> ok \<longrightarrow> held_up src t)"
proof -
  define room where "room \<longleftrightarrow> int (length (queueOf src t)) < capOf src t"
  define sel where "sel = select_case pick (ready_cases room (cancelled t) (stopped t))"
  have e: "(ok, t') = (case sel of
      SendReady \<Rightarrow> (True, (if src = blockSourceCatchup
          then t\<lparr>catchupCh := catchupCh t @ [\<lparr>jobNumber = n, jobSource = src\<rparr>]\<rparr>
          else t\<lparr>realtimeCh := realtimeCh t @ [\<lparr>jobNumber = n, jobSource = src\<rparr>]\<rparr>)\<lparr>lastEnqueued := n\<rparr>)
    | CtxDone \<Rightarrow> (False, t) | StopClosed \<Rightarrow> (False, t)
    | TimerFired \<Rightarrow> (False, t\<lparr>skippedChannelFull := skippedChannelFull t + 1\<rparr>))"
    using assms by (cases "src = blockSourceCatchup")
      (simp_all add: enqueueJob_def Let_def sel_def room_def queueOf_def capOf_def cong: branch.case_cong)
  show ?thesis
  proof (cases "sel = SendReady")
    case True
    moreover have room using True select_SendReady unfolding sel_def by blast
    ultimately show ?thesis using e
      by (simp add: room_def enq_core_def otherQueue_def queueOf_def split: if_splits)
  next
    case False
    then have "held_up src t"
      using select_refused [of pick room "cancelled t" "stopped t"]
      by (auto simp: sel_def room_def held_up_def)
    moreover have "(ok, t') = (False, t) \<or>
        (ok, t') = (False, t\<lparr>skippedChannelFull := skippedChannelFull t + 1\<rparr>)"
      unfolding e by (rule branch_not_send [OF False])
    ultimately show ?thesis
    proof (elim disjE)
      assume h: "held_up src t" and "(ok, t') = (False, t)"
      then have "\<not> ok" "t' = t" by (simp_all only: prod.inject not_False_eq_True)
      then show ?thesis using h by simp
    next
      assume h: "held_up src t" and p: "(ok, t') = (False, t\<lparr>skippedChannelFull := skippedChannelFull t + 1\<rparr>)"
      have o: "\<not> ok" and q: "t' = t\<lparr>skippedChannelFull := skippedChannelFull t + 1\<rparr>"
        using p unfolding prod.inject by blast+
      show ?thesis unfolding q using o h skipped_frame by simp
    qed
  qed
qed


lemma held_up_cong:
  assumes "enq_core t' = enq_core t" "queueOf src t' = queueOf src t"
  shows "held_up src t' = held_up src t"
  using assms(2) enq_core_eqs [OF assms(1)] by (simp add: held_up_def)

text \<open>
  The number of blocks from \<open>b\<close> to the smaller of the two limits.
\<close>

definition blocks_upto :: "u64 \<Rightarrow> u64 \<Rightarrow> nat" where
  "blocks_upto b m = Suc (unat m) - unat b"

lemma blocks_upto_Suc:
  "b \<le> m \<Longrightarrow> unat m < 2 ^ 64 - 1 \<Longrightarrow> blocks_upto b m = Suc (blocks_upto (b + 1) m)"
  by (simp add: blocks_upto_def word_le_nat_alt unat_plus_one_u64)

text \<open>The outcome of enqueueing a range: a prefix of it is appended, all of it when nothing holds it up.\<close>

definition enqueued :: "string \<Rightarrow> u64 \<Rightarrow> nat \<Rightarrow> BaseTracker \<Rightarrow> nat \<Rightarrow> BaseTracker \<Rightarrow> bool" where
  "enqueued src b n t k t' \<longleftrightarrow>
     enq_core t' = enq_core t \<and> otherQueue src t' = otherQueue src t \<and>
     queueOf src t' = queueOf src t @ jobs src b k \<and> k \<le> n \<and> (k < n \<longrightarrow> held_up src t')"

text \<open>The three ways a round of the loop can go.\<close>

lemma enqueueRange_end: "\<not> b \<le> min bound safeHead \<Longrightarrow> enqueueRange pick src bound safeHead b t = (True, t)"
  by (subst enqueueRange.simps) auto

lemma enqueueRange_refused:
  "b \<le> min bound safeHead \<Longrightarrow>
   enqueueJob (pick b) \<lparr>jobNumber = b, jobSource = src\<rparr> t = (False, t1) \<Longrightarrow>
   enqueueRange pick src bound safeHead b t = (False, t1)"
  by (subst enqueueRange.simps) auto

lemma enqueueRange_next:
  "b \<le> min bound safeHead \<Longrightarrow>
   enqueueJob (pick b) \<lparr>jobNumber = b, jobSource = src\<rparr> t = (True, t1) \<Longrightarrow>
   enqueueRange pick src bound safeHead b t = enqueueRange pick src bound safeHead (b + 1) t1"
  by (subst enqueueRange.simps) auto

lemma enqueueRange_spec:
  assumes "enqueueRange pick src bound safeHead b t = (ok, t')" "src \<noteq> []"
    and "unat (min bound safeHead) < 2 ^ 64 - 1"
  shows "\<exists>k. enqueued src b (blocks_upto b (min bound safeHead)) t k t' \<and>
           (ok \<longleftrightarrow> k = blocks_upto b (min bound safeHead))"
  using assms
proof (induction pick src bound safeHead b t rule: enqueueRange.induct)
  case (1 pick src bound safeHead b t)
  let ?m = "min bound safeHead"
  show ?case
  proof (cases "b \<le> ?m")
    case False
    moreover have "blocks_upto b ?m = 0"
      using False by (simp add: blocks_upto_def word_le_nat_alt)
    ultimately show ?thesis
      using "1.prems"(1) by (auto simp: enqueued_def enqueueRange_end)
  next
    case True
    obtain ok1 t1 where e: "enqueueJob (pick b) \<lparr>jobNumber = b, jobSource = src\<rparr> t = (ok1, t1)"
      by (cases "enqueueJob (pick b) \<lparr>jobNumber = b, jobSource = src\<rparr> t")
    note E = enqueueJob_spec [OF "1.prems"(2) e]
    note n = blocks_upto_Suc [OF True "1.prems"(3)]
    show ?thesis
    proof (cases ok1)
      case False
      with "1.prems"(1) e True have "\<not> ok" "t' = t1" by (simp_all add: enqueueRange_refused)
      with False E n held_up_cong [of t1 t src] show ?thesis
        by (intro exI [of _ 0]) (auto simp: enqueued_def)
    next
      case ok1: True
      with "1.prems"(1) e True have r: "enqueueRange pick src bound safeHead (b + 1) t1 = (ok, t')"
        by (simp add: enqueueRange_next)
      have bs: "b \<le> bound" "\<not> safeHead < b" using True by auto
      obtain k where "enqueued src (b + 1) (blocks_upto (b + 1) ?m) t1 k t'"
        "ok \<longleftrightarrow> k = blocks_upto (b + 1) ?m"
        using "1.IH" [OF bs e [symmetric] _ r "1.prems"(2,3)] ok1 by auto
      with E ok1 n show ?thesis
        by (intro exI [of _ "Suc k"]) (simp add: enqueued_def jobs_Suc)
    qed
  qed
qed

section \<open>Catch-up returns and enqueues the whole range\<close>

lemma enqueued_held_up:
  "enqueued src b n t k t' \<Longrightarrow> cancelled t' \<or> stopped t' \<Longrightarrow> n \<le> n' \<Longrightarrow> enqueued src b n' t k t'"
  by (auto simp: enqueued_def held_up_def)

lemma enqueued_trans:
  assumes "enqueued src b n1 t n1 t1" "enqueued src (b + of_nat n1) n2 t1 k t2"
  shows "enqueued src b (n1 + n2) t (n1 + k) t2"
  using assms by (simp add: enqueued_def jobs_append [symmetric])

lemma catchupBatches_step:
  assumes "start \<le> cur" "end1 = min cur (start + batch - 1)"
    and "enqueueRange pick blockSourceCatchup end1 safe start t = (ok, t1)"
  shows "catchupBatches pick batch cur safe start t =
    (if \<not> ok \<or> cancelled t1 \<or> stopped t1 then Some t1
     else catchupBatches pick batch cur safe (start + batch) t1)"
proof -
  have "end1 = (if cur < start + batch - 1 then cur else start + batch - 1)"
    using assms(2) by (auto simp: min_def)
  then show ?thesis
    using assms(1,3) by (subst catchupBatches.simps) (simp add: Let_def)
qed

lemma batch_next:
  "unat cur + unat batch < 2 ^ 64 \<Longrightarrow> start \<le> cur \<Longrightarrow> unat (start + batch :: u64) = unat start + unat batch"
  by (simp add: unat_word_ariths word_le_nat_alt)

text \<open>A batch covers its share of the range, and the rest starts right after it.\<close>

lemma batch_split:
  fixes start cur batch safe :: u64
  assumes "0 < batch" "unat cur + unat batch < 2 ^ 64" "start \<le> cur"
  defines "n1 \<equiv> blocks_upto start (min (min cur (start + batch - 1)) safe)"
    and "n2 \<equiv> blocks_upto (start + batch) (min cur safe)"
  shows "blocks_upto start (min cur safe) = n1 + n2"
    and "0 < n2 \<Longrightarrow> start + of_nat n1 = start + batch"
    and "unat (min (min cur (start + batch - 1)) safe) < 2 ^ 64 - 1"
proof -
  have sb: "unat (start + batch) = unat start + unat batch"
    by (rule batch_next [OF assms(2,3)])
  moreover have "unat batch > 0" using assms(1) by (simp add: word_less_nat_alt)
  ultimately have e: "unat (start + batch - 1) = unat start + unat batch - 1"
    by (metis One_nat_def add_gr_0 less_one not_gr_zero unat_eq_0 unat_1 unat_minus_one)
  show "blocks_upto start (min cur safe) = n1 + n2"
    using assms(1-3) sb e unfolding n1_def n2_def blocks_upto_def
    by (auto simp: min_def word_le_nat_alt word_less_nat_alt)
  show "start + of_nat n1 = start + batch" if "0 < n2"
  proof -
    have "n1 = unat batch"
      using that assms(1-3) sb e unfolding n1_def n2_def blocks_upto_def
      by (auto simp: min_def word_le_nat_alt word_less_nat_alt split: if_splits)
    then show ?thesis by simp
  qed
  show "unat (min (min cur (start + batch - 1)) safe) < 2 ^ 64 - 1"
    using assms(2) \<open>unat batch > 0\<close>
    by (auto simp: min_def word_le_nat_alt split: if_splits)
qed

lemma catchupBatches_spec:
  assumes "0 < batch" "unat cur + unat batch < 2 ^ 64"
  shows "\<exists>t' k. catchupBatches pick batch cur safe start t = Some t' \<and>
    enqueued blockSourceCatchup start (blocks_upto start (min cur safe)) t k t'"
proof (induction "Suc (unat cur) - unat start" arbitrary: start t rule: less_induct)
  case less
  let ?n = "blocks_upto start (min cur safe)"
  show ?case
  proof (cases "start \<le> cur")
    case False
    then have "?n = 0" by (simp add: blocks_upto_def min_def word_le_nat_alt)
    with False show ?thesis
      by (subst catchupBatches.simps) (auto simp: enqueued_def)
  next
    case True
    define end1 where "end1 = min cur (start + batch - 1)"
    obtain ok t1 where r: "enqueueRange pick blockSourceCatchup end1 safe start t = (ok, t1)"
      by (cases "enqueueRange pick blockSourceCatchup end1 safe start t")
    note B = batch_split [OF assms True, of safe, folded end1_def]
    have "blockSourceCatchup \<noteq> []" by (simp add: block_sources)
    from enqueueRange_spec [OF r this B(3)] obtain k1
      where K: "enqueued blockSourceCatchup start (blocks_upto start (min end1 safe)) t k1 t1"
      and ok: "ok \<longleftrightarrow> k1 = blocks_upto start (min end1 safe)" by auto
    note step = catchupBatches_step [OF True end1_def r]
    show ?thesis
    proof (cases "\<not> ok \<or> cancelled t1 \<or> stopped t1")
      case True
      have "enqueued blockSourceCatchup start ?n t k1 t1"
        using K ok True B(1) by (auto simp: enqueued_def held_up_def)
      with True step show ?thesis by auto
    next
      case False
      have "Suc (unat cur) - unat (start + batch) < Suc (unat cur) - unat start"
        using True batch_next [OF assms(2) True] assms(1) by (simp add: word_le_nat_alt word_less_nat_alt)
      from less [OF this, of t1] obtain t2 k2
        where c: "catchupBatches pick batch cur safe (start + batch) t1 = Some t2"
        and e: "enqueued blockSourceCatchup (start + batch)
                  (blocks_upto (start + batch) (min cur safe)) t1 k2 t2" by auto
      have "enqueued blockSourceCatchup start ?n t (k1 + k2) t2"
      proof (cases "blocks_upto (start + batch) (min cur safe) = 0")
        case True
        with e K ok False B(1) show ?thesis by (auto simp: enqueued_def)
      next
        case more: False
        with e B(2) have "enqueued blockSourceCatchup (start + of_nat (blocks_upto start (min end1 safe)))
            (blocks_upto (start + batch) (min cur safe)) t1 k2 t2" by simp
        with enqueued_trans K ok False B(1) show ?thesis by auto
      qed
      with c step False show ?thesis by auto
    qed
  qed
qed

section \<open>From the stored mark to the safe head\<close>

lemma safeHeadCur_le: "safeHeadCur c cur \<le> cur"
  by (auto simp: safeHeadCur_def word_sub_le_iff less_imp_le)

lemma safeHeadCur_nonzero: "cur \<noteq> 0 \<Longrightarrow> safeHeadCur c cur \<noteq> 0"
  by (auto simp: safeHeadCur_def)

lemma safeHead0_pos: "safeHead0 c cur > 0 \<Longrightarrow> safeHead0 c cur = safeHeadCur c cur"
  by (auto simp: safeHead0_def safeHeadCur_def split: if_splits)

lemma safeHead0_zero: "\<not> safeHead0 c cur > 0 \<Longrightarrow> safeHeadCur c cur = cur"
  by (auto simp: safeHead0_def safeHeadCur_def word_gt_0 split: if_splits)

text \<open>
  The normalized mark is the stored one, cut down to the safe head; when writing the lower mark
  fails, the stored one is returned although it is past the safe head.
\<close>

lemma normalize_cases:
  assumes "st_GetLastProcessedBlock S (bp_GetNetwork P) w1 = (Inr l, w2)"
    and "normalizeLastProcessed S P c cur w1 = (r, w3)"
  shows "r = min l (safeHeadCur c cur) \<or> (r = l \<and> l > safeHeadCur c cur)"
proof (cases "l > safeHeadCur c cur")
  case True
  then have "r = l \<or> r = safeHeadCur c cur"
  proof (cases "safeHead0 c cur > 0")
    case pos: True
    then show ?thesis using assms True safeHead0_pos [OF pos]
      by (auto simp: normalizeLastProcessed_def Let_def split: prod.splits option.splits)
  next
    case zero: False
    then show ?thesis using assms True safeHead0_zero [OF zero]
      by (auto simp: normalizeLastProcessed_def Let_def split: prod.splits option.splits)
  qed
  with True show ?thesis by (auto simp: min_def)
next
  case False
  then have "\<not> (safeHead0 c cur > 0 \<and> l > safeHead0 c cur)" "\<not> l > cur"
    using safeHead0_pos [of c cur] safeHeadCur_le [of c cur] by auto
  with assms False show ?thesis
    by (auto simp: normalizeLastProcessed_def Let_def min_def)
qed

text \<open>In both cases the blocks between the normalized mark and the safe head are the same.\<close>

lemma blocks_after_normalize:
  assumes "r = min l safe \<or> (r = l \<and> l > safe)" "unat l < 2 ^ 64 - 1"
  shows "blocks_upto (r + 1) safe = unat safe - unat l"
    and "unat l < unat safe \<Longrightarrow> r = l"
proof -
  have "unat r \<le> unat l" using assms(1) by (auto simp: word_le_nat_alt min_def)
  with assms(2) have "unat (r + 1) = Suc (unat r)" by (intro unat_plus_one_u64) simp
  with assms(1) show "blocks_upto (r + 1) safe = unat safe - unat l"
    by (auto simp: blocks_upto_def min_def word_le_nat_alt word_less_nat_alt split: if_splits)
  show "unat l < unat safe \<Longrightarrow> r = l"
    using assms(1) by (auto simp: min_def word_le_nat_alt word_less_nat_alt)
qed

lemma enqueuedD:
  assumes "enqueued src b n t k t'"
  shows "k \<le> n" "queueOf src t' = queueOf src t @ jobs src b k" "otherQueue src t' = otherQueue src t"
    "k < n \<longrightarrow> capOf src t \<le> int (length (queueOf src t')) \<or> cancelled t \<or> stopped t"
proof -
  from assms have "enq_core t' = enq_core t" by (simp add: enqueued_def)
  note eqs = enq_core_eqs [OF this]
  show "k \<le> n" "queueOf src t' = queueOf src t @ jobs src b k" "otherQueue src t' = otherQueue src t"
    using assms by (simp_all add: enqueued_def)
  show "k < n \<longrightarrow> capOf src t \<le> int (length (queueOf src t')) \<or> cancelled t \<or> stopped t"
    using assms unfolding enqueued_def held_up_def eqs by blast
qed

lemma enqueued_zero_start: "enqueued src b 0 t k t' \<Longrightarrow> enqueued src b' 0 t k t'"
  by (simp add: enqueued_def)

text \<open>
  C14: Polling enqueues the missing blocks. When the current height and the stored mark \<open>l\<close> can be
  read, one poll appends to the realtime queue the jobs \<open>l + 1, l + 2, ...\<close> in order, none above the
  safe head, and all of them up to the safe head unless the queue filled up or the tracker is being
  stopped; the catch-up queue is left alone.
\<close>

theorem polling_enqueues_range:
  assumes "bp_GetCurrentBlockHeight P w = (Inr cur, w1)"
    and "st_GetLastProcessedBlock S (bp_GetNetwork P) w1 = (Inr l, w2)"
    and "unat l < 2 ^ 64 - 1" "unat (safeHeadCur (config t) cur) < 2 ^ 64 - 1"
    and "performPolling S P pick (t, w) = (t', w')"
  defines "n \<equiv> unat (safeHeadCur (config t) cur) - unat l"
  shows "\<exists>k \<le> n. realtimeCh t' = realtimeCh t @ jobs blockSourcePolling (l + 1) k \<and>
    catchupCh t' = catchupCh t \<and>
    (k < n \<longrightarrow> realtimeCap t \<le> int (length (realtimeCh t')) \<or> cancelled t \<or> stopped t)"
proof -
  let ?safe = "safeHeadCur (config t) cur"
  obtain r w3 where nr: "normalizeLastProcessed S P (config t) cur w1 = (r, w3)"
    by (cases "normalizeLastProcessed S P (config t) cur w1")
  note R = normalize_cases [OF assms(2) nr]
  note B = blocks_after_normalize [OF R assms(3)]
  show ?thesis
  proof (cases "r = 0 \<and> cur = 0")
    case True
    then have "t' = t" using assms(1,5) nr by (simp add: performPolling_def)
    moreover have "n = 0"
      using safeHeadCur_le [of "config t" 0] True by (simp add: n_def)
    ultimately show ?thesis by simp
  next
    case False
    obtain ok where e: "enqueueRange pick blockSourcePolling cur ?safe (r + 1) t = (ok, t')"
      using assms(1,5) nr False
      by (cases "enqueueRange pick blockSourcePolling cur ?safe (r + 1) t")
        (auto simp: performPolling_def Let_def)
    have m: "min cur ?safe = ?safe" using safeHeadCur_le by (simp add: min_absorb2)
    have "blockSourcePolling \<noteq> []" by (simp add: block_sources)
    from enqueueRange_spec [OF e this] m B(1) assms(4)
    obtain k where k: "enqueued blockSourcePolling (r + 1) n t k t'" by (auto simp: n_def)
    then have "enqueued blockSourcePolling (l + 1) n t k t'"
      using B(2) enqueued_zero_start by (cases "unat l < unat ?safe") (auto simp: n_def)
    from enqueuedD [OF this] show ?thesis
      by (intro exI [of _ k]) (simp add: queueOf_def otherQueue_def capOf_def block_sources)
  qed
qed

text \<open>
  C15: The initial catch-up returns and enqueues the whole backlog. With a positive batch size and no
  wrap-around at \<open>2^64\<close>, a tracker whose stored mark \<open>l\<close> is more than ten blocks behind puts the jobs
  \<open>l + 1, l + 2, ...\<close> on the catch-up queue in order, none above the safe head, and all of them up to
  the safe head unless the queue filled up or the tracker is being stopped. The loop over batches
  neither skips nor repeats a block.
\<close>

theorem catchup_enqueues_backlog:
  assumes "bp_GetCurrentBlockHeight P w = (Inr cur, w1)"
    and "st_GetLastProcessedBlock S (bp_GetNetwork P) w1 = (Inr l, w2)"
    and "l \<noteq> 0" "unat l + 10 < unat cur"
    and "0 < CatchupBatchSize (config t)" "unat cur + nat (CatchupBatchSize (config t)) < 2 ^ 64"
  defines "n \<equiv> unat (safeHeadCur (config t) cur) - unat l"
  shows "\<exists>t' w' k. performInitialCatchup S P pick (t, w) = Some (t', w') \<and> k \<le> n \<and>
    catchupCh t' = catchupCh t @ jobs blockSourceCatchup (l + 1) k \<and> realtimeCh t' = realtimeCh t \<and>
    (k < n \<longrightarrow> catchupCap t \<le> int (length (catchupCh t')) \<or> cancelled t \<or> stopped t)"
proof -
  let ?c = "config t" and ?safe = "safeHeadCur (config t) cur"
  define batch where "batch = to_uint64 (CatchupBatchSize ?c)"
  have "CatchupBatchSize ?c < 2 ^ 64" using assms(6) by simp
  with assms(5) have ub: "unat batch = nat (CatchupBatchSize ?c)"
    unfolding batch_def by (intro unat_to_uint64) simp_all
  have b: "0 < batch" "batch \<noteq> 0" using ub assms(5) by (auto simp: word_less_nat_alt)
  have nowrap: "unat cur + unat batch < 2 ^ 64" unfolding ub by (rule assms(6))
  obtain r w3 where nr: "normalizeLastProcessed S P ?c cur w1 = (r, w3)"
    by (cases "normalizeLastProcessed S P ?c cur w1")
  note R = normalize_cases [OF assms(2) nr]
  have l: "unat l < 2 ^ 64 - 1" "l < cur"
    using assms(4) unsigned_less [of cur, where ?'a = nat] by (simp_all add: word_less_nat_alt)
  note B = blocks_after_normalize [OF R l(1)]
  have m: "min cur ?safe = ?safe" using safeHeadCur_le by (simp add: min_absorb2)
  have r0: "r \<noteq> 0"
    using R assms(3) safeHeadCur_nonzero [of cur ?c] order_le_less_trans [OF word_zero_le l(2)]
    by (auto simp: min_def word_gt_0 split: if_splits)
  show ?thesis
  proof (cases "r \<ge> cur \<or> cur - r \<le> 10")
    case True
    then have "performInitialCatchup S P pick (t, w) = Some (t, w3)"
      using assms(1) nr r0 by (auto simp: performInitialCatchup_def Let_def)
    moreover have "n = 0"
    proof (rule ccontr)
      assume "n \<noteq> 0"
      then have "r = l" using B(2) by (simp add: n_def)
      with True l(2) assms(4) show False
        by (simp add: word_le_nat_alt word_less_nat_alt unat_sub_if')
    qed
    ultimately show ?thesis by simp
  next
    case False
    obtain t' k where c: "catchupBatches pick batch cur ?safe (r + 1) t = Some t'"
      and e: "enqueued blockSourceCatchup (r + 1) n t k t'"
      using catchupBatches_spec [OF b(1) nowrap, of pick ?safe "r + 1" t] B(1) unfolding m n_def by auto
    have "enqueued blockSourceCatchup (l + 1) n t k t'"
      using e B(2) enqueued_zero_start by (cases "unat l < unat ?safe") (auto simp: n_def)
    moreover have "performInitialCatchup S P pick (t, w) = Some (t', w3)"
      using False assms(1) nr r0 b(2) c
      by (auto simp: performInitialCatchup_def Let_def batch_def)
    ultimately show ?thesis
      using enqueuedD [of blockSourceCatchup "l + 1" n t k t']
      by (intro exI [of _ t'] exI [of _ w3] exI [of _ k])
        (simp add: queueOf_def otherQueue_def capOf_def)
  qed
qed

text \<open>
  C19: The defaults of the two worker pools and queues are sane for every configuration, negative
  and huge values and the wrap-around of the 64-bit products included: each pool has a worker, the
  realtime queue holds at least 200 jobs, the catch-up queue at least 1000 and a whole catch-up
  batch, and an automatic split of at least two workers uses exactly that many.
\<close>

theorem worker_and_queue_bounds:
  "case workerSplit c of (rw, cw) \<Rightarrow> 1 \<le> rw \<and> 1 \<le> cw \<and>
     (RealtimeWorkers c \<le> 0 \<and> CatchupWorkers c \<le> 0 \<and> 2 \<le> MaxConcurrentBlocks c \<longrightarrow>
        rw + cw = MaxConcurrentBlocks c) \<and>
     (case queueCaps c rw cw of (rc, cc) \<Rightarrow>
        200 \<le> rc \<and> 1000 \<le> cc \<and> CatchupBatchSize c \<le> cc \<and>
        RealtimeQueueCap c \<le> rc \<and> CatchupQueueCap c \<le> cc)"
  by (auto simp: workerSplit_def queueCaps_def Let_def)

theorem worker_and_queue_bounds_witness:
  "\<exists>rw cw. workerSplit \<lparr>Confirmations = 3, BatchSize = 10, MaxConcurrentBlocks = 100, PollInterval = 0,
     CatchupBatchSize = 5000, HealthCheckInterval = 0, RequeueDelay = 0, RealtimeWorkers = 0,
     CatchupWorkers = 0, RealtimeQueueCap = 0, CatchupQueueCap = 0\<rparr> = (rw, cw) \<and> rw + cw = 100"
  using worker_and_queue_bounds [of "\<lparr>Confirmations = 3, BatchSize = 10, MaxConcurrentBlocks = 100,
     PollInterval = 0, CatchupBatchSize = 5000, HealthCheckInterval = 0, RequeueDelay = 0,
     RealtimeWorkers = 0, CatchupWorkers = 0, RealtimeQueueCap = 0, CatchupQueueCap = 0\<rparr>"]
  by (auto split: prod.splits)

end
