(* ===== verification/Tracker_Progress.thy ===== *)
theory Tracker_Progress
  imports Tracker_Queues Redis_Storage
begin

text \<open>
  What the base tracker keeps of the block progress: the high-water mark never passes a block that
  is not marked as processed, a block is marked only after its processor handled it completely and
  deep enough below the tip, and the in-flight set is left as it was found on every path. The
  tracker is a client of two interfaces, the progress part of the storage (locale
  \<open>progress_store\<close>) and a block processor that leaves the progress alone (locale \<open>tracker_client\<close>);
  both are interpreted on the Redis storage.
\<close>

section \<open>The paths of processing one block\<close>

definition deep_enough :: "BaseTrackerConfig \<Rightarrow> u64 \<Rightarrow> u64 \<Rightarrow> bool" where
  "deep_enough c cur b \<longleftrightarrow> b \<le> cur \<and> to_uint64 (Confirmations c) \<le> cur - b"

lemma processBlockSafely_paths:
  assumes "processBlockSafely S P b (t, w) = (r, (t', w'))"
  defines "t1 \<equiv> t\<lparr>lastProcessing := b\<rparr>" and "net \<equiv> bp_GetNetwork P"
  obtains
    (height_error) err where "bp_GetCurrentBlockHeight P w = (Inl err, w')" "t' = t1"
  | (requeued) cur where "bp_GetCurrentBlockHeight P w = (Inr cur, w')" "\<not> deep_enough (config t) cur b"
      "t' = requeueBlock b t1" "r = None"
  | (not_marked) cur w1 pr where "bp_GetCurrentBlockHeight P w = (Inr cur, w1)"
      "deep_enough (config t) cur b" "bp_ProcessBlock P b (t1, w1) = (pr, (t', w'))" "pr \<noteq> Inr True"
  | (mark_error) cur w1 w2 err where "bp_GetCurrentBlockHeight P w = (Inr cur, w1)"
      "deep_enough (config t) cur b" "bp_ProcessBlock P b (t1, w1) = (Inr True, (t', w2))"
      "st_MarkBlockProcessed S net b w2 = (Some err, w')"
  | (marked) cur w1 t2 w2 w3 w4 d a where "bp_GetCurrentBlockHeight P w = (Inr cur, w1)"
      "deep_enough (config t) cur b" "bp_ProcessBlock P b (t1, w1) = (Inr True, (t2, w2))"
      "st_MarkBlockProcessed S net b w2 = (None, w3)"
      "st_DeleteCache S (blockCacheKey net b) w3 = (d, w4)"
      "st_AdvanceHighWaterMark S net w4 = (a, w')"
      "t' = t2\<lparr>processedBlocks := processedBlocks t2 + 1\<rparr>" "r = None"
proof -
  obtain h w1 where h: "bp_GetCurrentBlockHeight P w = (h, w1)"
    by (cases "bp_GetCurrentBlockHeight P w")
  show thesis
  proof (cases h)
    case (Inl err)
    then show ?thesis using assms(1) h
      by (intro height_error) (auto simp: processBlockSafely_def t1_def Let_def split: if_splits)
  next
    case (Inr cur)
    show ?thesis
    proof (cases "deep_enough (config t) cur b")
      case False
      then show ?thesis using assms(1) h Inr
        by (intro requeued)
          (auto simp: processBlockSafely_def t1_def Let_def deep_enough_def split: if_splits)
    next
      case True
      obtain pr t2 w2 where p: "bp_ProcessBlock P b (t1, w1) = (pr, (t2, w2))"
        by (metis prod_cases3)
      have d: "\<not> cur < b" "\<not> cur - b < to_uint64 (Confirmations (config t))"
        using True by (auto simp: deep_enough_def)
      have rest: "(r, (t', w')) = (case pr of
          Inl err \<Rightarrow> (Some (Wrap ''failed to process block'' err), (t2, w2))
        | Inr fp \<Rightarrow> if \<not> fp then (None, (t2, w2))
            else (case st_MarkBlockProcessed S net b w2 of
               (Some err, w3) \<Rightarrow> (Some (Wrap ''failed to mark block as processed'' err), (t2, w3))
             | (None, w3) \<Rightarrow> (case st_DeleteCache S (blockCacheKey net b) w3 of (_, w4) \<Rightarrow>
                 (case st_AdvanceHighWaterMark S net w4 of (_, w5) \<Rightarrow>
                    (None, (t2\<lparr>processedBlocks := processedBlocks t2 + 1\<rparr>, w5))))))"
        using assms(1) h Inr d p unfolding net_def
        by (simp add: processBlockSafely_def t1_def Let_def cong: sum.case_cong)
      show ?thesis
      proof (cases "pr = Inr True")
        case False
        with rest have "t' = t2" "w' = w2" by (auto split: sum.splits if_splits)
        with h Inr True p False show ?thesis by (intro not_marked) auto
      next
        case fin: True
        obtain mr w3 where m: "st_MarkBlockProcessed S net b w2 = (mr, w3)"
          by (cases "st_MarkBlockProcessed S net b w2")
        obtain dr w4 where dc: "st_DeleteCache S (blockCacheKey net b) w3 = (dr, w4)"
          by (cases "st_DeleteCache S (blockCacheKey net b) w3")
        obtain ar w5 where ad: "st_AdvanceHighWaterMark S net w4 = (ar, w5)"
          by (cases "st_AdvanceHighWaterMark S net w4")
        show ?thesis
        proof (cases mr)
          case None
          with rest fin m dc ad have "t' = t2\<lparr>processedBlocks := processedBlocks t2 + 1\<rparr>" "w' = w5" "r = None"
            by auto
          with h Inr True p fin m None dc ad show ?thesis by (intro marked) auto
        next
          case (Some err)
          with rest fin m have "t' = t2" "w' = w3" by auto
          with h Inr True p fin m Some show ?thesis by (intro mark_error) auto
        qed
      qed
    qed
  qed
qed

lemma processBlockSafely_shallow:
  assumes "bp_GetCurrentBlockHeight P w = (Inr cur, w1)" "\<not> deep_enough (config t) cur b"
  shows "processBlockSafely S P b (t, w) = (None, (requeueBlock b (t\<lparr>lastProcessing := b\<rparr>), w1))"
proof (cases "cur < b")
  case False
  with assms(2) have "cur - b < to_uint64 (Confirmations (config t))"
    by (simp add: deep_enough_def not_less not_le)
  with False assms(1) show ?thesis by (simp add: processBlockSafely_def Let_def)
qed (use assms(1) in \<open>simp add: processBlockSafely_def Let_def\<close>)

section \<open>The contract of a block processor\<close>

text \<open>
  Processing a block may change the processor's own part of the world and the tracker's transaction
  counter, but neither the progress of the network nor anything else of the tracker.
\<close>

locale tracker_client = progress_store S "bp_GetNetwork P" pinv marked_in last_in
  for S :: "'w Storage" and P :: "'w BlockProcessor"
    and pinv :: "'w \<Rightarrow> bool" and marked_in :: "'w \<Rightarrow> u64 \<Rightarrow> bool" and last_in :: "'w \<Rightarrow> u64" +
  assumes height_reads:
      "pinv w \<Longrightarrow> bp_GetCurrentBlockHeight P w = (rh, w') \<Longrightarrow>
       pinv w' \<and> marked_in w' = marked_in w \<and> last_in w' = last_in w"
    and process_reads:
      "pinv w \<Longrightarrow> bp_ProcessBlock P b (t, w) = (rp, (t', w')) \<Longrightarrow>
       pinv w' \<and> marked_in w' = marked_in w \<and> last_in w' = last_in w \<and>
       t' = t\<lparr>processedTxs := processedTxs t'\<rparr>"
begin

text \<open>
  How a step may change the progress: blocks in \<open>B\<close> may become marked, the mark moves over marked
  blocks only.
\<close>

definition progress_step :: "u64 set \<Rightarrow> 'w \<Rightarrow> 'w \<Rightarrow> bool" where
  "progress_step B w w' \<longleftrightarrow> pinv w' \<and>
     (\<forall>b. marked_in w b \<longrightarrow> marked_in w' b) \<and> (\<forall>b. marked_in w' b \<longrightarrow> marked_in w b \<or> b \<in> B) \<and>
     (\<forall>base. hwm_safe (marked_in w) (last_in w) base \<longrightarrow> hwm_safe (marked_in w') (last_in w') base)"

lemma progress_step_trans:
  "progress_step A w w1 \<Longrightarrow> progress_step B w1 w2 \<Longrightarrow> progress_step (A \<union> B) w w2"
  unfolding progress_step_def by blast

lemma progress_step_mono: "progress_step A w w1 \<Longrightarrow> A \<subseteq> B \<Longrightarrow> progress_step B w w1"
  unfolding progress_step_def by blast

lemma same_progress_step:
  "pinv w' \<and> marked_in w' = marked_in w \<and> last_in w' = last_in w \<Longrightarrow> progress_step {} w w'"
  by (simp add: progress_step_def)

lemma height_step:
  "pinv w \<Longrightarrow> bp_GetCurrentBlockHeight P w = (r, w') \<Longrightarrow> progress_step {} w w'"
  by (rule same_progress_step) (rule height_reads)

lemma isProcessed_step:
  "pinv w \<Longrightarrow> st_IsBlockProcessed S (bp_GetNetwork P) b w = (r, w') \<Longrightarrow> progress_step {} w w'"
  by (rule same_progress_step) (rule isProcessed_reads)

lemma getLast_step:
  "pinv w \<Longrightarrow> st_GetLastProcessedBlock S (bp_GetNetwork P) w = (r, w') \<Longrightarrow> progress_step {} w w'"
  by (rule same_progress_step) (rule getLast_reads)

lemma deleteCache_step:
  "pinv w \<Longrightarrow> st_DeleteCache S (blockCacheKey (bp_GetNetwork P) b) w = (r, w') \<Longrightarrow>
   progress_step {} w w'"
  by (rule same_progress_step) (rule deleteCache_any)

lemma process_step:
  "pinv w \<Longrightarrow> bp_ProcessBlock P b (t, w) = (r, (t', w')) \<Longrightarrow> progress_step {} w w'"
  using process_reads [of w b t r t' w'] by (intro same_progress_step) blast

lemma process_inFlight:
  assumes "pinv w" "bp_ProcessBlock P b (t, w) = (r, (t', w'))"
  shows "inFlightBlocks t' = inFlightBlocks t"
proof -
  have "t' = t\<lparr>processedTxs := processedTxs t'\<rparr>" using process_reads [OF assms] by blast
  from arg_cong [OF this, of inFlightBlocks] show ?thesis by simp
qed

lemma mark_step:
  "pinv w \<Longrightarrow> st_MarkBlockProcessed S (bp_GetNetwork P) b w = (r, w') \<Longrightarrow> progress_step {b} w w'"
  using mark_any [of w b r w'] by (auto simp: progress_step_def hwm_safe_def)

lemma advance_step:
  assumes "pinv w" "st_AdvanceHighWaterMark S (bp_GetNetwork P) w = (r, w')"
  shows "progress_step {} w w'"
proof -
  from advance_any [OF assms] have a: "pinv w'" "marked_in w' = marked_in w"
    "\<And>b. last_in w < b \<Longrightarrow> b \<le> last_in w' \<Longrightarrow> marked_in w b" by auto
  then have "hwm_safe (marked_in w') (last_in w') base" if "hwm_safe (marked_in w) (last_in w) base" for base
    using that not_le_imp_less unfolding hwm_safe_def by metis
  with a show ?thesis by (simp add: progress_step_def)
qed

lemma forceLast_step:
  assumes "pinv w" "st_ForceSetLastProcessedBlock S (bp_GetNetwork P) b w = (r, w')" "b \<le> last_in w"
  shows "progress_step {} w w'"
  using forceLast_any [OF assms(1,2)] assms(3)
  by (auto simp: progress_step_def hwm_safe_def dest: order_trans)

lemma step_pinv: "progress_step B w w' \<Longrightarrow> pinv w'"
  by (simp add: progress_step_def)

text \<open>Lowering the mark to the safe head.\<close>

lemma normalize_step:
  assumes "pinv w" "normalizeLastProcessed S P c cur w = (r, w')"
  shows "progress_step {} w w'"
proof -
  obtain g w1 where g: "st_GetLastProcessedBlock S (bp_GetNetwork P) w = (g, w1)"
    by (cases "st_GetLastProcessedBlock S (bp_GetNetwork P) w")
  note G = getLast_step [OF assms(1) g] getLast_reads [OF assms(1) g]
  consider "w' = w1"
    | l b where "g = Inr l" "b < l"
      "w' = snd (st_ForceSetLastProcessedBlock S (bp_GetNetwork P) b w1)"
    using assms(2) g
    by (auto simp: normalizeLastProcessed_def Let_def split: sum.splits prod.splits option.splits if_splits)
  then show ?thesis
  proof cases
    case 1
    with G show ?thesis by simp
  next
    case 2
    have "last_in w = l" using getLast_val [OF assms(1)] g 2(1) by simp
    then have "b \<le> last_in w1" using G(2) 2(2) by simp
    from forceLast_step [OF step_pinv [OF G(1)] prod.collapse [symmetric] this] G(1) 2(3)
    show ?thesis using progress_step_trans by fastforce
  qed
qed

lemma polling_step:
  assumes "pinv w" "performPolling S P pick (t, w) = (t', w')"
  shows "progress_step {} w w'"
proof -
  obtain h w1 where h: "bp_GetCurrentBlockHeight P w = (h, w1)"
    by (cases "bp_GetCurrentBlockHeight P w")
  note H = height_step [OF assms(1) h]
  show ?thesis
  proof (cases h)
    case (Inl err)
    with assms(2) h H show ?thesis by (simp add: performPolling_def)
  next
    case (Inr cur)
    obtain r w2 where n: "normalizeLastProcessed S P (config t) cur w1 = (r, w2)"
      by (cases "normalizeLastProcessed S P (config t) cur w1")
    have "w' = w2" using assms(2) h Inr n by (auto simp: performPolling_def Let_def split: if_splits)
    with progress_step_trans [OF H normalize_step [OF step_pinv [OF H] n]] show ?thesis by simp
  qed
qed

lemma processBlockSafely_step:
  assumes "pinv w" "processBlockSafely S P b (t, w) = (r, (t', w'))"
  shows "progress_step {b} w w' \<and> inFlightBlocks t' = inFlightBlocks t"
  using assms(2)
proof (cases rule: processBlockSafely_paths)
  case (height_error err)
  then show ?thesis using height_step [OF assms(1)] progress_step_mono by auto
next
  case (requeued cur)
  then show ?thesis
    using height_step [OF assms(1)] progress_step_mono by (auto simp: requeueBlock_def)
next
  case (not_marked cur w1 pr)
  note H = height_step [OF assms(1) not_marked(1)]
  note Q = process_step [OF step_pinv [OF H] not_marked(3)]
  have "inFlightBlocks t' = inFlightBlocks t"
    using process_inFlight [OF step_pinv [OF H] not_marked(3)] by simp
  with progress_step_trans [OF H Q] progress_step_mono show ?thesis by auto
next
  case (mark_error cur w1 w2 err)
  note H = height_step [OF assms(1) mark_error(1)]
  note Q = progress_step_trans [OF H process_step [OF step_pinv [OF H] mark_error(3)]]
  note M = progress_step_trans [OF Q mark_step [OF step_pinv [OF Q] mark_error(4)]]
  have "inFlightBlocks t' = inFlightBlocks t"
    using process_inFlight [OF step_pinv [OF H] mark_error(3)] by simp
  with M show ?thesis by simp
next
  case (marked cur w1 t2 w2 w3 w4 d a)
  note H = height_step [OF assms(1) marked(1)]
  note Q = progress_step_trans [OF H process_step [OF step_pinv [OF H] marked(3)]]
  note M = progress_step_trans [OF Q mark_step [OF step_pinv [OF Q] marked(4)]]
  note D = progress_step_trans [OF M deleteCache_step [OF step_pinv [OF M] marked(5)]]
  note A = progress_step_trans [OF D advance_step [OF step_pinv [OF D] marked(6)]]
  have "inFlightBlocks t2 = inFlightBlocks t"
    using process_inFlight [OF step_pinv [OF H] marked(3)] by simp
  with A marked(7) show ?thesis by simp
qed

text \<open>
  One job: the progress changes by at most the mark of its block, a new mark comes from a complete
  run of the processor deep enough below the tip, and the in-flight set is as before.
\<close>

lemma processBlockSafely_new_mark:
  assumes "pinv w" "processBlockSafely S P b (t, w) = (r, (t', w'))"
    and "\<not> marked_in w a" "marked_in w' a"
  shows "\<exists>cur w1 t2 w2. bp_GetCurrentBlockHeight P w = (Inr cur, w1) \<and> deep_enough (config t) cur b \<and>
    bp_ProcessBlock P b (t\<lparr>lastProcessing := b\<rparr>, w1) = (Inr True, (t2, w2))"
  using assms(2)
proof (cases rule: processBlockSafely_paths)
  case (height_error err)
  with height_reads [OF assms(1)] assms(3,4) show ?thesis by metis
next
  case (requeued cur)
  with height_reads [OF assms(1)] assms(3,4) show ?thesis by metis
next
  case (not_marked cur w1 pr)
  note H = height_reads [OF assms(1) not_marked(1)]
  from process_reads [OF H [THEN conjunct1] not_marked(3)] H assms(3,4) show ?thesis by simp
qed blast+

lemma processBlockJob_step:
  assumes "pinv w" "processBlockJob S P job (t, w) = (t', w')"
  shows "progress_step {jobNumber job} w w' \<and> inFlightBlocks t' = inFlightBlocks t"
proof (cases "jobNumber job \<in> inFlightBlocks t")
  case True
  then show ?thesis
    using assms by (auto simp: processBlockJob_def Let_def progress_step_def)
next
  case False
  let ?b = "jobNumber job" and ?t1 = "t\<lparr>inFlightBlocks := insert (jobNumber job) (inFlightBlocks t)\<rparr>"
  obtain q w1 where q: "st_IsBlockProcessed S (bp_GetNetwork P) ?b w = (q, w1)"
    by (cases "st_IsBlockProcessed S (bp_GetNetwork P) ?b w")
  note Q = isProcessed_step [OF assms(1) q]
  have rel: "insert ?b (inFlightBlocks t) - {?b} = inFlightBlocks t" using False by simp
  consider err where "q = Inl err" | "q = Inr True" | "q = Inr False" by (cases q) auto
  then show ?thesis
  proof cases
    case 1
    then show ?thesis
      using assms(2) q False Q rel
      by (auto simp: processBlockJob_def Let_def releaseInFlight_def intro: progress_step_mono)
  next
    case 2
    obtain a w2 where a: "st_AdvanceHighWaterMark S (bp_GetNetwork P) w1 = (a, w2)"
      by (cases "st_AdvanceHighWaterMark S (bp_GetNetwork P) w1")
    note A = progress_step_trans [OF Q advance_step [OF step_pinv [OF Q] a]]
    have "w' = w2 \<and> inFlightBlocks t' = inFlightBlocks t"
      using assms(2) q False 2 a rel
      by (auto simp: processBlockJob_def Let_def releaseInFlight_def split: option.splits)
    with A progress_step_mono show ?thesis by auto
  next
    case 3
    obtain r t2 w2 where p: "processBlockSafely S P ?b (?t1, w1) = (r, (t2, w2))"
      by (metis prod_cases3)
    note R = processBlockSafely_step [OF step_pinv [OF Q] p]
    have "w' = w2 \<and> inFlightBlocks t' = inFlightBlocks t2 - {?b}"
      using assms(2) q False 3 p
      by (auto simp: processBlockJob_def Let_def releaseInFlight_def split: option.splits if_splits)
    with R rel progress_step_trans [OF Q R [THEN conjunct1]] show ?thesis by simp
  qed
qed

lemma processBlockJob_new_mark:
  assumes "pinv w" "processBlockJob S P job (t, w) = (t', w')"
    and "\<not> marked_in w a" "marked_in w' a"
  shows "a = jobNumber job \<and> a \<notin> inFlightBlocks t \<and>
    (\<exists>w1 cur w2 t1 t2 w3. st_IsBlockProcessed S (bp_GetNetwork P) a w = (Inr False, w1) \<and>
       bp_GetCurrentBlockHeight P w1 = (Inr cur, w2) \<and> deep_enough (config t) cur a \<and>
       bp_ProcessBlock P a (t1, w2) = (Inr True, (t2, w3)))"
proof -
  let ?b = "jobNumber job" and ?t1 = "t\<lparr>inFlightBlocks := insert (jobNumber job) (inFlightBlocks t)\<rparr>"
  have b: "a = ?b"
    using processBlockJob_step [OF assms(1,2)] assms(3,4) by (auto simp: progress_step_def)
  have f: "?b \<notin> inFlightBlocks t"
    using assms by (auto simp: processBlockJob_def Let_def)
  obtain q w1 where q: "st_IsBlockProcessed S (bp_GetNetwork P) ?b w = (q, w1)"
    by (cases "st_IsBlockProcessed S (bp_GetNetwork P) ?b w")
  note Q = isProcessed_reads [OF assms(1) q]
  have q0: "q = Inr False"
  proof (rule ccontr)
    assume n: "q \<noteq> Inr False"
    have "q \<noteq> Inr True" using isProcessed_val [OF assms(1)] q assms(3) b by auto
    with n obtain err where "q = Inl err" by (cases q) auto
    then have "w' = w1" using assms(2) q f by (simp add: processBlockJob_def Let_def)
    with Q assms(3,4) show False by simp
  qed
  obtain r t2 w2 where p: "processBlockSafely S P ?b (?t1, w1) = (r, (t2, w2))"
    by (metis prod_cases3)
  have "w' = w2"
    using assms(2) q f q0 p
    by (auto simp: processBlockJob_def Let_def split: option.splits if_splits)
  with processBlockSafely_new_mark [OF _ p, of a] Q assms(3,4)
  obtain cur w3 t3 w4 where "bp_GetCurrentBlockHeight P w1 = (Inr cur, w3)"
    "deep_enough (config t) cur ?b"
    "bp_ProcessBlock P ?b (?t1\<lparr>lastProcessing := ?b\<rparr>, w3) = (Inr True, (t3, w4))" by auto
  with b f q q0 show ?thesis by blast
qed

end

section \<open>The tracker on the Redis storage\<close>

text \<open>
  The contract of a processor on the Redis storage: neither the height query nor processing a block
  changes the progress of the network, and of the tracker only the transaction counter changes.
\<close>

definition quiet :: "('e \<Rightarrow> keyspace) \<Rightarrow> ('e, 'f, 'm) world_scheme BlockProcessor \<Rightarrow> bool" where
  "quiet view P \<longleftrightarrow>
     (\<forall>w r w'. bp_GetCurrentBlockHeight P w = (r, w') \<longrightarrow> progress_same view (bp_GetNetwork P) w w') \<and>
     (\<forall>b t w r t' w'. bp_ProcessBlock P b (t, w) = (r, (t', w')) \<longrightarrow>
        progress_same view (bp_GetNetwork P) w w' \<and> t' = t\<lparr>processedTxs := processedTxs t'\<rparr>)"

definition tracker_inv ::
  "'e redis_exec \<Rightarrow> ('e \<Rightarrow> keyspace) \<Rightarrow> ('e, 'f, 'm) world_scheme BlockProcessor \<Rightarrow>
   ('e, 'f, 'm) world_scheme \<Rightarrow> bool" where
  "tracker_inv ex view P = (\<lambda>w. progress_inv ex view (bp_GetNetwork P) w \<and> quiet view P)"

lemma progress_same_inv:
  "progress_same view n w w' \<Longrightarrow> progress_inv ex view n w \<Longrightarrow> progress_inv ex view n w'"
  by (simp add: progress_same_def progress_inv_def)

interpretation tc: tracker_client "redisStorage ex BL" P "tracker_inv ex view P"
    "marked view (bp_GetNetwork P)" "lastBlock view (bp_GetNetwork P)" for ex BL view P
proof (intro tracker_client.intro tracker_client_axioms.intro)
  show "progress_store (redisStorage ex BL) (bp_GetNetwork P) (tracker_inv ex view P)
     (marked view (bp_GetNetwork P)) (lastBlock view (bp_GetNetwork P))"
    unfolding tracker_inv_def by (rule rs.conj_store)
next
  fix w rh w'
  assume a: "tracker_inv ex view P w" and p: "bp_GetCurrentBlockHeight P w = (rh, w')"
  then have s: "progress_same view (bp_GetNetwork P) w w'"
    unfolding tracker_inv_def quiet_def by blast
  moreover have "tracker_inv ex view P w'"
    using a progress_same_inv [OF s] by (simp add: tracker_inv_def)
  ultimately show "tracker_inv ex view P w' \<and>
      marked view (bp_GetNetwork P) w' = marked view (bp_GetNetwork P) w \<and>
      lastBlock view (bp_GetNetwork P) w' = lastBlock view (bp_GetNetwork P) w"
    unfolding progress_same_def by blast
next
  fix w b t rp t' w'
  assume a: "tracker_inv ex view P w" and p: "bp_ProcessBlock P b (t, w) = (rp, (t', w'))"
  then have s: "progress_same view (bp_GetNetwork P) w w'" "t' = t\<lparr>processedTxs := processedTxs t'\<rparr>"
    unfolding tracker_inv_def quiet_def by blast+
  moreover have "tracker_inv ex view P w'"
    using a progress_same_inv [OF s(1)] by (simp add: tracker_inv_def)
  ultimately show "tracker_inv ex view P w' \<and>
      marked view (bp_GetNetwork P) w' = marked view (bp_GetNetwork P) w \<and>
      lastBlock view (bp_GetNetwork P) w' = lastBlock view (bp_GetNetwork P) w \<and>
      t' = t\<lparr>processedTxs := processedTxs t'\<rparr>"
    unfolding progress_same_def by blast
qed

section \<open>Properties of the tracker\<close>

text \<open>
  A processor for the examples: the tip is block 60 and every block is handled completely, adding
  two transactions to the counter. With it, a tracker with three confirmations.
\<close>

definition demo_processor :: "(mem_server, string list) world BlockProcessor" where
  "demo_processor = \<lparr>bp_ProcessBlock = (\<lambda>b (t, w). (Inr True, (IncrementTxCount 2 t, w))),
     bp_GetCurrentBlockHeight = (\<lambda>w. (Inr 60, w)), bp_GetNetwork = ''ETH'',
     bp_InitializeProviders = (\<lambda>w. (None, w)), bp_CleanupProviders = (\<lambda>w. (None, w)),
     bp_InFlightTxs = None, bp_ProviderStats = None\<rparr>"

definition demo_config :: BaseTrackerConfig where
  "demo_config = \<lparr>Confirmations = 3, BatchSize = 10, MaxConcurrentBlocks = 10, PollInterval = 2 * Second,
     CatchupBatchSize = 4, HealthCheckInterval = 30 * Second, RequeueDelay = 0, RealtimeWorkers = 0,
     CatchupWorkers = 0, RealtimeQueueCap = 0, CatchupQueueCap = 0\<rparr>"

definition demo_tracker :: BaseTracker where
  "demo_tracker = NewBaseTracker demo_config 0"

lemma demo_quiet: "quiet msKeys demo_processor"
  by (auto simp: quiet_def demo_processor_def progress_same_def IncrementTxCount_def)

lemma demo_tracker_inv: "tracker_inv mem_exec msKeys demo_processor demo_world"
  using demo_world_inv(1) demo_quiet by (simp add: tracker_inv_def demo_processor_def)

text \<open>
  C10: A block is marked as processed only after it was processed. When handling a job makes a block
  marked that was not, it is the block of the job, no other worker had it in flight, the storage
  said that it was not processed, the tip was at least the configured number of confirmations above
  it, and the chain's processor reported that it handled the block completely.
\<close>

theorem block_marked_only_when_processed:
  assumes "tracker_inv ex view P w" "processBlockJob (redisStorage ex BL) P job (t, w) = (t', w')"
    and "\<not> marked view (bp_GetNetwork P) w a" "marked view (bp_GetNetwork P) w' a"
  shows "a = jobNumber job \<and> a \<notin> inFlightBlocks t \<and>
    (\<exists>w1 cur w2 t1 t2 w3. IsBlockProcessed ex (bp_GetNetwork P) a w = (Inr False, w1) \<and>
       bp_GetCurrentBlockHeight P w1 = (Inr cur, w2) \<and> deep_enough (config t) cur a \<and>
       bp_ProcessBlock P a (t1, w2) = (Inr True, (t2, w3)))"
  by (rule tc.processBlockJob_new_mark [OF assms, unfolded st_redis])

definition demo_job :: BlockJob where
  "demo_job = \<lparr>jobNumber = 44, jobSource = ''polling''\<rparr>"

definition demo_after :: "(mem_server, string list) world state" where
  "demo_after = processBlockJob (redisStorage mem_exec exact_bloom) demo_processor demo_job (demo_tracker, demo_world)"

lemma demo_after_eq:
  "processBlockJob (redisStorage mem_exec exact_bloom) demo_processor demo_job (demo_tracker, demo_world) =
   (fst demo_after, snd demo_after)"
  by (simp add: demo_after_def)

lemma demo_network [simp]: "bp_GetNetwork demo_processor = ''ETH''"
  by (simp add: demo_processor_def)

theorem block_marked_only_when_processed_witness:
  "marked msKeys ''ETH'' (snd demo_after) 44 \<and> \<not> marked msKeys ''ETH'' demo_world 44 \<and>
   (\<exists>cur. deep_enough demo_config cur 44)"
proof -
  have m: "marked msKeys (bp_GetNetwork demo_processor) (snd demo_after) 44"
    "\<not> marked msKeys (bp_GetNetwork demo_processor) demo_world 44"
    by code_simp+
  have "config demo_tracker = demo_config" by code_simp
  with block_marked_only_when_processed [OF demo_tracker_inv demo_after_eq m(2,1)] m
  show ?thesis by auto
qed

text \<open>
  C11: Handling a job keeps the high-water mark safe. For every baseline above which the mark had only
  passed processed blocks, this still holds after the job, whatever failed on the way; no mark is
  lost; and the set of blocks in flight is exactly as before.
\<close>

theorem job_keeps_mark_safe:
  assumes "tracker_inv ex view P w" "processBlockJob (redisStorage ex BL) P job (t, w) = (t', w')"
    and "hwm_safe (marked view (bp_GetNetwork P) w) (lastBlock view (bp_GetNetwork P) w) base"
  shows "hwm_safe (marked view (bp_GetNetwork P) w') (lastBlock view (bp_GetNetwork P) w') base \<and>
    (\<forall>b. marked view (bp_GetNetwork P) w b \<longrightarrow> marked view (bp_GetNetwork P) w' b) \<and>
    tracker_inv ex view P w' \<and> inFlightBlocks t' = inFlightBlocks t"
  using tc.processBlockJob_step [OF assms(1,2)] assms(3) unfolding tc.progress_step_def by blast

theorem job_keeps_mark_safe_witness:
  "hwm_safe (marked msKeys ''ETH'' (snd demo_after)) (lastBlock msKeys ''ETH'' (snd demo_after)) 41 \<and>
   lastBlock msKeys ''ETH'' (snd demo_after) = 45"
proof -
  have "hwm_safe (marked msKeys ''ETH'' demo_world) (lastBlock msKeys ''ETH'' demo_world) 41"
    by (auto simp: demo_last hwm_safe_def)
  then have "hwm_safe (marked msKeys ''ETH'' (snd demo_after)) (lastBlock msKeys ''ETH'' (snd demo_after)) 41"
    using job_keeps_mark_safe [OF demo_tracker_inv demo_after_eq, of 41] by simp
  moreover have "lastBlock msKeys ''ETH'' (snd demo_after) = 45" by code_simp
  ultimately show ?thesis by simp
qed

text \<open>
  C16: A duplicate is never processed again. For a block that is in flight, that the storage reports
  as processed, or whose state the storage cannot report, the outcome of a job does not depend on
  what the processor would do with it: the processor is not called.
\<close>

theorem duplicate_job_not_processed:
  assumes "jobNumber job \<in> inFlightBlocks t \<or>
      fst (st_IsBlockProcessed S (bp_GetNetwork P) (jobNumber job) w) \<noteq> Inr False"
  shows "processBlockJob S (P\<lparr>bp_ProcessBlock := f\<rparr>) job (t, w) = processBlockJob S P job (t, w)"
proof (cases "jobNumber job \<in> inFlightBlocks t")
  case True
  then show ?thesis by (simp add: processBlockJob_def Let_def)
next
  case False
  obtain q w1 where q: "st_IsBlockProcessed S (bp_GetNetwork P) (jobNumber job) w = (q, w1)"
    by (cases "st_IsBlockProcessed S (bp_GetNetwork P) (jobNumber job) w")
  with assms False have "q \<noteq> Inr False" by simp
  then show ?thesis
    using q False by (cases q) (simp_all add: processBlockJob_def Let_def)
qed

theorem duplicate_job_not_processed_witness:
  "processBlockJob (redisStorage mem_exec exact_bloom)
     (demo_processor\<lparr>bp_ProcessBlock := \<lambda>b s. (Inl DeadlineExceeded, s)\<rparr>)
     \<lparr>jobNumber = 42, jobSource = ''polling''\<rparr> (demo_tracker, demo_world) =
   processBlockJob (redisStorage mem_exec exact_bloom) demo_processor
     \<lparr>jobNumber = 42, jobSource = ''polling''\<rparr> (demo_tracker, demo_world)"
proof (rule duplicate_job_not_processed)
  have "fst (st_IsBlockProcessed (redisStorage mem_exec exact_bloom) ''ETH'' 42 demo_world) = Inr True"
    by code_simp
  then show "jobNumber \<lparr>jobNumber = 42, jobSource = ''polling''\<rparr> \<in> inFlightBlocks demo_tracker \<or>
      fst (st_IsBlockProcessed (redisStorage mem_exec exact_bloom) (bp_GetNetwork demo_processor)
        (jobNumber \<lparr>jobNumber = 42, jobSource = ''polling''\<rparr>) demo_world) \<noteq> Inr False"
    by simp
qed

text \<open>
  C17: A block without enough confirmations is requeued, not lost. The job leaves the outside world as
  the two reads left it, arms a timer for the block with the requeue delay (never zero or negative),
  and when the timer fires in the same run, with room in the realtime queue, the block is the last
  job of that queue.
\<close>

theorem shallow_block_requeued:
  assumes "jobNumber job \<notin> inFlightBlocks t"
    and "st_IsBlockProcessed S (bp_GetNetwork P) (jobNumber job) w = (Inr False, w1)"
    and "bp_GetCurrentBlockHeight P w1 = (Inr cur, w2)" "\<not> deep_enough (config t) cur (jobNumber job)"
    and "processBlockJob S P job (t, w) = (t', w')"
  shows "w' = w2 \<and> 0 < requeueDelay (config t) \<and>
    requeues t' = requeues t @ [(requeueDelay (config t), jobNumber job, runId t)] \<and>
    realtimeCh t' = realtimeCh t \<and>
    (\<not> cancelled t \<and> \<not> stopped t \<and> int (length (realtimeCh t)) < realtimeCap t \<longrightarrow>
       realtimeCh (fireRequeue pick (length (requeues t)) t') =
         realtimeCh t @ [\<lparr>jobNumber = jobNumber job, jobSource = blockSourceRequeue\<rparr>])"
proof -
  let ?t1 = "t\<lparr>inFlightBlocks := insert (jobNumber job) (inFlightBlocks t)\<rparr>"
  have "processBlockSafely S P (jobNumber job) (?t1, w1) =
      (None, (requeueBlock (jobNumber job) (?t1\<lparr>lastProcessing := jobNumber job\<rparr>), w2))"
    by (rule processBlockSafely_shallow [OF assms(3)]) (use assms(4) in simp)
  then have t': "t' = releaseInFlight (jobNumber job) (requeueBlock (jobNumber job)
      (?t1\<lparr>lastProcessing := jobNumber job\<rparr>))" and w': "w' = w2"
    using assms(1,2,5) by (simp_all add: processBlockJob_def Let_def)
  have "0 < requeueDelay (config t)"
    by (simp add: requeueDelay_def Second_def Millisecond_def)
  then show ?thesis
    by (simp add: w' t' requeueBlock_def releaseInFlight_def fireRequeue_def Let_def
        select_case_def ready_cases_def nth_append)
qed

theorem shallow_block_requeued_witness:
  "\<exists>t' w'. processBlockJob (redisStorage mem_exec exact_bloom) demo_processor
       \<lparr>jobNumber = 58, jobSource = ''realtime''\<rparr> (demo_tracker, demo_world) = (t', w') \<and>
     requeues t' = [(5 * Second, 58, 0)] \<and>
     realtimeCh (fireRequeue TimerFired 0 t') = [\<lparr>jobNumber = 58, jobSource = ''requeue''\<rparr>]"
proof -
  let ?S = "redisStorage mem_exec exact_bloom :: (mem_server, string list) world Storage"
  let ?job = "\<lparr>jobNumber = 58, jobSource = ''realtime''\<rparr>"
  obtain t' w' where p: "processBlockJob ?S demo_processor ?job (demo_tracker, demo_world) = (t', w')"
    by (metis surj_pair)
  have q: "fst (st_IsBlockProcessed ?S (bp_GetNetwork demo_processor) (jobNumber ?job) demo_world) = Inr False"
    by code_simp
  have h: "bp_GetCurrentBlockHeight demo_processor w = (Inr 60, w)" for w
    by (simp add: demo_processor_def)
  have d: "\<not> deep_enough (config demo_tracker) 60 (jobNumber ?job)" "jobNumber ?job \<notin> inFlightBlocks demo_tracker"
    and c: "requeues demo_tracker = []" "requeueDelay (config demo_tracker) = 5 * Second" "runId demo_tracker = 0"
      "realtimeCh demo_tracker = []" "realtimeCap demo_tracker = 200"
      "\<not> cancelled demo_tracker" "\<not> stopped demo_tracker"
    by code_simp+
  from shallow_block_requeued [OF d(2) pair_fst [OF q] h d(1) p] p c show ?thesis
    by (simp add: block_sources)
qed

text \<open>
  C18: The life cycle of a tracker. Starting a running tracker is refused and changes nothing; a failed
  start leaves it stopped; a successful one starts with empty queues, nothing in flight and at
  least five goroutines; stopping ends all of them and stopping twice is the same as stopping once.
\<close>

theorem start_stop_lifecycle:
  "(isRunning t \<longrightarrow> (\<exists>err. bt_Start P pd (t, w) = (Some err, (t, w)))) \<and>
   (\<not> isRunning t \<longrightarrow> (case bt_Start P pd (t, w) of (r, (t1, w1)) \<Rightarrow>
      (isRunning t1 \<longleftrightarrow> r = None) \<and> (r = None \<longrightarrow> wgCount t + 5 \<le> wgCount t1) \<and>
      realtimeCh t1 = [] \<and> catchupCh t1 = [] \<and> inFlightBlocks t1 = {} \<and> \<not> stopped t1 \<and>
      200 \<le> realtimeCap t1 \<and> 1000 \<le> catchupCap t1 \<and> config t1 = config t)) \<and>
   (case bt_Stop P (t, w) of (r, (t2, w2)) \<Rightarrow>
      r = None \<and> \<not> isRunning t2 \<and> (isRunning t \<longrightarrow> wgCount t2 = 0 \<and> cancelled t2 \<and> stopped t2) \<and>
      bt_Stop P (t2, w2) = (None, (t2, w2)))"
proof -
  obtain rw cw rc cc where ws: "workerSplit (config t) = (rw, cw)" and qc: "queueCaps (config t) rw cw = (rc, cc)"
    by (metis surj_pair)
  have b: "1 \<le> rw" "1 \<le> cw" "200 \<le> rc" "1000 \<le> cc"
    using ws qc by (auto simp: workerSplit_def queueCaps_def Let_def split: if_splits)
  have "case bt_Start P pd (t, w) of (r, (t1, w1)) \<Rightarrow>
      (isRunning t1 \<longleftrightarrow> r = None) \<and> (r = None \<longrightarrow> wgCount t + 5 \<le> wgCount t1) \<and>
      realtimeCh t1 = [] \<and> catchupCh t1 = [] \<and> inFlightBlocks t1 = {} \<and> \<not> stopped t1 \<and>
      200 \<le> realtimeCap t1 \<and> 1000 \<le> catchupCap t1 \<and> config t1 = config t" if "\<not> isRunning t"
    using that b by (auto simp: bt_Start_def Let_def ws qc split: prod.splits option.splits)
  moreover have "isRunning t \<Longrightarrow> \<exists>err. bt_Start P pd (t, w) = (Some err, (t, w))"
    by (simp add: bt_Start_def)
  moreover have "case bt_Stop P (t, w) of (r, (t2, w2)) \<Rightarrow>
      r = None \<and> \<not> isRunning t2 \<and> (isRunning t \<longrightarrow> wgCount t2 = 0 \<and> cancelled t2 \<and> stopped t2) \<and>
      bt_Stop P (t2, w2) = (None, (t2, w2))"
    by (auto simp: bt_Stop_def Let_def split: prod.splits)
  ultimately show ?thesis by blast
qed

theorem start_stop_lifecycle_witness:
  "case bt_Start demo_processor False (demo_tracker, demo_world) of (r, (t1, w1)) \<Rightarrow>
     r = None \<and> isRunning t1 \<and> 5 \<le> wgCount t1 \<and> 200 \<le> realtimeCap t1"
proof -
  have "\<not> isRunning demo_tracker" "fst (bt_Start demo_processor False (demo_tracker, demo_world)) = None"
    by code_simp+
  with start_stop_lifecycle [of demo_tracker demo_processor False demo_world] show ?thesis
    by (auto split: prod.splits)
qed

text \<open>
  C21: A failed read of the stored mark at start loses the backlog. When the height can be read but the
  stored mark cannot, the initial catch-up takes the network for a new one: it writes the current
  height as the mark and enqueues nothing, so the mark passes every block after the old one although
  none of them was marked.
\<close>

theorem catchup_read_error_skips_blocks:
  assumes "tracker_inv ex view P w" "bp_GetCurrentBlockHeight P w = (Inr cur, w1)"
    and "GetLastProcessedBlock ex (bp_GetNetwork P) w1 = (Inl err, w2)"
    and "SetLastProcessedBlock ex (bp_GetNetwork P) cur w2 = (None, w3)"
    and "lastBlock view (bp_GetNetwork P) w < cur"
  shows "performInitialCatchup (redisStorage ex BL) P pick (t, w) = Some (t, w3) \<and>
    lastBlock view (bp_GetNetwork P) w3 = cur \<and>
    marked view (bp_GetNetwork P) w3 = marked view (bp_GetNetwork P) w"
proof -
  note H = tc.height_reads [OF assms(1,2)]
  note G = tc.getLast_reads [OF H [THEN conjunct1], unfolded st_redis, OF assms(3)]
  note L = tc.setLast_any [OF G [THEN conjunct1], unfolded st_redis, OF assms(4)]
    tc.setLast_ok [OF G [THEN conjunct1], unfolded st_redis, OF assms(4)]
  have "normalizeLastProcessed (redisStorage ex BL) P (config t) cur w1 = (0, w2)"
    using assms(3) by (simp add: normalizeLastProcessed_def)
  then have "performInitialCatchup (redisStorage ex BL) P pick (t, w) = Some (t, w3)"
    using assms(2,4) by (simp add: performInitialCatchup_def Let_def)
  with H G L assms(5) show ?thesis by (simp add: max_absorb2 less_imp_le)
qed

text \<open>The same world with the next Redis command lost.\<close>

definition demo_flaky :: "(mem_server, string list) world" where
  "demo_flaky = demo_world\<lparr>env := (env demo_world)\<lparr>msFail := [True]\<rparr>\<rparr>"

theorem catchup_read_error_skips_blocks_witness:
  "\<exists>w3. performInitialCatchup (redisStorage mem_exec exact_bloom) demo_processor (\<lambda>_. SendReady)
      (demo_tracker, demo_flaky) = Some (demo_tracker, w3) \<and>
    lastBlock msKeys ''ETH'' demo_flaky = 41 \<and> lastBlock msKeys ''ETH'' w3 = 60 \<and>
    \<not> marked msKeys ''ETH'' w3 44"
proof -
  have inv: "tracker_inv mem_exec msKeys demo_processor demo_flaky"
    using demo_tracker_inv
    by (simp add: tracker_inv_def progress_inv_def last_wf_def lastStored_def keys_def demo_flaky_def)
  have h: "bp_GetCurrentBlockHeight demo_processor demo_flaky = (Inr 60, demo_flaky)"
    by (simp add: demo_processor_def)
  let ?g = "GetLastProcessedBlock mem_exec (bp_GetNetwork demo_processor) demo_flaky"
  let ?s = "SetLastProcessedBlock mem_exec (bp_GetNetwork demo_processor) 60 (snd ?g)"
  have g: "fst ?g = Inl (ErrorString ''i/o timeout'')" and s: "fst ?s = None"
    and l: "lastBlock msKeys (bp_GetNetwork demo_processor) demo_flaky = 41"
    and k: "\<not> marked msKeys (bp_GetNetwork demo_processor) demo_flaky 44"
    by code_simp+
  have "lastBlock msKeys (bp_GetNetwork demo_processor) demo_flaky < 60" unfolding l by simp
  from catchup_read_error_skips_blocks [OF inv h pair_fst [OF g] pair_fst [OF s] this] l k
  show ?thesis by (intro exI [of _ "snd ?s"]) simp
qed

text \<open>The examples for the queue theorems: the mark is at 41 and the safe head at 57.\<close>

lemma demo_height: "bp_GetCurrentBlockHeight demo_processor demo_world = (Inr 60, demo_world)"
  by (simp add: demo_processor_def)

lemma demo_getLast:
  "fst (st_GetLastProcessedBlock (redisStorage mem_exec exact_bloom) (bp_GetNetwork demo_processor) demo_world) = Inr 41"
  by code_simp

lemma demo_safeHead: "safeHeadCur (config demo_tracker) 60 = 57"
  by code_simp

theorem polling_enqueues_range_witness:
  "\<exists>k \<le> 16. realtimeCh (fst (performPolling (redisStorage mem_exec exact_bloom) demo_processor
       (\<lambda>_. SendReady) (demo_tracker, demo_world))) = jobs blockSourcePolling 42 k"
proof -
  have l: "unat (41 :: u64) < 2 ^ 64 - 1" "unat (safeHeadCur (config demo_tracker) 60) < 2 ^ 64 - 1"
    unfolding demo_safeHead by simp_all
  have "realtimeCh demo_tracker = []" by code_simp
  with polling_enqueues_range [OF demo_height pair_fst [OF demo_getLast] l prod.collapse [symmetric],
      of "\<lambda>_. SendReady"]
  show ?thesis unfolding demo_safeHead by auto
qed

theorem catchup_enqueues_backlog_witness:
  "\<exists>t' w' k. performInitialCatchup (redisStorage mem_exec exact_bloom) demo_processor
       (\<lambda>_. SendReady) (demo_tracker, demo_world) = Some (t', w') \<and> k \<le> 16 \<and>
     catchupCh t' = jobs blockSourceCatchup 42 k"
proof -
  have l: "(41 :: u64) \<noteq> 0" "unat (41 :: u64) + 10 < unat (60 :: u64)" by simp_all
  have b: "CatchupBatchSize (config demo_tracker) = 4" by code_simp
  have c: "0 < CatchupBatchSize (config demo_tracker)"
    "unat (60 :: u64) + nat (CatchupBatchSize (config demo_tracker)) < 2 ^ 64"
    unfolding b by simp_all
  have "catchupCh demo_tracker = []" by code_simp
  with catchup_enqueues_backlog [OF demo_height pair_fst [OF demo_getLast] l c, of "\<lambda>_. SendReady"]
  show ?thesis unfolding demo_safeHead by auto
qed

end
