(* ===== verification/Client_World.thy ===== *)
theory Client_World
  imports Event_Env Tracker_Progress
begin

text \<open>
  The world of a running tracker: Redis, the broker, the network and the clock (\<open>env\<close>), the Bloom filters,
  and the state of the chain's client. An operation of a client becomes an operation on this world by
  \<open>liftC\<close>; it is silent for the tracker when the client's calls leave Redis and the broker alone.

  The locale \<open>block_source\<close> is what the base tracker may rely on from a chain's processor: a block reported as
  complete had its events published. Inside it the tracker's guarantee is proved once: a block that a job
  marks as processed had its events published by that job.
\<close>

section \<open>Clients in the world\<close>

record ('e, 'f, 'c) client_world = "('e, 'f) world" +
  client :: 'c

definition liftC ::
  "('c \<times> 'e \<Rightarrow> 'a \<times> 'c \<times> 'e) \<Rightarrow> ('e, 'f, 'c, 'm) client_world_scheme \<Rightarrow> 'a \<times> ('e, 'f, 'c, 'm) client_world_scheme" where
  "liftC f w = (case f (client w, env w) of (r, (c, e)) \<Rightarrow> (r, w\<lparr>env := e, client := c\<rparr>))"

text \<open>Calls that do not involve the client: the clock, a timer, the rate limiter.\<close>

definition liftE :: "('e \<Rightarrow> 'a \<times> 'e) \<Rightarrow> ('e, 'f, 'm) world_scheme \<Rightarrow> 'a \<times> ('e, 'f, 'm) world_scheme" where
  "liftE f w = (case f (env w) of (r, e) \<Rightarrow> (r, w\<lparr>env := e\<rparr>))"

lemma liftC_silent:
  assumes "services_ok ex view amqp clock sent"
    and "view (snd (snd (f (client w, env w)))) = view (env w)" "sent (snd (snd (f (client w, env w)))) = sent (env w)"
  shows "silent (redisView ex BL view amqp clock sent n) w (snd (liftC f w))"
  by (rule silent_env [OF assms(1)]) (use assms(2,3) in \<open>simp_all add: liftC_def split_beta\<close>)

lemma liftE_silent:
  assumes "services_ok ex view amqp clock sent"
    and "view (snd (f (env w))) = view (env w)" "sent (snd (f (env w))) = sent (env w)"
  shows "silent (redisView ex BL view amqp clock sent n) w (snd (liftE f w))"
  by (rule silent_env [OF assms(1)]) (use assms(2,3) in \<open>simp_all add: liftE_def split_beta\<close>)

section \<open>The storage and the broker\<close>

text \<open>The commands of the tracker itself send nothing.\<close>

lemma IsBlockProcessed_sent:
  "redis_apart ex sent \<Longrightarrow> IsBlockProcessed ex n b w = (r, w') \<Longrightarrow> sent (env w') = sent (env w)"
  using rcmd_sent by (fastforce simp: IsBlockProcessed_def split: prod.splits)

lemma MarkBlockProcessed_sent:
  "redis_apart ex sent \<Longrightarrow> MarkBlockProcessed ex n b w = (r, w') \<Longrightarrow> sent (env w') = sent (env w)"
  unfolding MarkBlockProcessed_def
  by (auto split: prod.splits option.splits dest: rcmd_sent [of ex sent]) (metis rcmd_sent)

lemma DeleteCache_sent:
  "redis_apart ex sent \<Longrightarrow> DeleteCache ex k w = (r, w') \<Longrightarrow> sent (env w') = sent (env w)"
  unfolding DeleteCache_def by (auto split: prod.splits dest!: rcmd_sent)

lemma advanceWalk_sent:
  "redis_apart ex sent \<Longrightarrow> advanceWalk ex n l a w = (r, w') \<Longrightarrow> sent (env w') = sent (env w)"
proof (induction ex n l a w rule: advanceWalk.induct)
  case (1 ex n l a w)
  obtain rep w1 where c: "rcmd ex (GetBit (windowKey n (a + 1)) (bitPos (a + 1))) w = (rep, w1)"
    by (cases "rcmd ex (GetBit (windowKey n (a + 1)) (bitPos (a + 1))) w")
  note s = rcmd_sent [OF 1(2) c]
  show ?case
  proof (cases "bit_result rep")
    case (Inl err)
    with 1(3) c s show ?thesis by (simp add: advanceWalk.simps [of ex n l a w] Let_def)
  next
    case (Inr v)
    with 1(3) c s 1(1) [OF refl c [symmetric] Inr, OF _ _ 1(2)] show ?thesis
      by (auto simp: advanceWalk.simps [of ex n l a w] Let_def split: if_splits)
  qed
qed

lemma GetLast_sent:
  "redis_apart ex sent \<Longrightarrow> GetLastProcessedBlock ex n w = (r, w') \<Longrightarrow> sent (env w') = sent (env w)"
  using rcmd_sent by (fastforce simp: GetLastProcessedBlock_def split: prod.splits sum.splits if_splits)

lemma SetLast_sent:
  assumes "redis_apart ex sent" "SetLastProcessedBlock ex n b w = (r, w')"
  shows "sent (env w') = sent (env w)"
proof -
  obtain rep w1 where c: "rcmd ex (HGet lastKey n) w = (rep, w1)" by (cases "rcmd ex (HGet lastKey n) w")
  obtain rep' w2 where d: "rcmd ex (HSet lastKey n (FormatUint b)) w1 = (rep', w2)"
    by (cases "rcmd ex (HSet lastKey n (FormatUint b)) w1")
  have "w' = w1 \<or> w' = w2"
    using assms(2) c d by (auto simp: SetLastProcessedBlock_def Let_def split: sum.splits if_splits)
  with rcmd_sent [OF assms(1) c] rcmd_sent [OF assms(1) d] show ?thesis by auto
qed

lemma Advance_sent:
  assumes "redis_apart ex sent" "AdvanceHighWaterMark ex n w = (r, w')"
  shows "sent (env w') = sent (env w)"
proof -
  obtain x1 w1 where g: "GetLastProcessedBlock ex n w = (x1, w1)" by (cases "GetLastProcessedBlock ex n w")
  obtain x2 w2 where a: "advanceWalk ex n (projr x1) (projr x1) w1 = (x2, w2)"
    by (cases "advanceWalk ex n (projr x1) (projr x1) w1")
  have "w' = w1 \<or> w' = w2 \<or> SetLastProcessedBlock ex n (projr x2) w2 = (r, w')"
    using assms(2) g a unfolding AdvanceHighWaterMark_def by (auto split: sum.splits if_splits)
  then show ?thesis
    using GetLast_sent [OF assms(1) g] advanceWalk_sent [OF assms(1) a] SetLast_sent [OF assms(1)] by metis
qed

section \<open>Marked blocks were published\<close>

locale block_source =
  fixes ex :: "'e redis_exec" and BL :: "'f bloom_lib" and view :: "'e \<Rightarrow> keyspace" and amqp :: "'e amqp_send"
    and clock :: "'e clock" and sent :: "'e \<Rightarrow> amqp_message list"
    and P :: "('e, 'f, 'm) world_scheme BlockProcessor"
    and spec :: "('e, 'f, 'm) world_scheme \<Rightarrow> u64 \<Rightarrow> ((string \<rightharpoonup> string) \<Rightarrow> payload list) \<Rightarrow> bool \<Rightarrow> bool"
    and ready :: bool
  assumes services: "ready \<Longrightarrow> services_ok ex view amqp clock sent"
    and height_silent:
      "ready \<Longrightarrow> bp_GetCurrentBlockHeight P w = (r, w') \<Longrightarrow> silent (redisView ex BL view amqp clock sent (bp_GetNetwork P)) w w'"
    and process_frame:
      "ready \<Longrightarrow> bp_ProcessBlock P b (t, w) = (rb, (t', w')) \<Longrightarrow>
       ev_frame (redisView ex BL view amqp clock sent (bp_GetNetwork P)) w' =
       ev_frame (redisView ex BL view amqp clock sent (bp_GetNetwork P)) w \<and> t' = t\<lparr>processedTxs := processedTxs t'\<rparr>"
    and process_complete:
      "ready \<Longrightarrow> bp_ProcessBlock P b (t, w) = (Inr True, (t', w')) \<Longrightarrow>
       \<exists>f c. spec w b f c \<and> followsU (redisView ex BL view amqp clock sent (bp_GetNetwork P)) c f w w'"
begin

lemma source_quiet:
  assumes ready
  shows "quiet view P"
proof -
  have "progress_same view (bp_GetNetwork P) w w'" if "bp_GetCurrentBlockHeight P w = (r, w')" for w r w'
    using height_silent [OF assms that] by (simp add: emits_def progress_same_def)
  moreover have "progress_same view (bp_GetNetwork P) w w' \<and> t' = t\<lparr>processedTxs := processedTxs t'\<rparr>"
    if "bp_ProcessBlock P b (t, w) = (r, (t', w'))" for b t w r t' w'
    using process_frame [OF assms that] by (simp add: progress_same_def)
  ultimately show ?thesis unfolding quiet_def by blast
qed

lemma source_inv: "ready \<Longrightarrow> progress_inv ex view (bp_GetNetwork P) w \<Longrightarrow> tracker_inv ex view P w"
  by (simp add: tracker_inv_def source_quiet)

lemma source_same_marks:
  assumes ready
  shows "bp_GetCurrentBlockHeight P w = (rh, w') \<Longrightarrow> marked view (bp_GetNetwork P) w' = marked view (bp_GetNetwork P) w"
    "bp_ProcessBlock P b (t, w) = (rb, (t', w')) \<Longrightarrow> marked view (bp_GetNetwork P) w' = marked view (bp_GetNetwork P) w"
  using source_quiet [OF assms] unfolding quiet_def progress_same_def by blast+

lemma job_publishes:
  assumes rd: ready and inv: "progress_inv ex view (bp_GetNetwork P) w" "wallets_ok BL view (bp_GetNetwork P) w"
    and job: "processBlockJob (redisStorage ex BL) P job (t, w) = (t', w')"
    and new: "\<not> marked view (bp_GetNetwork P) w a" "marked view (bp_GetNetwork P) w' a"
  shows "\<exists>w1 w2 cur f c xs. IsBlockProcessed ex (bp_GetNetwork P) a w = (Inr False, w1) \<and>
    bp_GetCurrentBlockHeight P w1 = (Inr cur, w2) \<and> a \<le> cur \<and> spec w2 a f c \<and>
    published sent w' = published sent w @ xs \<and> subseq (map untimed xs) (f (watched view (bp_GetNetwork P) w)) \<and>
    (c \<longrightarrow> map untimed xs = f (watched view (bp_GetNetwork P) w))"
proof -
  let ?n = "bp_GetNetwork P" and ?V = "redisView ex BL view amqp clock sent (bp_GetNetwork P)"
  let ?t1 = "t\<lparr>inFlightBlocks := insert (jobNumber job) (inFlightBlocks t)\<rparr>"
  have laws: "redis_laws ex view" "redis_apart ex sent" using services [OF rd] by (simp_all add: services_ok_def)
  from tc.processBlockJob_new_mark [OF source_inv [OF rd inv(1)] job new]
  obtain w1 where a: "a = jobNumber job" "a \<notin> inFlightBlocks t"
    and q: "IsBlockProcessed ex ?n a w = (Inr False, w1)" by auto
  obtain r t2 w2 where p: "processBlockSafely (redisStorage ex BL) P a (?t1, w1) = (r, (t2, w2))" by (metis prod_cases3)
  have w2: "w' = w2"
    using job q a p by (auto simp: processBlockJob_def Let_def split: option.splits if_splits)
  have s1: "silent ?V w w1"
  proof (rule silent_redis [OF services [OF rd]])
    obtain rep where c: "rcmd ex (GetBit (windowKey ?n a) (bitPos a)) w = (rep, w1)"
      using q by (auto simp: IsBlockProcessed_def split: prod.splits)
    have k: "keys view w1 = keys view w" "wbloom w1 = wbloom w" using rcmd_read [OF laws(1) c] by simp_all
    from views_cong [OF k(1)] show "progress_same view ?n w w1" by (simp add: progress_same_def)
    from k show "keys view w1 (walletsKey ?n) = keys view w (walletsKey ?n)" "wbloom w1 = wbloom w" by simp_all
    show "sent (env w1) = sent (env w)" by (rule rcmd_sent [OF laws(2) c])
  qed
  have m1: "\<not> marked view ?n w1 a" using s1 new(1) by (simp add: emits_def)
  have main: "\<exists>w1 w2 cur f c xs. IsBlockProcessed ex ?n a w = (Inr False, w1) \<and>
      bp_GetCurrentBlockHeight P w1 = (Inr cur, w2) \<and> a \<le> cur \<and> spec w2 a f c \<and>
      published sent w' = published sent w @ xs \<and> subseq (map untimed xs) (f (watched view ?n w)) \<and>
      (c \<longrightarrow> map untimed xs = f (watched view ?n w))"
    if h: "bp_GetCurrentBlockHeight P w1 = (Inr cur, w3)" and d: "deep_enough (config t) cur a" and b: "bp_ProcessBlock P a (u, w3) = (Inr True, (u', w4))"
      and s: "sent (env w') = sent (env w4)" for cur w3 u u' w4
  proof -
    note s2 = silent_then [OF s1 height_silent [OF rd h]]
    from process_complete [OF rd b] obtain f c where f: "spec w3 a f c" "followsU ?V c f w3 w4" by blast
    have i: "wallets_ok BL view ?n w3" "watched view ?n w3 = watched view ?n w" "published sent w3 = published sent w"
      using s2 inv(2) by (simp_all add: emits_def)
    from f(2) i obtain xs where "published sent w4 = published sent w @ xs"
      "subseq (map untimed xs) (f (watched view ?n w))" "c \<longrightarrow> map untimed xs = f (watched view ?n w)"
      by (auto simp: followsU_def)
    moreover have "published sent w' = published sent w4" by (simp add: published_def s)
    ultimately show ?thesis using f(1) q h d by (auto simp: deep_enough_def)
  qed
  from p show ?thesis
  proof (cases rule: processBlockSafely_paths)
    case (height_error err)
    with source_same_marks(1) [OF rd] m1 w2 new(2) show ?thesis by simp
  next
    case (requeued cur)
    with source_same_marks(1) [OF rd] m1 w2 new(2) show ?thesis by simp
  next
    case (not_marked cur w3 pr)
    with source_same_marks [OF rd] m1 w2 new(2) show ?thesis by simp
  next
    case (mark_error cur w3 w4 err)
    from MarkBlockProcessed_sent [OF laws(2)] mark_error(4) w2 have "sent (env w') = sent (env w4)" by (simp only: st_redis)
    from main [OF mark_error(1) _ mark_error(3) this] mark_error(2) show ?thesis by simp
  next
    case (marked cur w3 t3 w4 w5 w6 d x)
    have "sent (env w') = sent (env w4)"
      using MarkBlockProcessed_sent [OF laws(2) marked(4) [unfolded st_redis]]
        DeleteCache_sent [OF laws(2) marked(5) [unfolded st_redis]] Advance_sent [OF laws(2) marked(6) [unfolded st_redis]] w2
      by simp
    from main [OF marked(1) _ marked(3) this] marked(2) show ?thesis by simp
  qed
qed

end

end
