(* ===== verification/Tron_Client.thy ===== *)
theory Tron_Client
  imports Json_Http Config_Model
begin

text \<open>
  The HTTP client of TRON (\<open>internal/blockchain/tron/client.go\<close>) and the response types it decodes
  (\<open>models.go\<close>). A method is a function on the client and the state \<open>'e\<close> of the outside world; the
  network services \<open>N\<close> are parameters. Requests rotate over the configured providers: a round tries
  each of them once, and after a failed round the client waits and starts over.
\<close>

section \<open>Responses\<close>

record contractResponse =
  crType :: string
  crValue :: "json option"

record transactionResponse =
  trTxID :: string
  trContract :: "contractResponse list"
  trRet :: "string list"

record tronBlock =
  brBlockID :: string
  brNumber :: u64
  brTimestamp :: int
  brTransactions :: "transactionResponse list"

record transferContract =
  tcOwnerAddress :: string
  tcToAddress :: string
  tcAmount :: int

record eventLog =
  elAddress :: string
  elTopics :: "string list"
  elData :: string

record transactionInfoResponse =
  tiID :: string
  tiTxID :: string
  tiFee :: int
  tiResult :: string
  tiEnergyFee :: int
  tiNetFee :: int
  tiLog :: "eventLog list"

definition info_txID :: "transactionInfoResponse \<Rightarrow> string" where
  "info_txID t = (if tiID t \<noteq> '''' then tiID t else tiTxID t)"

definition dec_contractResponse :: "json \<Rightarrow> contractResponse res" where
  "dec_contractResponse j =
     rbind (as_obj j) (\<lambda>o'. rbind (dec_string (field ''type'' o')) (\<lambda>ty.
     rbind (as_obj (field ''parameter'' o')) (\<lambda>p.
     Inr \<lparr>crType = ty, crValue = raw_field ''value'' p\<rparr>)))"

definition dec_transactionResponse :: "json \<Rightarrow> transactionResponse res" where
  "dec_transactionResponse j =
     rbind (as_obj j) (\<lambda>o'. rbind (dec_string (field ''txID'' o')) (\<lambda>txid.
     rbind (as_obj (field ''raw_data'' o')) (\<lambda>r. rbind (dec_list dec_contractResponse (field ''contract'' r)) (\<lambda>cs.
     rbind (dec_list (\<lambda>x. rbind (as_obj x) (\<lambda>ro. dec_string (field ''contractRet'' ro))) (field ''ret'' o')) (\<lambda>rets.
     Inr \<lparr>trTxID = txid, trContract = cs, trRet = rets\<rparr>)))))"

definition dec_blockResponse :: "json \<Rightarrow> tronBlock res" where
  "dec_blockResponse j =
     rbind (as_obj j) (\<lambda>o'. rbind (dec_string (field ''blockID'' o')) (\<lambda>bid.
     rbind (as_obj (field ''block_header'' o')) (\<lambda>h. rbind (as_obj (field ''raw_data'' h)) (\<lambda>r.
     rbind (dec_uint64 (field ''number'' r)) (\<lambda>n. rbind (dec_int64 (field ''timestamp'' r)) (\<lambda>ts.
     rbind (dec_list dec_transactionResponse (field ''transactions'' o')) (\<lambda>txs.
     Inr \<lparr>brBlockID = bid, brNumber = n, brTimestamp = ts, brTransactions = txs\<rparr>)))))))"

definition dec_transferContract :: "json \<Rightarrow> transferContract res" where
  "dec_transferContract j =
     rbind (as_obj j) (\<lambda>o'. rbind (dec_string (field ''owner_address'' o')) (\<lambda>ow.
     rbind (dec_string (field ''to_address'' o')) (\<lambda>to'. rbind (dec_int64 (field ''amount'' o')) (\<lambda>n.
     Inr \<lparr>tcOwnerAddress = ow, tcToAddress = to', tcAmount = n\<rparr>))))"

definition dec_triggerSmartContract :: "json \<Rightarrow> string res" where
  "dec_triggerSmartContract j = rbind (as_obj j) (\<lambda>o'. dec_string (field ''contract_address'' o'))"

definition dec_eventLog :: "json \<Rightarrow> eventLog res" where
  "dec_eventLog j =
     rbind (as_obj j) (\<lambda>o'. rbind (dec_string (field ''address'' o')) (\<lambda>a.
     rbind (dec_list dec_string (field ''topics'' o')) (\<lambda>ts. rbind (dec_string (field ''data'' o')) (\<lambda>d.
     Inr \<lparr>elAddress = a, elTopics = ts, elData = d\<rparr>))))"

definition dec_transactionInfo :: "json \<Rightarrow> transactionInfoResponse res" where
  "dec_transactionInfo j =
     rbind (as_obj j) (\<lambda>o'. rbind (dec_string (field ''id'' o')) (\<lambda>i.
     rbind (dec_string (field ''txID'' o')) (\<lambda>t. rbind (dec_int64 (field ''fee'' o')) (\<lambda>f.
     rbind (as_obj (field ''receipt'' o')) (\<lambda>r. rbind (dec_string (field ''result'' r)) (\<lambda>rs.
     rbind (dec_int64 (field ''energy_fee'' r)) (\<lambda>ef. rbind (dec_int64 (field ''net_fee'' r)) (\<lambda>nf.
     rbind (dec_list dec_eventLog (field ''log'' o')) (\<lambda>ls.
     Inr \<lparr>tiID = i, tiTxID = t, tiFee = f, tiResult = rs, tiEnergyFee = ef, tiNetFee = nf, tiLog = ls\<rparr>)))))))))"

section \<open>The client\<close>

record TronClient =
  tcBaseURLs :: "string list"
  tcApiKey :: string
  tcUseSolidity :: bool
  tcTimeout :: duration
  tcRate :: int
  tcBurst :: int
  tcCurrentIndex :: nat
  tcRequests :: "string \<rightharpoonup> u64"
  tcErrors :: "string \<rightharpoonup> u64"
  tcLastProvider :: string
  tcInFlight :: u64
  tcRetryAttempts :: int
  tcRetryDelay :: duration

definition NewTronClient :: "TronConfig \<Rightarrow> TronClient res" where
  "NewTronClient cfg =
     (let urls = (if trxAPIURLs cfg = [] \<and> trxAPIURL cfg \<noteq> '''' then [trxAPIURL cfg] else trxAPIURLs cfg) in
      if urls = [] then Inl (ErrorString ''no TRON API URLs configured'')
      else Inr \<lparr>tcBaseURLs = urls, tcApiKey = trxAPIKey cfg, tcUseSolidity = trxUseSolidity cfg,
        tcTimeout = (if trxRPCTimeout cfg \<le> 0 then 30 * Second else trxRPCTimeout cfg),
        tcRate = (if trxRequestsPerSecond cfg \<le> 0 then 5 else trxRequestsPerSecond cfg),
        tcBurst = (if trxRequestsBurst cfg \<le> 0 then 10 else trxRequestsBurst cfg),
        tcCurrentIndex = 0, tcRequests = Map.empty, tcErrors = Map.empty, tcLastProvider = '''',
        tcInFlight = 0,
        tcRetryAttempts = (if trxRetryAttempts cfg \<le> 0 then 3 else trxRetryAttempts cfg),
        tcRetryDelay = (if trxRetryDelay cfg \<le> 0 then 2 * Second else trxRetryDelay cfg)\<rparr>)"

definition walletPath :: "TronClient \<Rightarrow> string \<Rightarrow> string" where
  "walletPath c method = (if tcUseSolidity c then ''/walletsolidity/'' @ method else ''/wallet/'' @ method)"

definition nextProvider :: "TronClient \<Rightarrow> string \<times> TronClient" where
  "nextProvider c =
     (tcBaseURLs c ! tcCurrentIndex c,
      c\<lparr>tcCurrentIndex := (tcCurrentIndex c + 1) mod length (tcBaseURLs c)\<rparr>)"

definition bump :: "string \<Rightarrow> (string \<rightharpoonup> u64) \<Rightarrow> (string \<rightharpoonup> u64)" where
  "bump k m = m(k \<mapsto> (case m k of None \<Rightarrow> 1 | Some n \<Rightarrow> n + 1))"

definition recordSuccess :: "string \<Rightarrow> TronClient \<Rightarrow> TronClient" where
  "recordSuccess provider c = c\<lparr>tcRequests := bump provider (tcRequests c), tcLastProvider := provider\<rparr>"

definition recordError :: "string \<Rightarrow> TronClient \<Rightarrow> TronClient" where
  "recordError provider c = c\<lparr>tcErrors := bump provider (tcErrors c), tcLastProvider := provider\<rparr>"

definition TrimRight_slash :: "string \<Rightarrow> string" where
  "TrimRight_slash s = rev (dropWhile (\<lambda>c. c = CHR ''/'') (rev s))"

text \<open>One request. The counter of requests in flight is raised and lowered around the transport.\<close>

definition doPost ::
  "'e netio \<Rightarrow> (json \<Rightarrow> 'a res) \<Rightarrow> string \<Rightarrow> string \<Rightarrow> json \<Rightarrow> TronClient \<times> 'e \<Rightarrow> 'a res \<times> TronClient \<times> 'e" where
  "doPost N decode baseURL path payload s = (case s of (c, e) \<Rightarrow>
     (case net_wait N e of
        (Some err, e1) \<Rightarrow> (Inl err, (c, e1))
      | (None, e1) \<Rightarrow>
          let url = TrimRight_slash baseURL @ path in
          (case net_urlErr N url of
             Some err \<Rightarrow> (Inl err, (c, e1))
           | None \<Rightarrow>
               let req = \<lparr>reqMethod = ''POST'', reqURL = url,
                     reqHeaders = (''Content-Type'', ''application/json'') #
                       (if tcApiKey c \<noteq> '''' then [(''TRON-PRO-API-KEY'', tcApiKey c)] else []),
                     reqBody = Some payload\<rparr>;
                   c1 = c\<lparr>tcInFlight := tcInFlight c + 1\<rparr>
               in case net_do N req e1 of (res, e2) \<Rightarrow>
                    let c2 = c1\<lparr>tcInFlight := tcInFlight c1 + not 0\<rparr> in
                    (case res of
                       Inl err \<Rightarrow> (Inl err, (c2, e2))
                     | Inr resp \<Rightarrow>
                         if respStatus resp < 200 \<or> respStatus resp \<ge> 300
                         then (Inl (ErrorString (''unexpected HTTP status '' @ dec (nat (respStatus resp)) @ '': '' @
                           TrimSpace (case respBody resp of Inl _ \<Rightarrow> '''' | Inr b \<Rightarrow> take 512 b))), (c2, e2))
                         else (case decode_body decode resp of
                                 Inl err \<Rightarrow> (Inl (Wrap ''failed to decode TRON response'' err), (c2, e2))
                               | Inr x \<Rightarrow> (Inr x, (c2, e2)))))))"

text \<open>The two loops of \<open>post\<close>: \<open>i\<close> providers left in the round, then \<open>k\<close> attempts left.\<close>

datatype 'a round = Answer 'a | Abort error | NoAnswer "error option"

fun postRound ::
  "'e netio \<Rightarrow> (json \<Rightarrow> 'a res) \<Rightarrow> string \<Rightarrow> json \<Rightarrow> nat \<Rightarrow> error option \<Rightarrow> TronClient \<times> 'e \<Rightarrow>
   'a round \<times> TronClient \<times> 'e" where
  "postRound N decode path payload 0 lastErr s = (NoAnswer lastErr, s)"
| "postRound N decode path payload (Suc i) lastErr (c, e) =
     (case nextProvider c of (baseURL, c1) \<Rightarrow>
        (case doPost N decode baseURL path payload (c1, e) of
           (Inl err, (c2, e2)) \<Rightarrow>
             (case net_ctxErr N e2 of
                Some cerr \<Rightarrow> (Abort cerr, (c2, e2))
              | None \<Rightarrow> postRound N decode path payload i (Some err) (recordError baseURL c2, e2))
         | (Inr x, (c2, e2)) \<Rightarrow> (Answer x, (recordSuccess baseURL c2, e2))))"

fun postAttempts ::
  "'e netio \<Rightarrow> (json \<Rightarrow> 'a res) \<Rightarrow> string \<Rightarrow> json \<Rightarrow> nat \<Rightarrow> error option \<Rightarrow> TronClient \<times> 'e \<Rightarrow>
   'a res \<times> TronClient \<times> 'e" where
  "postAttempts N decode path payload 0 lastErr s =
     (Inl (case lastErr of None \<Rightarrow> ErrorString ''TRON request failed'' | Some err \<Rightarrow> err), s)"
| "postAttempts N decode path payload (Suc k) lastErr s =
     (case postRound N decode path payload (length (tcBaseURLs (fst s))) lastErr s of
        (Answer x, s1) \<Rightarrow> (Inr x, s1)
      | (Abort err, s1) \<Rightarrow> (Inl err, s1)
      | (NoAnswer lastErr1, (c1, e1)) \<Rightarrow>
          if k > 0 then
            (case net_sleep N (tcRetryDelay c1) e1 of
               (True, e2) \<Rightarrow> (Inl (ctx_error N e2), (c1, e2))
             | (False, e2) \<Rightarrow> postAttempts N decode path payload k lastErr1 (c1, e2))
          else postAttempts N decode path payload k lastErr1 (c1, e1))"

definition post ::
  "'e netio \<Rightarrow> (json \<Rightarrow> 'a res) \<Rightarrow> string \<Rightarrow> json \<Rightarrow> TronClient \<times> 'e \<Rightarrow> 'a res \<times> TronClient \<times> 'e" where
  "post N decode path payload s =
     postAttempts N decode path payload (nat (tcRetryAttempts (fst s))) None s"

section \<open>The calls\<close>

definition numParam :: "u64 \<Rightarrow> json" where
  "numParam number = JObj [(''num'', JInt (uint number))]"

definition tron_GetCurrentBlockHeight :: "'e netio \<Rightarrow> TronClient \<times> 'e \<Rightarrow> u64 res \<times> TronClient \<times> 'e" where
  "tron_GetCurrentBlockHeight N s =
     (case post N dec_blockResponse (walletPath (fst s) ''getnowblock'') (JObj []) s of
        (Inl err, s1) \<Rightarrow> (Inl err, s1)
      | (Inr block, s1) \<Rightarrow> (Inr (brNumber block), s1))"

definition tron_GetBlockByNumber ::
  "'e netio \<Rightarrow> u64 \<Rightarrow> TronClient \<times> 'e \<Rightarrow> tronBlock res \<times> TronClient \<times> 'e" where
  "tron_GetBlockByNumber N number s =
     (case post N dec_blockResponse (walletPath (fst s) ''getblockbynum'') (numParam number) s of
        (Inl err, s1) \<Rightarrow> (Inl err, s1)
      | (Inr block, s1) \<Rightarrow>
          if number \<noteq> 0 \<and> brBlockID block = '''' \<and> brNumber block = 0 \<and> brTransactions block = []
          then (Inl (ErrorString (''TRON block '' @ FormatUint number @ '' not found'')), s1)
          else (Inr block, s1))"

definition GetTransactionInfo ::
  "'e netio \<Rightarrow> string \<Rightarrow> TronClient \<times> 'e \<Rightarrow> transactionInfoResponse res \<times> TronClient \<times> 'e" where
  "GetTransactionInfo N txID s =
     (case post N dec_transactionInfo (walletPath (fst s) ''gettransactioninfobyid'') (JObj [(''value'', JStr txID)]) s of
        (Inl err, s1) \<Rightarrow> (Inl err, s1)
      | (Inr info, s1) \<Rightarrow> (Inr (if tiID info = '''' then info\<lparr>tiID := txID\<rparr> else info), s1))"

definition GetTransactionInfoByBlockNumber ::
  "'e netio \<Rightarrow> u64 \<Rightarrow> TronClient \<times> 'e \<Rightarrow> transactionInfoResponse list res \<times> TronClient \<times> 'e" where
  "GetTransactionInfoByBlockNumber N number s =
     post N (dec_list dec_transactionInfo) (walletPath (fst s) ''gettransactioninfobyblocknum'') (numParam number) s"

definition tron_ProviderStats :: "TronClient \<Rightarrow> (string \<rightharpoonup> u64) \<times> (string \<rightharpoonup> u64) \<times> string" where
  "tron_ProviderStats c = (tcRequests c, tcErrors c, tcLastProvider c)"

section \<open>What a request leaves behind\<close>

definition client_ok :: "TronClient \<Rightarrow> bool" where
  "client_ok c \<longleftrightarrow> tcCurrentIndex c < length (tcBaseURLs c)"

text \<open>The fields that never change and the in-flight counter, which is restored.\<close>

definition client_core :: "TronClient \<Rightarrow> string list \<times> string \<times> bool \<times> int \<times> duration \<times> u64" where
  "client_core c = (tcBaseURLs c, tcApiKey c, tcUseSolidity c, tcRetryAttempts c, tcRetryDelay c, tcInFlight c)"

lemma client_core_rec [simp]:
  "client_core (recordSuccess p c) = client_core c" "client_core (recordError p c) = client_core c"
  by (simp_all add: client_core_def recordSuccess_def recordError_def)

lemma client_ok_rec [simp]:
  "client_ok (recordSuccess p c) = client_ok c" "client_ok (recordError p c) = client_ok c"
  by (simp_all add: client_ok_def recordSuccess_def recordError_def)

lemma nextProvider_ok:
  assumes "client_ok c" "nextProvider c = (u, c')"
  shows "client_ok c'" "client_core c' = client_core c" "u = tcBaseURLs c ! tcCurrentIndex c"
    "tcCurrentIndex c' = (tcCurrentIndex c + 1) mod length (tcBaseURLs c)"
proof -
  have n: "0 < length (tcBaseURLs c)" using assms(1) by (auto simp: client_ok_def)
  have c: "u = tcBaseURLs c ! tcCurrentIndex c"
    "c' = c\<lparr>tcCurrentIndex := (tcCurrentIndex c + 1) mod length (tcBaseURLs c)\<rparr>"
    using assms(2) by (simp_all add: nextProvider_def)
  show "client_ok c'" unfolding client_ok_def c using n by simp
  show "client_core c' = client_core c" unfolding client_core_def c by simp
  show "u = tcBaseURLs c ! tcCurrentIndex c"
    "tcCurrentIndex c' = (tcCurrentIndex c + 1) mod length (tcBaseURLs c)" unfolding c by simp_all
qed

lemma inFlight_restored: "(x :: u64) + 1 + not 0 = x"
  by (simp add: not_eq_complement)

lemma doPost_client:
  assumes "doPost N decode u path payload (c, e) = (r, (c', e'))"
  shows "c' = c"
proof -
  have "c\<lparr>tcInFlight := tcInFlight c + 1\<rparr>\<lparr>tcInFlight := tcInFlight (c\<lparr>tcInFlight := tcInFlight c + 1\<rparr>) + not 0\<rparr> = c"
    by (simp add: inFlight_restored)
  with assms show ?thesis
    by (auto simp: doPost_def Let_def split: prod.splits option.splits sum.splits if_splits)
qed

lemma doPost_frame:
  assumes "net_frame N view" "doPost N decode u path payload (c, e) = (r, (c', e'))"
  shows "view e' = view e"
proof -
  obtain x e1 where w: "net_wait N e = (x, e1)" by (cases "net_wait N e")
  have "view e' = view e1"
    using assms(2) w net_frameD(1) [OF assms(1)]
    by (auto simp: doPost_def Let_def split: prod.splits option.splits sum.splits if_splits)
  with net_frameD(2) [OF assms(1) w] show ?thesis by simp
qed

lemma postRound_client:
  "client_ok c \<Longrightarrow> postRound N decode path payload i l (c, e) = (r, (c', e')) \<Longrightarrow>
   client_ok c' \<and> client_core c' = client_core c"
proof (induction i arbitrary: l c e)
  case (Suc i)
  obtain u c1 where n: "nextProvider c = (u, c1)" by (cases "nextProvider c")
  obtain d c2 e2 where d: "doPost N decode u path payload (c1, e) = (d, (c2, e2))"
    by (cases "doPost N decode u path payload (c1, e)") auto
  note c2 = doPost_client [OF d]
  note ok = nextProvider_ok [OF Suc.prems(1) n]
  show ?case
  proof (cases d)
    case (Inr x)
    with Suc.prems n d ok c2 show ?thesis by auto
  next
    case (Inl err)
    show ?thesis
    proof (cases "net_ctxErr N e2")
      case None
      with Inl Suc.prems n d have "postRound N decode path payload i (Some err) (recordError u c2, e2) = (r, (c', e'))"
        by simp
      from Suc.IH [OF _ this] ok c2 show ?thesis by simp
    next
      case (Some cerr)
      with Inl Suc.prems n d ok c2 show ?thesis by auto
    qed
  qed
qed simp

lemma postRound_frame:
  assumes "net_frame N view"
  shows "postRound N decode path payload i l (c, e) = (r, (c', e')) \<Longrightarrow> view e' = view e"
proof (induction i arbitrary: l c e)
  case (Suc i)
  obtain u c1 where n: "nextProvider c = (u, c1)" by (cases "nextProvider c")
  obtain d c2 e2 where d: "doPost N decode u path payload (c1, e) = (d, (c2, e2))"
    by (cases "doPost N decode u path payload (c1, e)") auto
  from doPost_frame [OF assms d] Suc n d show ?case
    by (auto split: sum.splits option.splits)
qed simp

lemma postAttempts_frame:
  assumes "net_frame N view"
  shows "postAttempts N decode path payload k l (c, e) = (r, (c', e')) \<Longrightarrow> view e' = view e"
proof (induction k arbitrary: l c e)
  case (Suc k)
  obtain d c1 e1 where d: "postRound N decode path payload (length (tcBaseURLs c)) l (c, e) = (d, (c1, e1))"
    by (cases "postRound N decode path payload (length (tcBaseURLs c)) l (c, e)") auto
  note v = postRound_frame [OF assms d]
  obtain b e2 where s: "net_sleep N (tcRetryDelay c1) e1 = (b, e2)" by (cases "net_sleep N (tcRetryDelay c1) e1")
  note w = net_frameD(3) [OF assms s]
  consider "e' = e1" | "e' = e2" | l' where "postAttempts N decode path payload k l' (c1, e2) = (r, (c', e'))"
    | l' where "postAttempts N decode path payload k l' (c1, e1) = (r, (c', e'))"
    using Suc.prems d s by (cases d; cases b; cases "0 < k") simp_all
  then show ?case using v w Suc.IH by cases metis+
qed simp

lemma post_frame:
  "net_frame N view \<Longrightarrow> post N decode path payload (c, e) = (r, (c', e')) \<Longrightarrow> view e' = view e"
  unfolding post_def by (rule postAttempts_frame)

section \<open>Failover\<close>

lemma mod_step: "((k + 1) mod n + j) mod n = (k + Suc j) mod (n :: nat)"
  by (simp add: mod_add_left_eq)

text \<open>A round asks the providers in turn; one that answers is found within its distance.\<close>

lemma postRound_finds:
  assumes "\<And>c e. \<exists>x. fst (doPost N decode u path payload (c, e)) = Inr x" "\<And>e. net_ctxErr N e = None"
  shows "client_ok c \<Longrightarrow> tcBaseURLs c ! ((tcCurrentIndex c + j) mod length (tcBaseURLs c)) = u \<Longrightarrow> j < i \<Longrightarrow>
    \<exists>x s. postRound N decode path payload i l (c, e) = (Answer x, s)"
proof (induction i arbitrary: j l c e)
  case (Suc i)
  obtain v c1 where n: "nextProvider c = (v, c1)" by (cases "nextProvider c")
  note ok = nextProvider_ok [OF Suc.prems(1) n]
  obtain d c2 e2 where d: "doPost N decode v path payload (c1, e) = (d, (c2, e2))"
    by (cases "doPost N decode v path payload (c1, e)") auto
  show ?case
  proof (cases d)
    case (Inr x)
    with n d show ?thesis by simp
  next
    case (Inl err)
    have "j \<noteq> 0"
    proof
      assume "j = 0"
      then have "v = u" using Suc.prems(1,2) ok(3) by (simp add: client_ok_def)
      with assms(1) [of c1 e] d Inl show False by auto
    qed
    then obtain j' where j: "j = Suc j'" by (cases j) auto
    let ?c = "recordError v c2"
    have b: "tcBaseURLs ?c = tcBaseURLs c" "tcCurrentIndex ?c = tcCurrentIndex c1"
      using doPost_client [OF d] ok(2) by (simp_all add: recordError_def client_core_def)
    have "client_ok ?c" using doPost_client [OF d] ok(1) by simp
    moreover have "tcBaseURLs ?c ! ((tcCurrentIndex ?c + j') mod length (tcBaseURLs ?c)) = u"
      using Suc.prems(2) unfolding b ok(4) mod_step j .
    moreover have "j' < i" using Suc.prems(3) j by simp
    ultimately have "\<exists>x s. postRound N decode path payload i (Some err) (?c, e2) = (Answer x, s)" by (rule Suc.IH)
    with n d Inl assms(2) show ?thesis by simp
  qed
qed simp

text \<open>
  C30: failover: as long as one configured provider answers and the context is not cancelled, a request succeeds within
  its first round, whichever provider the rotation starts with and however the others fail; the in-flight
  counter is back where it was and the rotation index stays within the list.
\<close>

theorem post_finds_working_provider:
  assumes "client_ok c" "0 < tcRetryAttempts c" "u \<in> set (tcBaseURLs c)"
    and "\<And>c e. \<exists>x. fst (doPost N decode u path payload (c, e)) = Inr x"
    and "\<And>e. net_ctxErr N e = None"
  shows "\<exists>x c' e'. post N decode path payload (c, e) = (Inr x, (c', e')) \<and>
    client_ok c' \<and> tcInFlight c' = tcInFlight c"
proof -
  let ?n = "length (tcBaseURLs c)"
  have k: "tcCurrentIndex c < ?n" using assms(1) by (simp add: client_ok_def)
  from assms(3) obtain i where i: "i < ?n" "tcBaseURLs c ! i = u" by (auto simp: in_set_conv_nth)
  have "(tcCurrentIndex c + ((i + ?n - tcCurrentIndex c) mod ?n)) mod ?n = i"
    using k i(1) by (simp add: mod_simps)
  then obtain x s where r: "postRound N decode path payload ?n None (c, e) = (Answer x, s)"
    using postRound_finds [OF assms(4,5,1), of "(i + ?n - tcCurrentIndex c) mod ?n" ?n None e] i k
    by (metis mod_less_divisor not_gr_zero not_less_zero)
  obtain m where "nat (tcRetryAttempts c) = Suc m" using assms(2) by (metis gr0_conv_Suc zero_less_nat_eq)
  with r have "post N decode path payload (c, e) = (Inr x, s)" by (simp add: post_def)
  moreover have "client_ok (fst s)" "tcInFlight (fst s) = tcInFlight c"
    using postRound_client [OF assms(1), of N decode path payload ?n None e "Answer x" "fst s" "snd s"] r
    by (auto simp: client_core_def)
  ultimately show ?thesis by (metis prod.collapse)
qed

text \<open>Two providers, of which the first never answers: the request is served by the second.\<close>

definition demo_net :: "nat netio" where
  "demo_net = \<lparr>net_do = (\<lambda>req e. (if reqURL req = ''b/wallet/getnowblock''
       then Inr \<lparr>respStatus = 200, respContentType = '''', respRetryAfter = None, respBody = Inr ''{}'', respJson = Some (JObj [])\<rparr>
       else Inl (ErrorString ''connection refused''), e + 1)),
     net_urlErr = (\<lambda>_. None), net_wait = (\<lambda>e. (None, e)), net_ctxErr = (\<lambda>_. None),
     net_sleep = (\<lambda>_ e. (False, e)), net_now = (\<lambda>e. (0, e))\<rparr>"

definition demo_client :: TronClient where
  "demo_client = \<lparr>tcBaseURLs = [''a'', ''b''], tcApiKey = '''', tcUseSolidity = False, tcTimeout = Second, tcRate = 5,
     tcBurst = 10, tcCurrentIndex = 0, tcRequests = Map.empty, tcErrors = Map.empty, tcLastProvider = '''',
     tcInFlight = 0, tcRetryAttempts = 3, tcRetryDelay = Second\<rparr>"

theorem post_finds_working_provider_witness:
  "client_ok demo_client \<and> ''b'' \<in> set (tcBaseURLs demo_client) \<and>
   (\<exists>x c' e'. post demo_net dec_blockResponse ''/wallet/getnowblock'' (JObj []) (demo_client, 0) = (Inr x, (c', e')) \<and>
      client_ok c' \<and> tcInFlight c' = tcInFlight demo_client)"
proof (intro conjI)
  have t: "TrimRight_slash ''b'' = ''b''" by code_simp
  have d: "\<exists>x. dec_blockResponse (JObj []) = Inr x" by (simp add: dec_blockResponse_def field_def)
  have w: "\<exists>x. fst (doPost demo_net dec_blockResponse ''b'' ''/wallet/getnowblock'' (JObj []) (c, e)) = Inr x" for c e
    using d by (auto simp: doPost_def demo_net_def Let_def t decode_body_def)
  show ok: "client_ok demo_client" and u: "''b'' \<in> set (tcBaseURLs demo_client)"
    by (simp_all add: client_ok_def demo_client_def)
  show "\<exists>x c' e'. post demo_net dec_blockResponse ''/wallet/getnowblock'' (JObj []) (demo_client, 0) = (Inr x, (c', e')) \<and>
      client_ok c' \<and> tcInFlight c' = tcInFlight demo_client"
    by (rule post_finds_working_provider [OF ok _ u w]) (simp_all add: demo_client_def demo_net_def)
qed

end
