(* ===== verification/Tron_Address.thy ===== *)
theory Tron_Address
  imports Sha256
begin

text \<open>
  The addresses of TRON (\<open>internal/blockchain/tron/address.go\<close>): hexadecimal and Base58Check spellings
  of the 21 bytes \<open>0x41 ++ account\<close>, and the normalization to the Base58Check spelling under which
  wallets are stored and looked up. Go's \<open>big.Int\<close> is an \<^typ>\<open>int\<close>, a byte slice a list of bytes.
\<close>

section \<open>Hexadecimal (package encoding/hex)\<close>

definition hexval :: "char \<Rightarrow> int option" where
  "hexval c = (let n = of_char c :: int in
     if 48 \<le> n \<and> n \<le> 57 then Some (n - 48)
     else if 97 \<le> n \<and> n \<le> 102 then Some (n - 87)
     else if 65 \<le> n \<and> n \<le> 70 then Some (n - 55)
     else None)"

definition hexdigit :: "int \<Rightarrow> char" where
  "hexdigit d = (if d < 10 then char_of (48 + d) else char_of (87 + d))"

definition EncodeToString :: "byte list \<Rightarrow> string" where
  "EncodeToString bs = concat (map (\<lambda>b. [hexdigit (uint b div 16), hexdigit (uint b mod 16)]) bs)"

fun DecodeString :: "string \<Rightarrow> byte list res" where
  "DecodeString [] = Inr []"
| "DecodeString [c] =
     Inl (ErrorString (if hexval c = None then ''encoding/hex: invalid byte'' else ''encoding/hex: odd length hex string''))"
| "DecodeString (c # d # s) =
     (case (hexval c, hexval d) of
        (Some x, Some y) \<Rightarrow>
          (case DecodeString s of Inl err \<Rightarrow> Inl err | Inr bs \<Rightarrow> Inr (word_of_int (16 * x + y) # bs))
      | _ \<Rightarrow> Inl (ErrorString ''encoding/hex: invalid byte''))"

definition isHexString :: "string \<Rightarrow> bool" where
  "isHexString value = (if value = '''' then False else list_all (\<lambda>r. hexval r \<noteq> None) value)"

section \<open>Base58\<close>

definition tronAddressPrefix :: byte where
  "tronAddressPrefix = 0x41"

definition base58Alphabet :: string where
  "base58Alphabet = ''123456789ABCDEFGHJKLMNPQRSTUVWXYZabcdefghijkmnopqrstuvwxyz''"

text \<open>\<open>big.Int.SetBytes\<close> and \<open>Bytes\<close>: big-endian, without leading zeros.\<close>

definition SetBytes :: "byte list \<Rightarrow> int" where
  "SetBytes bs = foldl (\<lambda>x b. 256 * x + uint b) 0 bs"

function Bytes :: "int \<Rightarrow> byte list" where
  "Bytes x = (if x > 0 then Bytes (x div 256) @ [word_of_int (x mod 256)] else [])"
  by pat_completeness auto
termination by (relation "measure nat") auto

declare Bytes.simps [simp del]

text \<open>The loop of \<open>base58Encode\<close>, lowest digit first, and the leading zero bytes as the digit \<open>1\<close>.\<close>

function digits58 :: "int \<Rightarrow> string" where
  "digits58 x = (if x > 0 then base58Alphabet ! nat (x mod 58) # digits58 (x div 58) else [])"
  by pat_completeness auto
termination by (relation "measure nat") auto

declare digits58.simps [simp del]

definition base58Encode :: "byte list \<Rightarrow> string" where
  "base58Encode input =
     rev (digits58 (SetBytes input) @
          replicate (length (takeWhile (\<lambda>b. b = 0) input)) (base58Alphabet ! 0))"

text \<open>\<open>strings.IndexRune\<close> as an option.\<close>

fun indexRune :: "string \<Rightarrow> char \<Rightarrow> int option" where
  "indexRune [] r = None"
| "indexRune (c # s) r = (if c = r then Some 0 else map_option (\<lambda>i. i + 1) (indexRune s r))"

fun decode58 :: "int \<Rightarrow> string \<Rightarrow> int res" where
  "decode58 result [] = Inr result"
| "decode58 result (r # s) =
     (case indexRune base58Alphabet r of
        None \<Rightarrow> Inl (ErrorString (''invalid base58 character '' @ [CHR 0x27, r, CHR 0x27]))
      | Some index \<Rightarrow> decode58 (result * 58 + index) s)"

definition base58Decode :: "string \<Rightarrow> byte list res" where
  "base58Decode input =
     (case decode58 0 input of
        Inl err \<Rightarrow> Inl err
      | Inr result \<Rightarrow>
          let decoded = Bytes result;
              leadingZeros = length (takeWhile (\<lambda>c. c = base58Alphabet ! 0) input)
          in Inr (if leadingZeros > 0 then replicate leadingZeros 0 @ decoded else decoded))"

section \<open>Base58Check and the addresses\<close>

definition checksum :: "byte list \<Rightarrow> byte list" where
  "checksum payload = take 4 (Sum256 (Sum256 payload))"

definition base58CheckEncode :: "byte list \<Rightarrow> string" where
  "base58CheckEncode payload = base58Encode (payload @ checksum payload)"

definition base58CheckDecode :: "string \<Rightarrow> byte list res" where
  "base58CheckDecode address =
     (case base58Decode address of
        Inl err \<Rightarrow> Inl err
      | Inr decoded \<Rightarrow>
          if length decoded < 5 then Inl (ErrorString ''invalid base58check payload'')
          else let payload = take (length decoded - 4) decoded;
                   gotChecksum = drop (length decoded - 4) decoded
               in if list_all2 (=) gotChecksum (checksum payload) then Inr payload
                  else Inl (ErrorString ''invalid base58check checksum''))"

definition addressToHex41 :: "string \<Rightarrow> string res" where
  "addressToHex41 address0 =
     (let address = TrimSpace address0 in
      if address = '''' then Inl (ErrorString ''empty TRON address'')
      else
        let hexAddr = TrimPrefix (ToLower address) ''0x'';
            viaBase58 = (case base58CheckDecode address of
                Inl err \<Rightarrow> Inl err
              | Inr payload \<Rightarrow>
                  if length payload \<noteq> 21 \<or> payload ! 0 \<noteq> tronAddressPrefix
                  then Inl (ErrorString ''invalid TRON address payload'')
                  else Inr (EncodeToString payload))
        in if isHexString hexAddr then
             if length hexAddr = 40 then Inr (''41'' @ hexAddr)
             else if length hexAddr = 42 then
               if \<not> HasPrefix hexAddr ''41'' then Inl (ErrorString ''TRON hex address must start with 41'')
               else Inr hexAddr
             else viaBase58
           else viaBase58)"

definition hexToBase58Address :: "string \<Rightarrow> string res" where
  "hexToBase58Address hexAddr0 =
     (let hexAddr1 = TrimPrefix (ToLower (TrimSpace hexAddr0)) ''0x'';
          hexAddr = (if length hexAddr1 = 40 then ''41'' @ hexAddr1 else hexAddr1)
      in if length hexAddr \<noteq> 42 then Inl (ErrorString ''invalid TRON hex address length'')
         else case DecodeString hexAddr of
                Inl err \<Rightarrow> Inl (Wrap ''invalid TRON hex address'' err)
              | Inr payload \<Rightarrow>
                  if length payload \<noteq> 21 \<or> payload ! 0 \<noteq> tronAddressPrefix
                  then Inl (ErrorString ''TRON hex address must start with 41'')
                  else Inr (base58CheckEncode payload))"

definition topicToBase58Address :: "string \<Rightarrow> string res" where
  "topicToBase58Address topic0 =
     (let topic = TrimPrefix (ToLower (TrimSpace topic0)) ''0x'' in
      if length topic < 40 \<or> \<not> isHexString topic then Inl (ErrorString ''invalid TRC20 address topic'')
      else hexToBase58Address (''41'' @ drop (length topic - 40) topic))"

definition normalizeTronAddress :: "string \<Rightarrow> string res" where
  "normalizeTronAddress address =
     (case addressToHex41 address of Inl err \<Rightarrow> Inl err | Inr hex41 \<Rightarrow> hexToBase58Address hex41)"

definition NormalizeAddress :: "string \<Rightarrow> string res" where
  "NormalizeAddress address = normalizeTronAddress address"

section \<open>Hexadecimal round trips\<close>

lemma hexval_hexdigit: "0 \<le> d \<Longrightarrow> d < 16 \<Longrightarrow> hexval (hexdigit d) = Some d"
  by (auto simp: hexval_def hexdigit_def Let_def)

lemma byte_split: "word_of_int (16 * (uint b div 16) + uint b mod 16) = (b :: byte)"
  by simp

lemma uint_byte: "0 \<le> uint (b :: byte)" "uint (b :: byte) < 256"
  using unsigned_less [of b, where ?'a = int] by simp_all

lemma nibbles:
  fixes u :: int
  assumes "0 \<le> u" "u < 256"
  shows "0 \<le> u div 16" "u div 16 < 16" "0 \<le> u mod 16" "u mod 16 < 16"
  using assms by presburger+

lemma EncodeToString_Cons:
  "EncodeToString (b # bs) = hexdigit (uint b div 16) # hexdigit (uint b mod 16) # EncodeToString bs"
  by (simp add: EncodeToString_def)

lemma EncodeToString_Nil [simp]: "EncodeToString [] = []"
  by (simp add: EncodeToString_def)

lemma EncodeToString_empty [simp]: "EncodeToString bs = [] \<longleftrightarrow> bs = []"
  by (cases bs) (simp_all add: EncodeToString_Cons)

lemma length_EncodeToString [simp]: "length (EncodeToString bs) = 2 * length bs"
  by (induction bs) (simp_all add: EncodeToString_Cons)

lemma DecodeString_EncodeToString [simp]: "DecodeString (EncodeToString bs) = Inr bs"
proof (induction bs)
  case (Cons b bs)
  note nibbles [OF uint_byte [of b]]
  with Cons show ?case by (simp add: EncodeToString_Cons hexval_hexdigit)
qed simp

lemma EncodeToString_inject: "EncodeToString a = EncodeToString b \<longleftrightarrow> a = b"
  by (metis DecodeString_EncodeToString sum.inject(2))

text \<open>A lower-case hexadecimal string of even length is the encoding of the bytes it decodes to.\<close>

lemma hexval_lower:
  assumes "hexval c = Some d" "lower_char c = c"
  shows "hexdigit d = c \<and> 0 \<le> d \<and> d < 16"
proof -
  define n :: int where "n = of_char c"
  have c: "char_of n = c" by (simp add: n_def)
  have "\<not> (65 \<le> n \<and> n \<le> 70)"
  proof
    assume a: "65 \<le> n \<and> n \<le> 70"
    define m :: nat where "m = of_char c"
    have "n = int m" by (simp add: n_def m_def of_nat_of_char)
    with a assms(2) have "char_of (m + 32) = c" by (auto simp: lower_char_def Let_def m_def)
    then have "(m + 32) mod 256 = m" unfolding m_def by (metis of_char_of)
    with a \<open>n = int m\<close> show False by simp
  qed
  with assms(1) c show ?thesis
    by (auto simp: hexval_def hexdigit_def Let_def n_def [symmetric] split: if_splits)
qed

lemma hex_canonical:
  assumes "list_all (\<lambda>r. hexval r \<noteq> None) s" "map lower_char s = s" "even (length s)"
  shows "\<exists>bs. s = EncodeToString bs"
  using assms
proof (induction s rule: DecodeString.induct)
  case (3 c d s)
  then obtain x y where x: "hexval c = Some x" "hexval d = Some y" by auto
  with 3 obtain bs where bs: "s = EncodeToString bs" by auto
  from hexval_lower [OF x(1)] hexval_lower [OF x(2)] "3.prems"(2)
  have h: "hexdigit x = c" "hexdigit y = d" "0 \<le> x" "x < 16" "0 \<le> y" "y < 16" by auto
  then have "uint (word_of_int (16 * x + y) :: byte) = 16 * x + y"
    unfolding uint_word_of_int_eq by (intro take_bit_int_eq_self) auto
  with h bs have "c # d # s = EncodeToString (word_of_int (16 * x + y) # bs)"
    by (simp add: EncodeToString_Cons)
  then show ?case by blast
qed (auto intro: exI [of _ "[]"])

section \<open>Base58 round trip\<close>

lemma SetBytes_snoc: "SetBytes (bs @ [b]) = 256 * SetBytes bs + uint b"
  by (simp add: SetBytes_def)

lemma SetBytes_nonneg: "0 \<le> SetBytes bs"
  by (induction bs rule: rev_induct) (simp_all add: SetBytes_snoc, simp add: SetBytes_def)

lemma SetBytes_zero: "SetBytes bs = 0 \<longleftrightarrow> (\<forall>b \<in> set bs. b = 0)"
proof (induction bs rule: rev_induct)
  case (snoc b bs)
  have "256 * SetBytes bs + uint b = 0 \<longleftrightarrow> SetBytes bs = 0 \<and> uint b = 0"
    using SetBytes_nonneg [of bs] uint_byte(1) [of b] by linarith
  with snoc show ?case by (auto simp: SetBytes_snoc unsigned_eq_0_iff)
qed (simp add: SetBytes_def)

lemma Bytes_SetBytes: "Bytes (SetBytes bs) = dropWhile (\<lambda>b. b = 0) bs"
proof (induction bs rule: rev_induct)
  case Nil
  show ?case by (subst Bytes.simps) (simp add: SetBytes_def)
next
  case (snoc b bs)
  let ?x = "SetBytes bs"
  note b = uint_byte [of b] and x = SetBytes_nonneg [of bs]
  show ?case
  proof (cases "256 * ?x + uint b > 0")
    case True
    have "(256 * ?x + uint b) div 256 = ?x" "(256 * ?x + uint b) mod 256 = uint b"
      using b by simp_all
    with True have "Bytes (SetBytes (bs @ [b])) = Bytes ?x @ [b]"
      unfolding SetBytes_snoc by (subst Bytes.simps) simp
    moreover have "\<exists>c \<in> set (bs @ [b]). c \<noteq> 0"
      using True SetBytes_zero [of "bs @ [b]"] by (auto simp: SetBytes_snoc)
    ultimately show ?thesis
      using snoc.IH by (cases "\<forall>c \<in> set bs. c = 0") (auto simp: dropWhile_append3 dropWhile_append1
          dropWhile_eq_Nil_conv dropWhile_append)
  next
    case False
    then have "SetBytes (bs @ [b]) = 0" using b x unfolding SetBytes_snoc by linarith
    then show ?thesis using SetBytes_zero [of "bs @ [b]"]
      by (subst Bytes.simps) (auto simp: dropWhile_eq_Nil_conv)
  qed
qed

lemma base58Alphabet_facts:
  "length base58Alphabet = 58" "distinct base58Alphabet" "list_all (\<lambda>c. \<not> isSpace c) base58Alphabet"
  by code_simp+

lemma indexRune_nth: "distinct s \<Longrightarrow> i < length s \<Longrightarrow> indexRune s (s ! i) = Some (int i)"
proof (induction s arbitrary: i)
  case (Cons c s)
  then show ?case by (cases i) auto
qed simp

lemma indexRune_digit: "0 \<le> d \<Longrightarrow> d < 58 \<Longrightarrow> indexRune base58Alphabet (base58Alphabet ! nat d) = Some d"
  using indexRune_nth [of base58Alphabet "nat d"] base58Alphabet_facts by simp

lemma decode58_append:
  "decode58 a (s @ t) = (case decode58 a s of Inl err \<Rightarrow> Inl err | Inr v \<Rightarrow> decode58 v t)"
  by (induction s arbitrary: a) (auto split: option.splits)

lemma decode58_digits: "0 \<le> x \<Longrightarrow> decode58 0 (rev (digits58 x)) = Inr x"
proof (induction x rule: digits58.induct)
  case (1 x)
  show ?case
  proof (cases "x > 0")
    case True
    then have "decode58 0 (rev (digits58 (x div 58))) = Inr (x div 58)" using 1 by simp
    with True show ?thesis
      by (subst digits58.simps) (simp add: decode58_append indexRune_digit)
  next
    case False
    with "1.prems" show ?thesis by (subst digits58.simps) simp
  qed
qed

lemma decode58_ones: "decode58 0 (replicate n (base58Alphabet ! 0) @ s) = decode58 0 s"
  using indexRune_digit [of 0] by (induction n) simp_all

lemma last_digit58: "x > 0 \<Longrightarrow> digits58 x \<noteq> [] \<and> last (digits58 x) \<noteq> base58Alphabet ! 0"
proof (induction x rule: digits58.induct)
  case (1 x)
  show ?case
  proof (cases "x div 58 > 0")
    case True
    with 1 show ?thesis by (subst (1 2) digits58.simps) simp
  next
    case False
    with "1.prems" have "x div 58 = 0" "x mod 58 = x" "x < 58" by auto
    moreover have "digits58 0 = []" by (subst digits58.simps) simp
    ultimately show ?thesis using "1.prems"
        nth_eq_iff_index_eq [OF base58Alphabet_facts(2), of "nat x" 0] base58Alphabet_facts(1)
      by (subst (1 2) digits58.simps) simp
  qed
qed

lemma base58_roundtrip: "base58Decode (base58Encode bs) = Inr bs"
proof -
  let ?z = "length (takeWhile (\<lambda>b. b = 0) bs)" and ?one = "base58Alphabet ! 0"
  let ?d = "rev (digits58 (SetBytes bs))"
  have enc: "base58Encode bs = replicate ?z ?one @ ?d" by (simp add: base58Encode_def)
  have dec: "decode58 0 (base58Encode bs) = Inr (SetBytes bs)"
    by (simp add: enc decode58_ones decode58_digits SetBytes_nonneg)
  have "takeWhile (\<lambda>c. c = ?one) ?d = []"
  proof (cases "SetBytes bs > 0")
    case True
    with last_digit58 [OF True] show ?thesis by (simp add: takeWhile_eq_Nil_iff hd_rev)
  next
    case False
    then show ?thesis by (subst digits58.simps) simp
  qed
  then have "takeWhile (\<lambda>c. c = ?one) (base58Encode bs) = replicate ?z ?one"
    by (simp add: enc takeWhile_append)
  moreover have "replicate ?z 0 = takeWhile (\<lambda>b. b = 0) bs"
    by (induction bs) auto
  then have "replicate ?z 0 @ dropWhile (\<lambda>b. b = 0) bs = bs" by simp
  ultimately show ?thesis
    by (cases "?z = 0") (simp_all add: base58Decode_def dec Bytes_SetBytes Let_def)
qed

section \<open>The checksummed spelling\<close>

lemma length_checksum [simp]: "length (checksum p) = 4"
  by (simp add: checksum_def)

lemma base58Check_roundtrip: "p \<noteq> [] \<Longrightarrow> base58CheckDecode (base58CheckEncode p) = Inr p"
  by (cases p) (auto simp: base58CheckDecode_def base58CheckEncode_def base58_roundtrip Let_def list.rel_eq)

lemma digits58_alphabet: "set (digits58 x) \<subseteq> set base58Alphabet"
proof (induction x rule: digits58.induct)
  case (1 x)
  show ?case
  proof (cases "x > 0")
    case True
    have "nat (x mod 58) < length base58Alphabet" by (simp add: base58Alphabet_facts nat_less_iff)
    with 1 True show ?thesis by (subst digits58.simps) simp
  next
    case False
    then show ?thesis by (subst digits58.simps) simp
  qed
qed

lemma base58Encode_alphabet: "set (base58Encode bs) \<subseteq> set base58Alphabet"
proof -
  have "base58Alphabet ! 0 \<in> set base58Alphabet" by (rule nth_mem) (simp add: base58Alphabet_facts)
  with digits58_alphabet show ?thesis by (auto simp: base58Encode_def)
qed

lemma TrimSpace_no_space:
  assumes "\<And>c. c \<in> set s \<Longrightarrow> \<not> isSpace c"
  shows "TrimSpace s = s"
proof -
  have "dropWhile isSpace t = t" if "set t \<subseteq> set s" for t
    using that assms by (cases t) auto
  then show ?thesis by (simp add: TrimSpace_def)
qed

text \<open>The length of a number in base 58, and that of an address: 34 characters.\<close>

lemma length_digits58: "58 ^ n \<le> x \<Longrightarrow> x < 58 ^ Suc n \<Longrightarrow> length (digits58 x) = Suc n"
proof (induction n arbitrary: x)
  case 0
  then have "x div 58 = 0" by simp
  moreover have "digits58 0 = []" by (subst digits58.simps) simp
  ultimately show ?case using 0 by (subst digits58.simps) simp
next
  case (Suc n)
  have "58 ^ n \<le> x div 58" "x div 58 < 58 ^ Suc n"
    using Suc.prems by (simp_all add: pos_le_divide_eq zdiv_mono1 div_less_iff_less_mult less_eq_div_iff_mult_less_eq mult.commute)
  from Suc.IH [OF this] have "length (digits58 (x div 58)) = Suc n" .
  moreover have "x > 0" using Suc.prems(1) by (smt (verit) zero_less_power)
  ultimately show ?case by (subst digits58.simps) simp
qed

lemma SetBytes_bound: "SetBytes bs < 256 ^ length bs"
proof (induction bs rule: rev_induct)
  case (snoc b bs)
  have "256 * SetBytes bs + uint b < 256 * (SetBytes bs + 1)" using uint_byte [of b] by simp
  also have "\<dots> \<le> 256 * 256 ^ length bs" using snoc by simp
  finally show ?case by (simp add: SetBytes_snoc)
qed (simp add: SetBytes_def)

lemma SetBytes_Cons: "SetBytes (b # bs) = uint b * 256 ^ length bs + SetBytes bs"
proof (induction bs rule: rev_induct)
  case Nil
  show ?case by (simp add: SetBytes_def)
next
  case (snoc c bs)
  have "SetBytes (b # bs @ [c]) = 256 * SetBytes (b # bs) + uint c"
    using SetBytes_snoc [of "b # bs" c] by simp
  with snoc show ?case by (simp add: SetBytes_snoc algebra_simps)
qed

lemma address_length:
  assumes "length p = 21" "p ! 0 = tronAddressPrefix"
  shows "length (base58CheckEncode p) = 34"
proof -
  obtain rest where p: "p = tronAddressPrefix # rest" and r: "length rest = 20"
    using assms by (cases p) auto
  let ?r = "rest @ checksum p"
  let ?v = "SetBytes (p @ checksum p)"
  have l: "length ?r = 24" using r by simp
  have v: "?v = 65 * 256 ^ 24 + SetBytes ?r"
    using SetBytes_Cons [of tronAddressPrefix ?r] l by (simp add: p tronAddressPrefix_def)
  have "0 \<le> SetBytes ?r" "SetBytes ?r < 256 ^ 24"
    using SetBytes_nonneg SetBytes_bound [of ?r] l by simp_all
  then have "58 ^ 33 \<le> ?v" "?v < 58 ^ Suc 33" unfolding v by simp_all
  from length_digits58 [OF this] show ?thesis
    by (simp add: base58CheckEncode_def base58Encode_def p tronAddressPrefix_def)
qed

section \<open>Normalization\<close>

lemma hexdigit_facts:
  assumes "0 \<le> d" "d < 16"
  shows "\<not> isSpace (hexdigit d)" "lower_char (hexdigit d) = hexdigit d" "hexdigit d \<noteq> CHR ''x''"
proof -
  have "list_all (\<lambda>d. \<not> isSpace (hexdigit d) \<and> lower_char (hexdigit d) = hexdigit d \<and>
      hexdigit d \<noteq> CHR ''x'') [0..15]" by code_simp
  then have "\<forall>d \<in> {0..15}. \<not> isSpace (hexdigit d) \<and> lower_char (hexdigit d) = hexdigit d \<and>
      hexdigit d \<noteq> CHR ''x''" by (simp add: list_all_iff)
  moreover have "d \<in> {0..15}" using assms by simp
  ultimately show "\<not> isSpace (hexdigit d)" "lower_char (hexdigit d) = hexdigit d"
    "hexdigit d \<noteq> CHR ''x''" by blast+
qed

lemma EncodeToString_chars:
  "c \<in> set (EncodeToString bs) \<Longrightarrow> \<not> isSpace c \<and> lower_char c = c \<and> c \<noteq> CHR ''x'' \<and> hexval c \<noteq> None"
proof (induction bs)
  case (Cons b bs)
  note nib = nibbles [OF uint_byte [of b]]
  from Cons hexdigit_facts [OF nib(1,2)] hexdigit_facts [OF nib(3,4)]
    hexval_hexdigit [OF nib(1,2)] hexval_hexdigit [OF nib(3,4)]
  show ?case by (auto simp: EncodeToString_Cons)
qed simp

lemma EncodeToString_norm [simp]:
  "TrimSpace (EncodeToString bs) = EncodeToString bs" "ToLower (EncodeToString bs) = EncodeToString bs"
  "TrimPrefix (EncodeToString bs) ''0x'' = EncodeToString bs"
  "list_all (\<lambda>r. hexval r \<noteq> None) (EncodeToString bs)"
proof -
  show "TrimSpace (EncodeToString bs) = EncodeToString bs"
    by (rule TrimSpace_no_space) (use EncodeToString_chars in blast)
  show "ToLower (EncodeToString bs) = EncodeToString bs"
    unfolding ToLower_def by (rule map_idI) (use EncodeToString_chars in blast)
  show "list_all (\<lambda>r. hexval r \<noteq> None) (EncodeToString bs)"
    using EncodeToString_chars by (auto simp: list_all_iff)
  have "\<not> HasPrefix (EncodeToString bs) ''0x''"
  proof
    assume "HasPrefix (EncodeToString bs) ''0x''"
    then have "CHR ''x'' \<in> set (EncodeToString bs)"
      unfolding HasPrefix_def by (metis in_set_takeD list.set_intros(1) list.set_intros(2) length_Cons)
    then show False using EncodeToString_chars by blast
  qed
  then show "TrimPrefix (EncodeToString bs) ''0x'' = EncodeToString bs" by (simp add: TrimPrefix_def)
qed

lemma isHexString_EncodeToString: "bs \<noteq> [] \<Longrightarrow> isHexString (EncodeToString bs)"
  using EncodeToString_norm(4) [of bs] by (cases bs) (simp_all add: isHexString_def EncodeToString_Cons del: not_None_eq)

definition tron_payload :: "byte list \<Rightarrow> bool" where
  "tron_payload p \<longleftrightarrow> length p = 21 \<and> p ! 0 = tronAddressPrefix"

lemma hexToBase58_payload: "tron_payload p \<Longrightarrow> hexToBase58Address (EncodeToString p) = Inr (base58CheckEncode p)"
  by (simp add: hexToBase58Address_def tron_payload_def Let_def)

lemma addressToHex41_base58:
  assumes "tron_payload p"
  shows "addressToHex41 (base58CheckEncode p) = Inr (EncodeToString p)"
proof -
  let ?a = "base58CheckEncode p"
  have l: "length ?a = 34" using assms address_length by (simp add: tron_payload_def)
  then have ne: "?a \<noteq> []" by auto
  have "\<not> isSpace c" if "c \<in> set ?a" for c
    using that base58Encode_alphabet base58Alphabet_facts(3)
    unfolding base58CheckEncode_def list_all_iff by blast
  then have t: "TrimSpace ?a = ?a" by (rule TrimSpace_no_space)
  have h: "length (TrimPrefix (ToLower ?a) ''0x'') \<le> 34"
    using l by (simp add: TrimPrefix_def)
  have p: "p \<noteq> []" using assms by (auto simp: tron_payload_def)
  show ?thesis
    using h ne assms by (simp add: addressToHex41_def t Let_def base58Check_roundtrip [OF p] tron_payload_def)
qed

lemma prefix41_payload:
  assumes "list_all (\<lambda>r. hexval r \<noteq> None) (''41'' @ s)" "map lower_char (''41'' @ s) = ''41'' @ s"
    and "length s = 40"
  shows "\<exists>p. tron_payload p \<and> ''41'' @ s = EncodeToString p"
proof -
  obtain p where p: "''41'' @ s = EncodeToString p"
    using hex_canonical [OF assms(1,2)] assms(3) by auto
  then have "DecodeString (''41'' @ s) = Inr p" by simp
  then obtain bs where "p = word_of_int 65 # bs"
    by (auto simp: hexval_def Let_def split: sum.splits)
  moreover have "2 * length p = 42" using arg_cong [OF p, of length] assms(3) by simp
  ultimately have "tron_payload p" by (simp add: tron_payload_def tronAddressPrefix_def)
  with p show ?thesis by blast
qed

lemma addressToHex41_payload:
  assumes "addressToHex41 a = Inr h"
  shows "\<exists>p. tron_payload p \<and> h = EncodeToString p"
proof -
  define address where "address = TrimSpace a"
  define hexAddr where "hexAddr = TrimPrefix (ToLower address) ''0x''"
  have low: "map lower_char hexAddr = hexAddr"
    by (simp add: hexAddr_def TrimPrefix_def ToLower_def comp_def flip: drop_map)
  have low41: "map lower_char ''41'' = ''41''" by code_simp
  have hex41: "list_all (\<lambda>r. hexval r \<noteq> None) ''41''" by code_simp
  show ?thesis
  proof (cases "isHexString hexAddr \<and> (length hexAddr = 40 \<or> length hexAddr = 42)")
    case True
    then have hv: "list_all (\<lambda>r. hexval r \<noteq> None) hexAddr" by (simp add: isHexString_def split: if_splits)
    show ?thesis
    proof (cases "length hexAddr = 40")
      case l40: True
      then have "h = ''41'' @ hexAddr" using assms True
        by (simp add: addressToHex41_def Let_def address_def [symmetric] hexAddr_def [symmetric] split: if_splits)
      with prefix41_payload [of hexAddr] l40 hv hex41 low low41 show ?thesis by simp
    next
      case False
      with True assms have h: "h = hexAddr" "HasPrefix hexAddr ''41''"
        by (auto simp: addressToHex41_def Let_def address_def [symmetric] hexAddr_def [symmetric] split: if_splits)
      then have "hexAddr = ''41'' @ drop 2 hexAddr"
        unfolding HasPrefix_def by (metis append_take_drop_id length_Cons list.size(3) numeral_2_eq_2)
      then have "list_all (\<lambda>r. hexval r \<noteq> None) (''41'' @ drop 2 hexAddr)"
        "map lower_char (''41'' @ drop 2 hexAddr) = ''41'' @ drop 2 hexAddr" using hv low by metis+
      moreover have "length (drop 2 hexAddr) = 40" using True False by simp
      ultimately have "\<exists>p. tron_payload p \<and> ''41'' @ drop 2 hexAddr = EncodeToString p"
        by (intro prefix41_payload)
      with h \<open>hexAddr = ''41'' @ drop 2 hexAddr\<close> show ?thesis by metis
    qed
  next
    case False
    with assms show ?thesis
      by (auto simp: addressToHex41_def Let_def address_def [symmetric] hexAddr_def [symmetric] tron_payload_def
          split: if_splits sum.splits)
  qed
qed

lemma normalize_payload:
  assumes "addressToHex41 a = Inr (EncodeToString p)" "tron_payload p"
  shows "NormalizeAddress a = Inr (base58CheckEncode p)"
  using assms by (simp add: NormalizeAddress_def normalizeTronAddress_def hexToBase58_payload)

lemma NormalizeAddress_Inr:
  assumes "NormalizeAddress a = Inr b"
  shows "\<exists>p. tron_payload p \<and> addressToHex41 a = Inr (EncodeToString p) \<and> b = base58CheckEncode p"
proof -
  obtain h where h: "addressToHex41 a = Inr h"
    using assms by (auto simp: NormalizeAddress_def normalizeTronAddress_def split: sum.splits)
  with addressToHex41_payload obtain p where p: "tron_payload p" "h = EncodeToString p" by blast
  with normalize_payload [of a p] h assms show ?thesis by auto
qed

text \<open>
  C26: round trip of the checksummed spelling: decoding the Base58Check text of any non-empty byte string gives
  the bytes back, so no valid address is rejected for its checksum and leading zero bytes survive.
\<close>

theorem base58check_decodes_encoded:
  assumes "p \<noteq> []"
  shows "base58CheckDecode (base58CheckEncode p) = Inr p"
  using assms by (rule base58Check_roundtrip)

theorem base58check_decodes_encoded_witness:
  "base58CheckDecode (base58CheckEncode [0, 0, 0x41]) = Inr [0, 0, 0x41 :: byte]"
  by (rule base58check_decodes_encoded) simp

text \<open>
  C28: a normalized address has 34 characters and is its own normal form: normalizing a stored address again, as
  the tracker manager and the processor both do, changes nothing.
\<close>

theorem NormalizeAddress_idempotent:
  assumes "NormalizeAddress a = Inr b"
  shows "length b = 34 \<and> NormalizeAddress b = Inr b"
proof -
  obtain p where p: "tron_payload p" "b = base58CheckEncode p" using NormalizeAddress_Inr [OF assms] by blast
  have "length b = 34" using p address_length by (simp add: tron_payload_def)
  moreover have "NormalizeAddress b = Inr b"
    using normalize_payload [OF addressToHex41_base58 [OF p(1)] p(1)] p(2) by simp
  ultimately show ?thesis by simp
qed

text \<open>
  C27: normal forms identify accounts: when two spellings denote accounts, their normal forms exist and are equal
  exactly when the accounts are the same. A wallet stored under its normal form is therefore found from
  every spelling of its address, and only from those.
\<close>

theorem NormalizeAddress_same_account:
  assumes "addressToHex41 a = Inr h1" "addressToHex41 b = Inr h2"
  shows "(\<exists>n. NormalizeAddress a = Inr n) \<and> (NormalizeAddress a = NormalizeAddress b \<longleftrightarrow> h1 = h2)"
proof -
  obtain p q where p: "tron_payload p" "h1 = EncodeToString p" and q: "tron_payload q" "h2 = EncodeToString q"
    using addressToHex41_payload assms by blast
  have n: "NormalizeAddress a = Inr (base58CheckEncode p)" "NormalizeAddress b = Inr (base58CheckEncode q)"
    using normalize_payload assms p q by blast+
  have "base58CheckEncode p = base58CheckEncode q \<longleftrightarrow> p = q"
    using base58Check_roundtrip p(1) q(1) by (metis list.size(3) sum.inject(2) tron_payload_def zero_neq_numeral)
  then show ?thesis using n p(2) q(2) by (simp add: EncodeToString_inject)
qed

text \<open>
  C29: the indexed address of a TRC20 log, an account padded on the left to 32 bytes, is read as the normal form of
  that account: senders and recipients of token transfers are looked up under the key the wallet was stored with.
\<close>

theorem topic_address_normalized:
  assumes "length account = 20"
  shows "topicToBase58Address (replicate 24 (CHR ''0'') @ EncodeToString account) =
      NormalizeAddress (EncodeToString account)"
proof -
  let ?h = "EncodeToString account"
  have topic: "replicate 24 (CHR ''0'') @ ?h = EncodeToString (replicate 12 0 @ account)"
  proof -
    have "hexdigit 0 = CHR ''0''" by code_simp
    then show ?thesis by (simp add: EncodeToString_def numeral_eq_Suc)
  qed
  have hex41: "''41'' @ ?h = EncodeToString (tronAddressPrefix # account)"
  proof -
    have "hexdigit 4 = CHR ''4''" "hexdigit 1 = CHR ''1''" by code_simp+
    then show ?thesis by (simp add: EncodeToString_Cons tronAddressPrefix_def)
  qed
  have "addressToHex41 ?h = Inr (''41'' @ ?h)"
    using assms isHexString_EncodeToString [of account] length_EncodeToString [of account]
    by (cases account) (auto simp: addressToHex41_def Let_def)
  moreover have "topicToBase58Address (replicate 24 (CHR ''0'') @ ?h) = hexToBase58Address (''41'' @ ?h)"
    using assms isHexString_EncodeToString [of "replicate 12 0 @ account"]
    unfolding topic topicToBase58Address_def Let_def EncodeToString_norm by (auto simp: topic [symmetric])
  ultimately show ?thesis by (simp add: NormalizeAddress_def normalizeTronAddress_def)
qed

theorem topic_address_normalized_witness:
  "length [1 :: byte, 2, 3, 4, 5, 6, 7, 8, 9, 10, 11, 12, 13, 14, 15, 16, 17, 18, 19, 20] = 20 \<and>
   topicToBase58Address (replicate 24 (CHR ''0'') @
     EncodeToString [1 :: byte, 2, 3, 4, 5, 6, 7, 8, 9, 10, 11, 12, 13, 14, 15, 16, 17, 18, 19, 20]) =
   NormalizeAddress (EncodeToString [1 :: byte, 2, 3, 4, 5, 6, 7, 8, 9, 10, 11, 12, 13, 14, 15, 16, 17, 18, 19, 20])"
proof (rule conjI)
  let ?acc = "[1 :: byte, 2, 3, 4, 5, 6, 7, 8, 9, 10, 11, 12, 13, 14, 15, 16, 17, 18, 19, 20]"
  show l: "length ?acc = 20" by simp
  show "topicToBase58Address (replicate 24 (CHR ''0'') @ EncodeToString ?acc) = NormalizeAddress (EncodeToString ?acc)"
    using l by (rule topic_address_normalized)
qed

text \<open>Two spellings of one account: with \<open>0x\<close> and capitals, and with the \<open>41\<close> prefix.\<close>

lemma spellings:
  "addressToHex41 ''0xA614F803B6FD780986A42C78EC9C7F77E6DED13C'' = Inr ''41a614f803b6fd780986a42c78ec9c7f77e6ded13c''"
  "addressToHex41 '' 41a614f803b6fd780986a42c78ec9c7f77e6ded13c'' = Inr ''41a614f803b6fd780986a42c78ec9c7f77e6ded13c''"
proof -
  let ?a = "''0xA614F803B6FD780986A42C78EC9C7F77E6DED13C''"
  let ?b = "'' 41a614f803b6fd780986a42c78ec9c7f77e6ded13c''"
  have "TrimSpace ?a = ?a" "TrimPrefix (ToLower ?a) ''0x'' = ''a614f803b6fd780986a42c78ec9c7f77e6ded13c''"
    "isHexString ''a614f803b6fd780986a42c78ec9c7f77e6ded13c''" by code_simp+
  then show "addressToHex41 ?a = Inr ''41a614f803b6fd780986a42c78ec9c7f77e6ded13c''"
    by (simp add: addressToHex41_def Let_def)
  have "TrimSpace ?b = tl ?b" "TrimPrefix (ToLower (tl ?b)) ''0x'' = tl ?b" "isHexString (tl ?b)"
    "HasPrefix (tl ?b) ''41''" by code_simp+
  then show "addressToHex41 ?b = Inr ''41a614f803b6fd780986a42c78ec9c7f77e6ded13c''"
    by (simp add: addressToHex41_def Let_def)
qed

theorem NormalizeAddress_same_account_witness:
  "NormalizeAddress ''0xA614F803B6FD780986A42C78EC9C7F77E6DED13C'' =
   NormalizeAddress '' 41a614f803b6fd780986a42c78ec9c7f77e6ded13c''"
  using NormalizeAddress_same_account [OF spellings] by simp

theorem NormalizeAddress_idempotent_witness:
  "\<exists>b. NormalizeAddress ''0xA614F803B6FD780986A42C78EC9C7F77E6DED13C'' = Inr b \<and> length b = 34 \<and>
     NormalizeAddress b = Inr b"
proof -
  obtain p where "tron_payload p" "addressToHex41 ''0xA614F803B6FD780986A42C78EC9C7F77E6DED13C'' = Inr (EncodeToString p)"
    using addressToHex41_payload [OF spellings(1)] spellings(1) by metis
  then have "NormalizeAddress ''0xA614F803B6FD780986A42C78EC9C7F77E6DED13C'' = Inr (base58CheckEncode p)"
    by (rule normalize_payload [rotated])
  from this NormalizeAddress_idempotent [OF this] show ?thesis by blast
qed

end
