(* ===== verification/Tron_Processor.thy ===== *)
theory Tron_Processor
  imports Tron_Client Tron_Address Event_Env Tracker_Progress
begin

text \<open>
  The block processor of TRON (\<open>internal/blockchain/tron/processor.go\<close>). Its client is the record
  \<open>TronOps\<close> of the methods it calls, over the state \<open>'w\<close>; \<open>bt\<close> is its base tracker as far as it uses
  it, the publisher behind \<open>PublishDeposit\<close> and \<open>PublishWithdrawal\<close> (\<open>None\<close> before \<open>SetBaseTracker\<close>). The
  hash of go-ethereum and the decimals of shopspring/decimal are the parameters \<open>L\<close>.

  The specification is \<open>tronEvents\<close>, the events a block calls for under a watch list. The processor
  follows it: it publishes exactly these events while the services work, and a subsequence of them,
  never anything else, when some of them fail.
\<close>

section \<open>Data\<close>

text \<open>Third-party functions: \<open>crypto.Keccak256Hash(..).Hex()\<close>, and a decimal \<open>value * 10^exp\<close> as text.\<close>

record libs =
  lb_keccakHex :: "string \<Rightarrow> string"
  lb_decString :: "int \<Rightarrow> int \<Rightarrow> string"
  lb_decStringFixed :: "int \<Rightarrow> int \<Rightarrow> int \<Rightarrow> string"

definition transferEventSignatureHex :: "libs \<Rightarrow> string" where
  "transferEventSignatureHex L = lb_keccakHex L ''Transfer(address,address,uint256)''"

record 'w TronOps =
  to_GetCurrentBlockHeight :: "'w \<Rightarrow> u64 res \<times> 'w"
  to_GetBlockByNumber :: "u64 \<Rightarrow> 'w \<Rightarrow> tronBlock res \<times> 'w"
  to_GetTransactionInfoByBlockNumber :: "u64 \<Rightarrow> 'w \<Rightarrow> transactionInfoResponse list res \<times> 'w"
  to_Now :: "'w \<Rightarrow> go_time \<times> 'w"

record TronProcessor =
  tpConfig :: TronConfig
  tpTokenContracts :: "(string \<times> TokenConfig) list"

text \<open>A Go map filled once is the list of its entries, the latest first, and \<open>map_of\<close> reads it.\<close>

fun tronTokenMap :: "TokenConfig list \<Rightarrow> (string \<times> TokenConfig) list \<Rightarrow> (string \<times> TokenConfig) list res" where
  "tronTokenMap [] m = Inr m"
| "tronTokenMap (token # tokens) m =
     (if TrimSpace (tkContract token) = '''' then
        Inl (ErrorString (''token '' @ tkCurrency token @ '' has empty contract''))
      else if TrimSpace (tkCurrency token) = '''' then
        Inl (ErrorString (''token contract '' @ tkContract token @ '' has empty currency''))
      else case addressToHex41 (tkContract token) of
        Inl err \<Rightarrow> Inl (Wrap (''invalid TRON token contract address '' @ quote_str (tkContract token)) err)
      | Inr hexAddr \<Rightarrow> tronTokenMap tokens ((hexAddr, token) # m))"

definition NewTronProcessor :: "TronConfig \<Rightarrow> TronProcessor res" where
  "NewTronProcessor cfg =
     (case tronTokenMap (trxTokens cfg) [] of
        Inl err \<Rightarrow> Inl err
      | Inr m \<Rightarrow> Inr \<lparr>tpConfig = cfg, tpTokenContracts = m\<rparr>)"

section \<open>Helpers\<close>

definition parseHexUint256 :: "string \<Rightarrow> int res" where
  "parseHexUint256 value0 =
     (let value = TrimPrefix (ToLower (TrimSpace value0)) ''0x'' in
      if value = '''' then Inr 0
      else case DecodeString value of Inl err \<Rightarrow> Inl err | Inr data \<Rightarrow> Inr (SetBytes data))"

definition normalizeTopic :: "string \<Rightarrow> string" where
  "normalizeTopic value = TrimPrefix (ToLower (TrimSpace value)) ''0x''"

definition formatSun :: "libs \<Rightarrow> int \<Rightarrow> string" where
  "formatSun L amount = lb_decString L amount (- 6)"

definition tron_formatToken :: "libs \<Rightarrow> int \<Rightarrow> int \<Rightarrow> string" where
  "tron_formatToken L amount decimals = lb_decString L amount (- decimals)"

definition isSuccessfulTransaction :: "transactionResponse \<Rightarrow> bool" where
  "isSuccessfulTransaction tx = (case trRet tx of [] \<Rightarrow> True | r # _ \<Rightarrow> EqualFold r ''SUCCESS'')"

definition unmarshalRaw :: "(json \<Rightarrow> 'a res) \<Rightarrow> json option \<Rightarrow> 'a res" where
  "unmarshalRaw f v = (case v of None \<Rightarrow> Inl (ErrorString ''unexpected end of JSON input'') | Some j \<Rightarrow> f j)"

definition isConfiguredTokenTrigger :: "TronProcessor \<Rightarrow> contractResponse \<Rightarrow> bool" where
  "isConfiguredTokenTrigger p contract =
     (if tpTokenContracts p = [] then False
      else case unmarshalRaw dec_triggerSmartContract (crValue contract) of
        Inl err \<Rightarrow> False
      | Inr contractAddress \<Rightarrow>
          (case addressToHex41 contractAddress of
             Inl err \<Rightarrow> False
           | Inr contractHex \<Rightarrow> map_of (tpTokenContracts p) contractHex \<noteq> None))"

definition networkFeeFromBlockInfo :: "libs \<Rightarrow> string \<Rightarrow> (string \<rightharpoonup> transactionInfoResponse) \<Rightarrow> string" where
  "networkFeeFromBlockInfo L txID txInfos =
     (case txInfos txID of None \<Rightarrow> ''0'' | Some info \<Rightarrow> formatSun L (tiFee info))"

definition infosByTxID :: "transactionInfoResponse list \<Rightarrow> (string \<rightharpoonup> transactionInfoResponse)" where
  "infosByTxID infos =
     foldl (\<lambda>m info. if info_txID info = '''' then m else m(info_txID info \<mapsto> info)) Map.empty infos"

definition getTransactionInfoByBlock ::
  "'w TronOps \<Rightarrow> u64 \<Rightarrow> 'w \<Rightarrow> (string \<rightharpoonup> transactionInfoResponse) res \<times> 'w" where
  "getTransactionInfoByBlock cl blockNumber w =
     (case to_GetTransactionInfoByBlockNumber cl blockNumber w of
        (Inl err, w1) \<Rightarrow> (Inl err, w1)
      | (Inr infos, w1) \<Rightarrow> (Inr (infosByTxID infos), w1))"

section \<open>Transfers\<close>

text \<open>The events of a transfer; the fields that depend on its kind are arguments.\<close>

definition tronDeposit ::
  "TronProcessor \<Rightarrow> u64 \<Rightarrow> go_time \<Rightarrow> string \<Rightarrow> string \<Rightarrow> string \<Rightarrow> string \<Rightarrow> string \<Rightarrow> Currency \<Rightarrow> string \<Rightarrow> WalletDeposit" where
  "tronDeposit p blockNumber timestamp txID walletID to' from' amount currency fee = \<lparr>dTxHash = txID,
     dWalletID = walletID, dWalletAddress = to', dFromAddress = from', dInputs = [], dAmount = amount,
     dCurrency = currency, dNetwork = Tron, dBlockNumber = blockNumber,
     dConfirmations = to_uint64 (trxConfirmations (tpConfig p)), dTimestamp = timestamp, dNetworkFee = fee,
     dStatus = StatusConfirmed\<rparr>"

definition tronWithdrawal ::
  "TronProcessor \<Rightarrow> u64 \<Rightarrow> go_time \<Rightarrow> string \<Rightarrow> string \<Rightarrow> string \<Rightarrow> string \<Rightarrow> string \<Rightarrow> Currency \<Rightarrow> string \<Rightarrow> WalletWithdrawal" where
  "tronWithdrawal p blockNumber timestamp txID walletID from' to' amount currency fee = \<lparr>wTxHash = txID,
     wWalletID = walletID, wWalletAddress = from', wToAddress = to', wOutputs = [], wAmount = amount,
     wCurrency = currency, wNetwork = Tron, wBlockNumber = blockNumber,
     wConfirmations = to_uint64 (trxConfirmations (tpConfig p)), wTimestamp = timestamp, wNetworkFee = fee,
     wStatus = StatusConfirmed\<rparr>"

text \<open>\<open>if p.baseTracker != nil { ... }\<close> around the two publishing calls.\<close>

definition viaTrackerD :: "'w Publisher option \<Rightarrow> WalletDeposit \<Rightarrow> 'w \<Rightarrow> error option \<times> 'w" where
  "viaTrackerD bt d w = (case bt of None \<Rightarrow> (None, w) | Some pub \<Rightarrow> bt_PublishDeposit pub d w)"

definition viaTrackerW :: "'w Publisher option \<Rightarrow> WalletWithdrawal \<Rightarrow> 'w \<Rightarrow> error option \<times> 'w" where
  "viaTrackerW bt x w = (case bt of None \<Rightarrow> (None, w) | Some pub \<Rightarrow> bt_PublishWithdrawal pub x w)"

definition processTRXTransfer ::
  "libs \<Rightarrow> TronProcessor \<Rightarrow> 'w Storage \<Rightarrow> 'w Publisher option \<Rightarrow> u64 \<Rightarrow> go_time \<Rightarrow> string \<Rightarrow> contractResponse \<Rightarrow>
   (string \<rightharpoonup> transactionInfoResponse) \<Rightarrow> 'w \<Rightarrow> error option \<times> 'w" where
  "processTRXTransfer L p S bt blockNumber timestamp txID contract txInfos w =
     (case unmarshalRaw dec_transferContract (crValue contract) of
        Inl err \<Rightarrow> (Some (Wrap ''failed to decode TRX transfer contract'' err), w)
      | Inr transfer \<Rightarrow>
          if tcAmount transfer \<le> 0 then (None, w)
          else case hexToBase58Address (tcOwnerAddress transfer) of
            Inl err \<Rightarrow> (Some (Wrap ''invalid TRX sender address'' err), w)
          | Inr from' \<Rightarrow> (case hexToBase58Address (tcToAddress transfer) of
              Inl err \<Rightarrow> (Some (Wrap ''invalid TRX recipient address'' err), w)
            | Inr to' \<Rightarrow> (case st_IsWatchedWallet S Tron from' w of
                (Inl err, w1) \<Rightarrow> (Some (Wrap ''failed to check watched TRON sender'' err), w1)
              | (Inr (fromWalletID, isFromWatched), w1) \<Rightarrow> (case st_IsWatchedWallet S Tron to' w1 of
                  (Inl err, w2) \<Rightarrow> (Some (Wrap ''failed to check watched TRON recipient'' err), w2)
                | (Inr (toWalletID, isToWatched), w2) \<Rightarrow>
                    let amount = formatSun L (tcAmount transfer);
                        w3 = (if isFromWatched \<and> \<not> isToWatched then
                                snd (viaTrackerW bt (tronWithdrawal p blockNumber timestamp txID fromWalletID
                                  from' to' amount TRX (networkFeeFromBlockInfo L txID txInfos)) w2)
                              else w2)
                    in if \<not> isToWatched then (None, w3)
                       else viaTrackerD bt (tronDeposit p blockNumber timestamp txID toWalletID to' from' amount
                              TRX ''0'') w3))))"

text \<open>One lg of a transaction: \<open>Some\<close> (token, sender, recipient, amount) where the code does not skip it.\<close>

definition trc20Transfer :: "libs \<Rightarrow> TronProcessor \<Rightarrow> eventLog \<Rightarrow> (TokenConfig \<times> string \<times> string \<times> int) option" where
  "trc20Transfer L p lg =
     (case addressToHex41 (elAddress lg) of
        Inl err \<Rightarrow> None
      | Inr contractHex \<Rightarrow> (case map_of (tpTokenContracts p) contractHex of
          None \<Rightarrow> None
        | Some token \<Rightarrow>
            if length (elTopics lg) < 3 \<or>
               \<not> EqualFold (normalizeTopic (elTopics lg ! 0)) (normalizeTopic (transferEventSignatureHex L))
            then None
            else case topicToBase58Address (elTopics lg ! 1) of
              Inl err \<Rightarrow> None
            | Inr from' \<Rightarrow> (case topicToBase58Address (elTopics lg ! 2) of
                Inl err \<Rightarrow> None
              | Inr to' \<Rightarrow> (case parseHexUint256 (elData lg) of
                  Inl err \<Rightarrow> None
                | Inr amount \<Rightarrow> if amount \<le> 0 then None else Some (token, from', to', amount)))))"

definition processTRC20Log ::
  "libs \<Rightarrow> TronProcessor \<Rightarrow> 'w Storage \<Rightarrow> 'w Publisher option \<Rightarrow> u64 \<Rightarrow> go_time \<Rightarrow> string \<Rightarrow>
   transactionInfoResponse \<Rightarrow> eventLog \<Rightarrow> 'w \<Rightarrow> 'w" where
  "processTRC20Log L p S bt blockNumber timestamp txID info lg w =
     (case trc20Transfer L p lg of
        None \<Rightarrow> w
      | Some (token, from', to', amount) \<Rightarrow>
          (case st_IsWatchedWallet S Tron from' w of
             (Inl err, w1) \<Rightarrow> w1
           | (Inr (fromWalletID, isFromWatched), w1) \<Rightarrow> (case st_IsWatchedWallet S Tron to' w1 of
               (Inl err, w2) \<Rightarrow> w2
             | (Inr (toWalletID, isToWatched), w2) \<Rightarrow>
                 let networkFee = formatSun L (tiFee info);
                     amountText = tron_formatToken L amount (tkDecimals token);
                     w3 = (if isFromWatched \<and> \<not> isToWatched then
                             snd (viaTrackerW bt (tronWithdrawal p blockNumber timestamp txID fromWalletID
                               from' to' amountText (tkCurrency token) networkFee) w2)
                           else w2)
                 in if \<not> isToWatched then w3
                    else snd (viaTrackerD bt (tronDeposit p blockNumber timestamp txID toWalletID to' from'
                           amountText (tkCurrency token) networkFee) w3))))"

definition processTRC20TransferLogs ::
  "libs \<Rightarrow> TronProcessor \<Rightarrow> 'w Storage \<Rightarrow> 'w Publisher option \<Rightarrow> u64 \<Rightarrow> go_time \<Rightarrow> string \<Rightarrow>
   transactionInfoResponse \<Rightarrow> 'w \<Rightarrow> error option \<times> 'w" where
  "processTRC20TransferLogs L p S bt blockNumber timestamp txID info w =
     (if tpTokenContracts p = [] then (None, w)
      else if tiResult info \<noteq> '''' \<and> \<not> EqualFold (tiResult info) ''SUCCESS'' then (None, w)
      else (None, fold (processTRC20Log L p S bt blockNumber timestamp txID info) (tiLog info) w))"

text \<open>The loop over the contracts of a transaction; \<open>seen\<close> says that its logs were already handled.\<close>

fun processContracts ::
  "libs \<Rightarrow> TronProcessor \<Rightarrow> 'w Storage \<Rightarrow> 'w Publisher option \<Rightarrow> u64 \<Rightarrow> go_time \<Rightarrow> string \<Rightarrow>
   (string \<rightharpoonup> transactionInfoResponse) \<Rightarrow> bool \<Rightarrow> contractResponse list \<Rightarrow> 'w \<Rightarrow> 'w" where
  "processContracts L p S bt blockNumber timestamp txID txInfos seen [] w = w"
| "processContracts L p S bt blockNumber timestamp txID txInfos seen (contract # contracts) w =
     (if crType contract = ''TransferContract'' then
        processContracts L p S bt blockNumber timestamp txID txInfos seen contracts
          (snd (processTRXTransfer L p S bt blockNumber timestamp txID contract txInfos w))
      else if crType contract = ''TriggerSmartContract'' \<and> \<not> seen \<and> isConfiguredTokenTrigger p contract then
        processContracts L p S bt blockNumber timestamp txID txInfos True contracts
          (case txInfos txID of
             None \<Rightarrow> w
           | Some info \<Rightarrow> snd (processTRC20TransferLogs L p S bt blockNumber timestamp txID info w))
      else processContracts L p S bt blockNumber timestamp txID txInfos seen contracts w)"

definition tron_processTransaction ::
  "libs \<Rightarrow> TronProcessor \<Rightarrow> 'w Storage \<Rightarrow> 'w Publisher option \<Rightarrow> u64 \<Rightarrow> go_time \<Rightarrow> transactionResponse \<Rightarrow>
   (string \<rightharpoonup> transactionInfoResponse) \<Rightarrow> 'w \<Rightarrow> error option \<times> 'w" where
  "tron_processTransaction L p S bt blockNumber timestamp tx txInfos w =
     (None, processContracts L p S bt blockNumber timestamp (trTxID tx) txInfos False (trContract tx) w)"

section \<open>Blocks\<close>

fun tronTxLoop ::
  "libs \<Rightarrow> TronProcessor \<Rightarrow> 'w Storage \<Rightarrow> 'w Publisher option \<Rightarrow> u64 \<Rightarrow> go_time \<Rightarrow> string list \<Rightarrow>
   (string \<rightharpoonup> transactionInfoResponse) \<Rightarrow> transactionResponse list \<Rightarrow> 'w \<Rightarrow> 'w" where
  "tronTxLoop L p S bt blockNumber timestamp doneTxs txInfos [] w = w"
| "tronTxLoop L p S bt blockNumber timestamp doneTxs txInfos (tx # txs) w =
     (if trTxID tx = '''' \<or> trTxID tx \<in> set doneTxs
      then tronTxLoop L p S bt blockNumber timestamp doneTxs txInfos txs w
      else
        let w1 = (if isSuccessfulTransaction tx
                  then snd (tron_processTransaction L p S bt blockNumber timestamp tx txInfos w) else w);
            w2 = snd (st_AddProcessedTransaction S Tron blockNumber (trTxID tx) w1)
        in tronTxLoop L p S bt blockNumber timestamp doneTxs txInfos txs w2)"

definition tron_ProcessBlock ::
  "libs \<Rightarrow> TronProcessor \<Rightarrow> 'w TronOps \<Rightarrow> 'w Storage \<Rightarrow> 'w Publisher option \<Rightarrow> u64 \<Rightarrow> 'w state \<Rightarrow>
   bool res \<times> 'w state" where
  "tron_ProcessBlock L p cl S bt blockNumber s = (case s of (t, w) \<Rightarrow>
     (case to_GetBlockByNumber cl blockNumber w of
        (Inl err, w1) \<Rightarrow> (Inl (Wrap (''failed to get TRON block '' @ FormatUint blockNumber) err), (t, w1))
      | (Inr block, w1) \<Rightarrow> (case st_GetProcessedTransactions S Tron blockNumber w1 of
          (Inl err, w2) \<Rightarrow> (Inl (Wrap ''failed to get processed TRON transactions'' err), (t, w2))
        | (Inr doneTxs, w2) \<Rightarrow>
            (case (if brTimestamp block = 0 then to_Now cl w2 else (brTimestamp block * Millisecond, w2)) of
               (timestamp, w3) \<Rightarrow> (case getTransactionInfoByBlock cl blockNumber w3 of
                 (Inl err, w4) \<Rightarrow>
                   (Inl (Wrap (''failed to get TRON transaction info for block '' @ FormatUint blockNumber) err), (t, w4))
               | (Inr txInfos, w4) \<Rightarrow>
                   let w5 = tronTxLoop L p S bt blockNumber timestamp doneTxs txInfos (brTransactions block) w4;
                       w6 = snd (st_ClearBlockProgress S Tron blockNumber w5);
                       t1 = (if bt \<noteq> None then IncrementTxCount (of_nat (length (brTransactions block))) t else t)
                   in (Inr True, (t1, w6)))))))"

section \<open>Specification\<close>

text \<open>
  The events of one transfer under a watch list: a deposit when the recipient is watched, a withdrawal
  when only the sender is, nothing otherwise.
\<close>

definition tronTransferEvents ::
  "TronProcessor \<Rightarrow> u64 \<Rightarrow> go_time \<Rightarrow> string \<Rightarrow> string \<Rightarrow> string \<Rightarrow> string \<Rightarrow> Currency \<Rightarrow> string \<Rightarrow> string \<Rightarrow>
   (string \<rightharpoonup> string) \<Rightarrow> payload list" where
  "tronTransferEvents p b ts txID from' to' amount currency depositFee withdrawalFee watch =
     pairEvents (\<lambda>toID. tronDeposit p b ts txID toID to' from' amount currency depositFee)
       (\<lambda>fromID. tronWithdrawal p b ts txID fromID from' to' amount currency withdrawalFee) from' to' watch"

definition trxEvents ::
  "libs \<Rightarrow> TronProcessor \<Rightarrow> u64 \<Rightarrow> go_time \<Rightarrow> string \<Rightarrow> (string \<rightharpoonup> transactionInfoResponse) \<Rightarrow> contractResponse \<Rightarrow>
   (string \<rightharpoonup> string) \<Rightarrow> payload list" where
  "trxEvents L p b ts txID infos contract watch =
     (case unmarshalRaw dec_transferContract (crValue contract) of
        Inl _ \<Rightarrow> []
      | Inr t \<Rightarrow> if tcAmount t \<le> 0 then []
          else (case (hexToBase58Address (tcOwnerAddress t), hexToBase58Address (tcToAddress t)) of
            (Inr from', Inr to') \<Rightarrow> tronTransferEvents p b ts txID from' to' (formatSun L (tcAmount t)) TRX ''0''
                (networkFeeFromBlockInfo L txID infos) watch
          | _ \<Rightarrow> []))"

definition trc20Events ::
  "libs \<Rightarrow> TronProcessor \<Rightarrow> u64 \<Rightarrow> go_time \<Rightarrow> string \<Rightarrow> transactionInfoResponse \<Rightarrow> eventLog \<Rightarrow>
   (string \<rightharpoonup> string) \<Rightarrow> payload list" where
  "trc20Events L p b ts txID info lg watch =
     (case trc20Transfer L p lg of
        None \<Rightarrow> []
      | Some (token, from', to', amount) \<Rightarrow>
          tronTransferEvents p b ts txID from' to' (tron_formatToken L amount (tkDecimals token))
            (tkCurrency token) (formatSun L (tiFee info)) (formatSun L (tiFee info)) watch)"

definition trc20LogEvents ::
  "libs \<Rightarrow> TronProcessor \<Rightarrow> u64 \<Rightarrow> go_time \<Rightarrow> string \<Rightarrow> transactionInfoResponse \<Rightarrow> (string \<rightharpoonup> string) \<Rightarrow> payload list" where
  "trc20LogEvents L p b ts txID info watch =
     (if tiResult info \<noteq> '''' \<and> \<not> EqualFold (tiResult info) ''SUCCESS'' then []
      else concat (map (\<lambda>lg. trc20Events L p b ts txID info lg watch) (tiLog info)))"

text \<open>
  The events of a transaction: its TRX transfers, and the token transfers of its logs at the place of
  the first call of a configured token contract.
\<close>

fun contractEvents ::
  "libs \<Rightarrow> TronProcessor \<Rightarrow> u64 \<Rightarrow> go_time \<Rightarrow> string \<Rightarrow> (string \<rightharpoonup> transactionInfoResponse) \<Rightarrow> bool \<Rightarrow>
   contractResponse list \<Rightarrow> (string \<rightharpoonup> string) \<Rightarrow> payload list" where
  "contractEvents L p b ts txID infos seen [] watch = []"
| "contractEvents L p b ts txID infos seen (c # cs) watch =
     (if crType c = ''TransferContract'' then trxEvents L p b ts txID infos c watch @
        contractEvents L p b ts txID infos seen cs watch
      else if crType c = ''TriggerSmartContract'' \<and> \<not> seen \<and> isConfiguredTokenTrigger p c then
        (case infos txID of None \<Rightarrow> [] | Some info \<Rightarrow> trc20LogEvents L p b ts txID info watch) @
        contractEvents L p b ts txID infos True cs watch
      else contractEvents L p b ts txID infos seen cs watch)"

text \<open>
  The events of a block: those of its successful transactions that have an identifier and were not
  handled by an earlier, interrupted run.
\<close>

definition tronEvents ::
  "libs \<Rightarrow> TronProcessor \<Rightarrow> u64 \<Rightarrow> go_time \<Rightarrow> string list \<Rightarrow> (string \<rightharpoonup> transactionInfoResponse) \<Rightarrow>
   transactionResponse list \<Rightarrow> (string \<rightharpoonup> string) \<Rightarrow> payload list" where
  "tronEvents L p b ts doneTxs infos txs watch =
     concat (map (\<lambda>tx. contractEvents L p b ts (trTxID tx) infos False (trContract tx) watch)
       (filter (\<lambda>tx. trTxID tx \<noteq> '''' \<and> trTxID tx \<notin> set doneTxs \<and> isSuccessfulTransaction tx) txs))"

section \<open>The processor follows its specification\<close>

text \<open>The calls of the client leave the storage, the watch list and the publisher alone.\<close>

definition tron_ops_silent :: "('w, 'v) event_view \<Rightarrow> 'w TronOps \<Rightarrow> bool" where
  "tron_ops_silent V cl \<longleftrightarrow> (\<forall>w. ev_winv V w \<longrightarrow>
     silent V w (snd (to_GetCurrentBlockHeight cl w)) \<and> (\<forall>b. silent V w (snd (to_GetBlockByNumber cl b w))) \<and>
     (\<forall>b. silent V w (snd (to_GetTransactionInfoByBlockNumber cl b w))) \<and> silent V w (snd (to_Now cl w)))"

lemma tron_ops_silentD:
  assumes "tron_ops_silent V cl" "ev_winv V w"
  shows "to_GetCurrentBlockHeight cl w = (h, w') \<Longrightarrow> silent V w w'"
    "to_GetBlockByNumber cl b w = (k, w') \<Longrightarrow> silent V w w'"
    "getTransactionInfoByBlock cl b w = (i, w') \<Longrightarrow> silent V w w'"
    "to_Now cl w = (n, w') \<Longrightarrow> silent V w w'"
proof -
  show "to_GetCurrentBlockHeight cl w = (h, w') \<Longrightarrow> silent V w w'"
    using assms unfolding tron_ops_silent_def by (metis snd_conv)
  show "to_GetBlockByNumber cl b w = (k, w') \<Longrightarrow> silent V w w'"
    using assms unfolding tron_ops_silent_def by (metis snd_conv)
  show "to_Now cl w = (n, w') \<Longrightarrow> silent V w w'"
    using assms unfolding tron_ops_silent_def by (metis snd_conv)
  assume a: "getTransactionInfoByBlock cl b w = (i, w')"
  then have "w' = snd (to_GetTransactionInfoByBlockNumber cl b w)"
    by (auto simp: getTransactionInfoByBlock_def split: prod.splits sum.splits)
  with assms show "silent V w w'" unfolding tron_ops_silent_def by blast
qed

context event_env
begin

lemma tron_step:
  assumes "ev_winv V w" "network = Tron"
  shows "follows V (ev_healthy V \<and> time_marshals ts)
    (tronTransferEvents p b ts txID from' to' amount currency dfee wfee) w
    (transferStep (\<lambda>toID. tronDeposit p b ts txID toID to' from' amount currency dfee)
       (\<lambda>fromID. tronWithdrawal p b ts txID fromID from' to' amount currency wfee) from' to' w)"
proof -
  have "tronTransferEvents p b ts txID from' to' amount currency dfee wfee =
      pairEvents (\<lambda>toID. tronDeposit p b ts txID toID to' from' amount currency dfee)
       (\<lambda>fromID. tronWithdrawal p b ts txID fromID from' to' amount currency wfee) from' to'"
    by (rule ext) (simp add: tronTransferEvents_def)
  then show ?thesis
    using transferStep_follows [OF assms(1), of "ev_healthy V \<and> time_marshals ts"]
    by (simp add: payload_ok_def tronDeposit_def tronWithdrawal_def)
qed

lemma nothing_follows: "ev_winv V w \<Longrightarrow> follows V c (\<lambda>m. []) w w"
  by (rule follows_silent) (rule emits_refl)

lemma trx_follows:
  assumes "ev_winv V w" "network = Tron"
  shows "follows V (ev_healthy V \<and> time_marshals ts) (trxEvents L p b ts txID infos contract) w
    (snd (processTRXTransfer L p S (Some pub) b ts txID contract infos w))"
proof (cases "unmarshalRaw dec_transferContract (crValue contract)")
  case (Inl err)
  with nothing_follows [OF assms(1)] show ?thesis by (simp add: trxEvents_def [abs_def] processTRXTransfer_def)
next
  case (Inr t)
  show ?thesis
  proof (cases "\<exists>from' to'. \<not> tcAmount t \<le> 0 \<and> hexToBase58Address (tcOwnerAddress t) = Inr from' \<and>
      hexToBase58Address (tcToAddress t) = Inr to'")
    case True
    then obtain from' to' where a: "\<not> tcAmount t \<le> 0" "hexToBase58Address (tcOwnerAddress t) = Inr from'"
      "hexToBase58Address (tcToAddress t) = Inr to'" by blast
    have "snd (processTRXTransfer L p S (Some pub) b ts txID contract infos w) =
       transferStep (\<lambda>toID. tronDeposit p b ts txID toID to' from' (formatSun L (tcAmount t)) TRX ''0'')
       (\<lambda>fromID. tronWithdrawal p b ts txID fromID from' to' (formatSun L (tcAmount t)) TRX
          (networkFeeFromBlockInfo L txID infos)) from' to' w"
      by (simp add: processTRXTransfer_def Inr a transferStep_def pairStep_def viaTrackerD_def viaTrackerW_def Let_def assms(2) [symmetric]
          split: prod.splits sum.splits)
    with tron_step [OF assms] Inr a show ?thesis by (simp add: trxEvents_def [abs_def])
  next
    case False
    then have "trxEvents L p b ts txID infos contract = (\<lambda>m. [])"
      "snd (processTRXTransfer L p S (Some pub) b ts txID contract infos w) = w"
      using Inr by (auto simp: trxEvents_def [abs_def] processTRXTransfer_def split: sum.splits)
    with nothing_follows [OF assms(1)] show ?thesis by simp
  qed
qed

lemma trc20_follows:
  assumes "ev_winv V w" "network = Tron"
  shows "follows V (ev_healthy V \<and> time_marshals ts) (trc20Events L p b ts txID info lg) w
    (processTRC20Log L p S (Some pub) b ts txID info lg w)"
proof (cases "trc20Transfer L p lg")
  case None
  with nothing_follows [OF assms(1)] show ?thesis by (simp add: trc20Events_def [abs_def] processTRC20Log_def)
next
  case (Some q)
  obtain token from' to' amount where q: "q = (token, from', to', amount)" by (cases q)
  have "processTRC20Log L p S (Some pub) b ts txID info lg w =
     transferStep (\<lambda>toID. tronDeposit p b ts txID toID to' from' (tron_formatToken L amount (tkDecimals token))
         (tkCurrency token) (formatSun L (tiFee info)))
       (\<lambda>fromID. tronWithdrawal p b ts txID fromID from' to' (tron_formatToken L amount (tkDecimals token))
         (tkCurrency token) (formatSun L (tiFee info))) from' to' w"
    by (simp add: processTRC20Log_def Some q transferStep_def pairStep_def viaTrackerD_def viaTrackerW_def Let_def assms(2) [symmetric]
        split: prod.splits sum.splits)
  with tron_step [OF assms] Some q show ?thesis by (simp add: trc20Events_def [abs_def])
qed

lemma trc20Logs_follows:
  assumes "ev_winv V w" "network = Tron" "tpTokenContracts p \<noteq> []"
  shows "follows V (ev_healthy V \<and> time_marshals ts) (trc20LogEvents L p b ts txID info) w
    (snd (processTRC20TransferLogs L p S (Some pub) b ts txID info w))"
  using follows_fold [of "ev_healthy V \<and> time_marshals ts" "trc20Events L p b ts txID info"
      "processTRC20Log L p S (Some pub) b ts txID info" w "tiLog info"] trc20_follows [OF _ assms(2)]
    nothing_follows [OF assms(1)] assms
  by (auto simp: trc20LogEvents_def [abs_def] processTRC20TransferLogs_def)

lemma contracts_follow:
  assumes "network = Tron"
  shows "ev_winv V w \<Longrightarrow> follows V (ev_healthy V \<and> time_marshals ts) (contractEvents L p b ts txID infos seen cs) w
    (processContracts L p S (Some pub) b ts txID infos seen cs w)"
proof (induction cs arbitrary: seen w)
  case Nil
  then show ?case using nothing_follows by simp
next
  case (Cons c cs)
  let ?c = "ev_healthy V \<and> time_marshals ts"
  consider (trx) "crType c = ''TransferContract''"
    | (token) "crType c \<noteq> ''TransferContract''"
        "crType c = ''TriggerSmartContract'' \<and> \<not> seen \<and> isConfiguredTokenTrigger p c"
    | (other) "crType c \<noteq> ''TransferContract''"
        "\<not> (crType c = ''TriggerSmartContract'' \<and> \<not> seen \<and> isConfiguredTokenTrigger p c)" by blast
  then show ?case
  proof cases
    case trx
    note s = trx_follows [OF Cons.prems assms, of ts L p b txID infos c]
    from follows_trans [OF s Cons.IH [OF follows_winv [OF s], of seen], of ?c] trx
    show ?thesis by (simp cong: if_cong)
  next
    case token
    have s: "follows V ?c (\<lambda>m. case infos txID of None \<Rightarrow> [] | Some info \<Rightarrow> trc20LogEvents L p b ts txID info m) w
        (case infos txID of None \<Rightarrow> w
         | Some info \<Rightarrow> snd (processTRC20TransferLogs L p S (Some pub) b ts txID info w))"
    proof (cases "infos txID")
      case None
      with nothing_follows [OF Cons.prems] show ?thesis by simp
    next
      case (Some info)
      have "tpTokenContracts p \<noteq> []" using token(2) by (auto simp: isConfiguredTokenTrigger_def)
      from trc20Logs_follows [OF Cons.prems assms this] Some show ?thesis by simp
    qed
    from follows_trans [OF s Cons.IH [OF follows_winv [OF s], of True], of ?c] token
    show ?thesis by (simp cong: if_cong)
  next
    case other
    have "contractEvents L p b ts txID infos seen (c # cs) = contractEvents L p b ts txID infos seen cs"
      "processContracts L p S (Some pub) b ts txID infos seen (c # cs) w =
       processContracts L p S (Some pub) b ts txID infos seen cs w"
      using other by (auto simp: fun_eq_iff)
    with Cons.IH [OF Cons.prems, of seen] show ?thesis by simp
  qed
qed

lemma tronTxLoop_follows:
  assumes "network = Tron"
  shows "ev_winv V w \<Longrightarrow> follows V (ev_healthy V \<and> time_marshals ts) (tronEvents L p b ts doneTxs infos txs) w
    (tronTxLoop L p S (Some pub) b ts doneTxs infos txs w)"
proof (induction txs arbitrary: w)
  case Nil
  then show ?case using nothing_follows by (simp add: tronEvents_def [abs_def])
next
  case (Cons tx txs)
  let ?c = "ev_healthy V \<and> time_marshals ts"
  let ?skip = "trTxID tx = '''' \<or> trTxID tx \<in> set doneTxs"
  show ?case
  proof (cases ?skip)
    case True
    then have "tronEvents L p b ts doneTxs infos (tx # txs) = tronEvents L p b ts doneTxs infos txs"
      by (auto simp: tronEvents_def [abs_def])
    with True Cons.IH [OF Cons.prems] show ?thesis by auto
  next
    case False
    let ?ev = "\<lambda>m. if isSuccessfulTransaction tx then contractEvents L p b ts (trTxID tx) infos False (trContract tx) m else []"
    let ?w1 = "if isSuccessfulTransaction tx
      then snd (tron_processTransaction L p S (Some pub) b ts tx infos w) else w"
    obtain r w2 where a: "st_AddProcessedTransaction S network b (trTxID tx) ?w1 = (r, w2)"
      by (cases "st_AddProcessedTransaction S network b (trTxID tx) ?w1")
    have s1: "follows V ?c ?ev w ?w1"
      using contracts_follow [OF assms Cons.prems] nothing_follows [OF Cons.prems]
      by (cases "isSuccessfulTransaction tx") (simp_all add: tron_processTransaction_def)
    note s2 = follows_then_silent [OF s1 addTx_silent [OF follows_winv [OF s1] a]]
    have "tronEvents L p b ts doneTxs infos (tx # txs) = (\<lambda>m. ?ev m @ tronEvents L p b ts doneTxs infos txs m)"
      using False by (auto simp: tronEvents_def [abs_def] fun_eq_iff)
    moreover have "tronTxLoop L p S (Some pub) b ts doneTxs infos (tx # txs) w =
        tronTxLoop L p S (Some pub) b ts doneTxs infos txs w2"
      using False a assms by (simp add: Let_def)
    ultimately show ?thesis
      using follows_trans [OF s2 Cons.IH [OF follows_winv [OF s2]], of ?c] by simp
  qed
qed

text \<open>
  A block whose data were read is handled completely: the counter of transactions grows by their
  number, and the events published are those of the specification.
\<close>

lemma tron_ProcessBlock_follows:
  assumes "network = Tron" "ev_winv V w" "tron_ops_silent V cl"
    and "to_GetBlockByNumber cl b w = (Inr block, w1)"
    and "st_GetProcessedTransactions S Tron b w1 = (Inr doneTxs, w2)"
    and "(if brTimestamp block = 0 then to_Now cl w2 else (brTimestamp block * Millisecond, w2)) = (ts, w3)"
    and "getTransactionInfoByBlock cl b w3 = (Inr infos, w4)"
  shows "\<exists>w'. tron_ProcessBlock L p cl S (Some pub) b (t, w) =
      (Inr True, (IncrementTxCount (of_nat (length (brTransactions block))) t, w')) \<and>
    follows V (ev_healthy V \<and> time_marshals ts) (tronEvents L p b ts doneTxs infos (brTransactions block)) w w'"
proof -
  note s1 = tron_ops_silentD(2) [OF assms(3,2,4)]
  note s2 = silent_then [OF s1 getTxs_silent [OF emits_winv [OF s1] assms(5) [folded assms(1)]]]
  have s3: "silent V w w3"
    using s2 tron_ops_silentD(4) [OF assms(3) emits_winv [OF s2]] assms(6)
    by (auto split: if_splits intro: silent_then)
  note s4 = silent_then [OF s3 tron_ops_silentD(3) [OF assms(3) emits_winv [OF s3] assms(7)]]
  let ?w5 = "tronTxLoop L p S (Some pub) b ts doneTxs infos (brTransactions block) w4"
  note s5 = silent_follows [OF s4 tronTxLoop_follows [OF assms(1) emits_winv [OF s4]]]
  obtain r w' where c: "st_ClearBlockProgress S Tron b ?w5 = (r, w')"
    by (cases "st_ClearBlockProgress S Tron b ?w5")
  have "tron_ProcessBlock L p cl S (Some pub) b (t, w) =
      (Inr True, (IncrementTxCount (of_nat (length (brTransactions block))) t, w'))"
    using assms(4-7) c by (simp add: tron_ProcessBlock_def)
  moreover note follows_then_silent [OF s5 clear_silent [OF follows_winv [OF s5] c [folded assms(1)]]]
  ultimately show ?thesis by blast
qed

text \<open>On every path, failed reads included, the processor leaves the data of the tracker alone.\<close>

lemma tron_ProcessBlock_frame:
  assumes "network = Tron" "ev_winv V w" "tron_ops_silent V cl"
    and "tron_ProcessBlock L p cl S (Some pub) b (t, w) = (r, (t', w'))"
  shows "ev_frame V w' = ev_frame V w \<and> (t' = t \<or> (\<exists>n. t' = IncrementTxCount n t))"
proof -
  obtain x1 w1 where b: "to_GetBlockByNumber cl b w = (x1, w1)" by (cases "to_GetBlockByNumber cl b w")
  note s1 = tron_ops_silentD(2) [OF assms(3,2) b]
  obtain x2 w2 where g: "st_GetProcessedTransactions S Tron b w1 = (x2, w2)"
    by (cases "st_GetProcessedTransactions S Tron b w1")
  note s2 = silent_then [OF s1 getTxs_silent [OF emits_winv [OF s1] g [folded assms(1)]]]
  have fr: "ev_frame V v = ev_frame V w" if "silent V w v" for v using that by (simp add: emits_def)
  show ?thesis
  proof (cases x1)
    case (Inl err)
    then show ?thesis using assms(4) b fr [OF s1] by (simp add: tron_ProcessBlock_def)
  next
    case x1: (Inr block)
    show ?thesis
    proof (cases x2)
      case (Inl err)
      then show ?thesis using assms(4) b g x1 fr [OF s2] by (simp add: tron_ProcessBlock_def)
    next
      case x2: (Inr doneTxs)
      let ?tm = "if brTimestamp block = 0 then to_Now cl w2 else (brTimestamp block * Millisecond, w2)"
      obtain ts w3 where n: "?tm = (ts, w3)" by (cases ?tm)
      obtain x4 w4 where i: "getTransactionInfoByBlock cl b w3 = (x4, w4)"
        by (cases "getTransactionInfoByBlock cl b w3")
      show ?thesis
      proof (cases x4)
        case (Inl err)
        have s3: "silent V w w3"
          using s2 tron_ops_silentD(4) [OF assms(3) emits_winv [OF s2]] n
          by (auto split: if_splits intro: silent_then)
        note s4 = silent_then [OF s3 tron_ops_silentD(3) [OF assms(3) emits_winv [OF s3] i]]
        show ?thesis using assms(4) b g x1 x2 n i Inl fr [OF s4] by (simp add: tron_ProcessBlock_def)
      next
        case (Inr infos)
        from tron_ProcessBlock_follows [OF assms(1,2,3) b [unfolded x1] g [unfolded x2] n i [unfolded Inr],
            of L p t] assms(4)
        have "follows V (ev_healthy V \<and> time_marshals ts)
            (tronEvents L p b ts doneTxs infos (brTransactions block)) w w'"
          "t' = IncrementTxCount (of_nat (length (brTransactions block))) t" by auto
        from this(2) follows_frame [OF this(1)] show ?thesis by blast
      qed
    qed
  qed
qed

end

end
