(* ===== verification/Tron_Service.thy ===== *)
theory Tron_Service
  imports Client_World Tron_Processor
begin

text \<open>
  The TRON processor on its real client, the Redis storage and the RabbitMQ publisher, as the base tracker
  runs it: the value of the interface \<open>BlockProcessor\<close> it is, and the guarantees of the composition.
\<close>

definition tronOps :: "'e netio \<Rightarrow> ('e, 'f, TronClient, 'm) client_world_scheme TronOps" where
  "tronOps N = \<lparr>
     to_GetCurrentBlockHeight = liftC (tron_GetCurrentBlockHeight N),
     to_GetBlockByNumber = (\<lambda>b. liftC (tron_GetBlockByNumber N b)),
     to_GetTransactionInfoByBlockNumber = (\<lambda>b. liftC (GetTransactionInfoByBlockNumber N b)),
     to_Now = liftE (net_now N)\<rparr>"

text \<open>
  \<open>InitializeProviders\<close> makes a client and verifies it with a height query before it is used. Before the first
  success there is none; the base tracker calls no other method of the processor until then.
\<close>

definition tron_InitializeProviders ::
  "'e netio \<Rightarrow> TronProcessor \<Rightarrow> ('e, 'f, TronClient, 'm) client_world_scheme \<Rightarrow>
   error option \<times> ('e, 'f, TronClient, 'm) client_world_scheme" where
  "tron_InitializeProviders N p w =
     (case NewTronClient (tpConfig p) of
        Inl err \<Rightarrow> (Some err, w)
      | Inr c \<Rightarrow> (case tron_GetCurrentBlockHeight N (c, env w) of
          (Inl err, (c1, e1)) \<Rightarrow> (Some (Wrap ''failed to verify TRON provider'' err), w\<lparr>env := e1\<rparr>)
        | (Inr _, (c1, e1)) \<Rightarrow> (None, w\<lparr>env := e1, client := c1\<rparr>)))"

definition tronBlockProcessor ::
  "libs \<Rightarrow> TronProcessor \<Rightarrow> 'e netio \<Rightarrow> ('e, 'f, TronClient, 'm) client_world_scheme Storage \<Rightarrow>
   ('e, 'f, TronClient, 'm) client_world_scheme Publisher \<Rightarrow>
   ('e, 'f, TronClient, 'm) client_world_scheme BlockProcessor" where
  "tronBlockProcessor L p N S pub = \<lparr>
     bp_ProcessBlock = tron_ProcessBlock L p (tronOps N) S (Some pub),
     bp_GetCurrentBlockHeight = to_GetCurrentBlockHeight (tronOps N),
     bp_GetNetwork = Tron,
     bp_InitializeProviders = tron_InitializeProviders N p,
     bp_CleanupProviders = (\<lambda>w. (None, w)),
     bp_InFlightTxs = Some (\<lambda>w. tcInFlight (client w)),
     bp_ProviderStats = Some (\<lambda>w. tron_ProviderStats (client w))\<rparr>"

lemma tronBlockProcessor_simps [simp]:
  "bp_ProcessBlock (tronBlockProcessor L p N S pub) = tron_ProcessBlock L p (tronOps N) S (Some pub)"
  "bp_GetCurrentBlockHeight (tronBlockProcessor L p N S pub) = to_GetCurrentBlockHeight (tronOps N)"
  "bp_GetNetwork (tronBlockProcessor L p N S pub) = Tron"
  by (simp_all add: tronBlockProcessor_def)

text \<open>Every request of the client goes through \<open>post\<close>.\<close>

lemma post_view: "net_frame N view \<Longrightarrow> view (snd (snd (post N decode path payload s))) = view (snd s)"
  using post_frame [of N view decode path payload "fst s" "snd s" "fst (post N decode path payload s)"
      "fst (snd (post N decode path payload s))" "snd (snd (post N decode path payload s))"] by simp

lemma tron_calls_view:
  assumes "net_frame N view"
  shows "view (snd (snd (tron_GetCurrentBlockHeight N s))) = view (snd s)"
    "view (snd (snd (tron_GetBlockByNumber N b s))) = view (snd s)"
    "view (snd (snd (GetTransactionInfoByBlockNumber N b s))) = view (snd s)"
  by (simp_all add: post_view [OF assms] tron_GetCurrentBlockHeight_def tron_GetBlockByNumber_def GetTransactionInfoByBlockNumber_def
      split_beta split: sum.split)

lemma tronOps_silent:
  assumes "services_ok ex view amqp clock sent" "net_frame N view" "net_frame N sent"
  shows "tron_ops_silent (redisView ex BL view amqp clock sent n) (tronOps N)"
  unfolding tron_ops_silent_def tronOps_def
  using assms(2,3) by (simp add: liftC_silent [OF assms(1)] liftE_silent [OF assms(1)] tron_calls_view net_frame_def)

text \<open>
  What processing a block reads: the block, the transactions already handled and the receipts. They determine
  the events \<open>f\<close> it should publish; \<open>c\<close> says that every service works and that the time can be written as JSON.
\<close>

definition tronRead ::
  "'e redis_exec \<Rightarrow> 'f bloom_lib \<Rightarrow> ('e \<Rightarrow> keyspace) \<Rightarrow> 'e amqp_send \<Rightarrow> 'e clock \<Rightarrow> libs \<Rightarrow> TronProcessor \<Rightarrow> 'e netio \<Rightarrow>
   ('e, 'f, TronClient, 'm) client_world_scheme \<Rightarrow> u64 \<Rightarrow> ((string \<rightharpoonup> string) \<Rightarrow> payload list) \<Rightarrow> bool \<Rightarrow> bool" where
  "tronRead ex BL view amqp clock L p N w b f c \<longleftrightarrow>
     (\<exists>block w1 doneTxs w2 ts w3 infos w4.
        to_GetBlockByNumber (tronOps N) b w = (Inr block, w1) \<and>
        GetProcessedTransactions ex Tron b w1 = (Inr doneTxs, w2) \<and>
        (if brTimestamp block = 0 then to_Now (tronOps N) w2 else (brTimestamp block * Millisecond, w2)) = (ts, w3) \<and>
        getTransactionInfoByBlock (tronOps N) b w3 = (Inr infos, w4) \<and>
        f = tronEvents L p b ts doneTxs infos (brTransactions block) \<and>
        c = (redis_healthy ex view \<and> amqp_healthy amqp clock \<and> time_marshals ts))"

lemma tron_complete_read:
  assumes "services_ok ex view amqp clock sent" "net_frame N view" "net_frame N sent"
    and "tron_ProcessBlock L p (tronOps N) (redisStorage ex BL) (Some (rabbitPublisher amqp clock pb)) b (t, w) =
      (Inr True, (t', w'))"
  shows "\<exists>f c. tronRead ex BL view amqp clock L p N w b f c \<and>
    follows (redisView ex BL view amqp clock sent Tron) c f w w'"
proof -
  obtain x1 w1 where b: "to_GetBlockByNumber (tronOps N) b w = (x1, w1)" by (cases "to_GetBlockByNumber (tronOps N) b w")
  with assms(4) obtain block where x1: "x1 = Inr block" by (cases x1) (auto simp: tron_ProcessBlock_def)
  obtain x2 w2 where g: "GetProcessedTransactions ex Tron b w1 = (x2, w2)" by (cases "GetProcessedTransactions ex Tron b w1")
  with assms(4) b x1 obtain doneTxs where x2: "x2 = Inr doneTxs" by (cases x2) (auto simp: tron_ProcessBlock_def)
  let ?tm = "if brTimestamp block = 0 then to_Now (tronOps N) w2 else (brTimestamp block * Millisecond, w2)"
  obtain ts w3 where n: "?tm = (ts, w3)" by (cases ?tm)
  obtain x4 w4 where i: "getTransactionInfoByBlock (tronOps N) b w3 = (x4, w4)"
    by (cases "getTransactionInfoByBlock (tronOps N) b w3")
  with assms(4) b x1 g x2 n obtain infos where x4: "x4 = Inr infos" by (cases x4) (auto simp: tron_ProcessBlock_def)
  have g': "st_GetProcessedTransactions (redisStorage ex BL) Tron b w1 = (Inr doneTxs, w2)" using g x2 by simp
  have I: "ev_winv (redisView ex BL view amqp clock sent Tron) w" using assms(1) by simp
  have "\<exists>w''. tron_ProcessBlock L p (tronOps N) (redisStorage ex BL) (Some (rabbitPublisher amqp clock pb)) b (t, w) =
      (Inr True, (IncrementTxCount (of_nat (length (brTransactions block))) t, w'')) \<and>
      follows (redisView ex BL view amqp clock sent Tron)
        (redis_healthy ex view \<and> amqp_healthy amqp clock \<and> time_marshals ts)
        (tronEvents L p b ts doneTxs infos (brTransactions block)) w w''"
    by (rule re.tron_ProcessBlock_follows [OF refl I tronOps_silent [OF assms(1,2,3)] b [unfolded x1] g' n i [unfolded x4],
        unfolded redisView_simps conj_assoc])
  with assms(4) have "follows (redisView ex BL view amqp clock sent Tron)
      (redis_healthy ex view \<and> amqp_healthy amqp clock \<and> time_marshals ts)
      (tronEvents L p b ts doneTxs infos (brTransactions block)) w w'" by (auto simp: conj_assoc)
  moreover have "tronRead ex BL view amqp clock L p N w b (tronEvents L p b ts doneTxs infos (brTransactions block))
      (redis_healthy ex view \<and> amqp_healthy amqp clock \<and> time_marshals ts)"
    unfolding tronRead_def using b x1 g x2 n i x4 by blast
  ultimately show ?thesis by blast
qed

interpretation tronSource: block_source ex BL view amqp clock sent
    "tronBlockProcessor L p N (redisStorage ex BL) (rabbitPublisher amqp clock pb)"
    "\<lambda>w b f c. \<exists>g. tronRead ex BL view amqp clock L p N w b g c \<and> f = (\<lambda>m. map untimed (g m))"
    "services_ok ex view amqp clock sent \<and> net_frame N view \<and> net_frame N sent"
  for ex BL view amqp clock sent L p N pb
proof unfold_locales
  let ?P = "tronBlockProcessor L p N (redisStorage ex BL) (rabbitPublisher amqp clock pb) ::
    ('a, 'b, TronClient, 'c) client_world_scheme BlockProcessor"
  let ?V = "redisView ex BL view amqp clock sent (bp_GetNetwork ?P) ::
    (('a, 'b, TronClient, 'c) client_world_scheme, _) event_view"
  fix w :: "('a, 'b, TronClient, 'c) client_world_scheme" and r w' b t rb t'
  assume ready: "services_ok ex view amqp clock sent \<and> net_frame N view \<and> net_frame N sent"
  then show S: "services_ok ex view amqp clock sent" by blast
  from ready have F: "net_frame N view" "net_frame N sent" by blast+
  note ops = tronOps_silent [OF S F]
  have I: "ev_winv ?V v" for v using S by simp
  show "bp_GetCurrentBlockHeight ?P w = (r, w') \<Longrightarrow> silent ?V w w'"
    using tron_ops_silentD(1) [OF ops I] by simp
  show "bp_ProcessBlock ?P b (t, w) = (rb, (t', w')) \<Longrightarrow>
      ev_frame ?V w' = ev_frame ?V w \<and> t' = t\<lparr>processedTxs := processedTxs t'\<rparr>"
    unfolding tronBlockProcessor_simps
    by (drule re.tron_ProcessBlock_frame [OF refl I [unfolded tronBlockProcessor_simps] ops])
      (auto simp: IncrementTxCount_def)
  show "bp_ProcessBlock ?P b (t, w) = (Inr True, (t', w')) \<Longrightarrow>
      \<exists>f c. (\<exists>g. tronRead ex BL view amqp clock L p N w b g c \<and> f = (\<lambda>m. map untimed (g m))) \<and> followsU ?V c f w w'"
    using tron_complete_read [OF S F, of L p BL pb b t w t' w'] follows_followsU by fastforce
qed

text \<open>
  C3: Processing a TRON block publishes the right events. When the block, the transactions already handled and the
  receipts can be read, the processor reports the block as complete; what it has published is a subsequence of
  the events of the specification (the deposits to and withdrawals from watched wallets of the transactions not
  handled before, in their order), and all of them when no service fails. The watch list and the tracker's
  progress are as before.
\<close>

theorem tron_block_events:
  assumes "services_ok ex view amqp clock sent" "net_frame N view" "net_frame N sent"
    and "wallets_ok BL view Tron w" "tronRead ex BL view amqp clock L p N w b f c"
  shows "\<exists>t' w' xs. tron_ProcessBlock L p (tronOps N) (redisStorage ex BL) (Some (rabbitPublisher amqp clock pb)) b (t, w) =
      (Inr True, (t', w')) \<and>
    published sent w' = published sent w @ xs \<and> subseq xs (f (watched view Tron w)) \<and>
    (c \<longrightarrow> xs = f (watched view Tron w)) \<and> watched view Tron w' = watched view Tron w \<and> progress_same view Tron w w'"
proof -
  from assms(5) obtain block w1 doneTxs w2 ts w3 infos w4 where
    b: "to_GetBlockByNumber (tronOps N) b w = (Inr block, w1)"
    and g: "GetProcessedTransactions ex Tron b w1 = (Inr doneTxs, w2)"
    and n: "(if brTimestamp block = 0 then to_Now (tronOps N) w2 else (brTimestamp block * Millisecond, w2)) = (ts, w3)"
    and i: "getTransactionInfoByBlock (tronOps N) b w3 = (Inr infos, w4)"
    and f: "f = tronEvents L p b ts doneTxs infos (brTransactions block)"
    and c: "c = (redis_healthy ex view \<and> amqp_healthy amqp clock \<and> time_marshals ts)"
    unfolding tronRead_def by blast
  have g': "st_GetProcessedTransactions (redisStorage ex BL) Tron b w1 = (Inr doneTxs, w2)" using g by simp
  have I: "ev_winv (redisView ex BL view amqp clock sent Tron) w" using assms(1) by simp
  have "\<exists>w''. tron_ProcessBlock L p (tronOps N) (redisStorage ex BL) (Some (rabbitPublisher amqp clock pb)) b (t, w) =
      (Inr True, (IncrementTxCount (of_nat (length (brTransactions block))) t, w'')) \<and>
      follows (redisView ex BL view amqp clock sent Tron) c f w w''"
    unfolding f c by (rule re.tron_ProcessBlock_follows [OF refl I tronOps_silent [OF assms(1,2,3)] b g' n i,
        unfolded redisView_simps conj_assoc])
  with assms(4) show ?thesis by (auto simp: follows_def emits_def progress_same_def)
qed

definition demo_tron_net :: "demo_env netio" where
  "demo_tron_net = \<lparr>net_do = (\<lambda>req e. (Inr \<lparr>respStatus = 200, respContentType = '''', respRetryAfter = None,
       respBody = Inr '''', respJson = Some (if reqURL req = ''a/wallet/getblockbynum''
         then JObj [(''blockID'', JStr ''b7''), (''transactions'', JArr [JObj [(''txID'', JStr ''t1'')]])]
         else JArr [])\<rparr>, e)),
     net_urlErr = (\<lambda>_. None), net_wait = (\<lambda>e. (None, e)), net_ctxErr = (\<lambda>_. None),
     net_sleep = (\<lambda>_ e. (False, e)), net_now = (\<lambda>e. (Second, e))\<rparr>"

definition demo_tron_world :: "(demo_env, string list, TronClient) client_world" where
  "demo_tron_world = \<lparr>env = env demo_base, wbloom = NewWalletBloom, client = demo_client\<lparr>tcBaseURLs := [''a'']\<rparr>\<rparr>"

definition demo_libs :: libs where
  "demo_libs = \<lparr>lb_keccakHex = (\<lambda>_. ''0xdd''), lb_decString = (\<lambda>n e. FormatInt n @ ''e'' @ FormatInt e),
     lb_decStringFixed = (\<lambda>n e d. FormatInt n @ ''e'' @ FormatInt e)\<rparr>"

definition demo_tron_processor :: TronProcessor where
  "demo_tron_processor = \<lparr>tpConfig = cfgTron demo_cfg, tpTokenContracts = []\<rparr>"

lemma demo_services: "services_ok demo_exec demo_view demo_amqp demo_clock deSent"
proof -
  have "redis_apart demo_exec deSent" by (auto simp: redis_apart_def demo_exec_def split: prod.splits)
  with demo_redis_laws demo_amqp_laws show ?thesis by (simp add: services_ok_def)
qed

text \<open>A Redis that never fails.\<close>

definition sure_exec :: "demo_env redis_exec" where
  "sure_exec c e = (case mem_run c (msKeys (deRedis e)) of (rep, ks) \<Rightarrow> (rep, e\<lparr>deRedis := (deRedis e)\<lparr>msKeys := ks\<rparr>\<rparr>))"

lemma sure_redis: "redis_healthy sure_exec demo_view"
  using mem_run_spec unfolding redis_healthy_def sure_exec_def demo_view_def by (auto split: prod.splits)

lemma sure_services: "services_ok sure_exec demo_view demo_amqp demo_clock deSent"
proof -
  have "redis_laws sure_exec demo_view"
    using sure_redis unfolding redis_laws_def redis_ok_def redis_healthy_def by blast
  moreover have "redis_apart sure_exec deSent" by (auto simp: redis_apart_def sure_exec_def split: prod.splits)
  ultimately show ?thesis using demo_amqp_laws by (simp add: services_ok_def)
qed

lemma demo_tron_frame: "net_frame demo_tron_net demo_view" "net_frame demo_tron_net deSent"
  by (simp_all add: net_frame_def demo_tron_net_def)

lemma demo_wallets_ok:
  "env w = env demo_base \<Longrightarrow> wbloom w = NewWalletBloom \<Longrightarrow> wallets_ok BL demo_view n w"
  by (simp add: wallets_ok_def filter_sound_def is_hash_key_def keys_def demo_view_def demo_base_def watched_def
      hash_at_def fields_at_def NewWalletBloom_def)

theorem tron_block_events_witness:
  "\<exists>f c t' w' xs. tronRead demo_exec exact_bloom demo_view demo_amqp demo_clock demo_libs demo_tron_processor
      demo_tron_net demo_tron_world 7 f c \<and>
    tron_ProcessBlock demo_libs demo_tron_processor (tronOps demo_tron_net) (redisStorage demo_exec exact_bloom)
      (Some (rabbitPublisher demo_amqp demo_clock \<lparr>pubExchange = ''bloop''\<rparr>)) 7 (demo_tracker, demo_tron_world) =
      (Inr True, (t', w')) \<and> published deSent w' = xs \<and> subseq xs (f Map.empty)"
proof -
  let ?g = "to_GetBlockByNumber (tronOps demo_tron_net) 7 demo_tron_world"
  define w1 where "w1 = snd ?g"
  define block where "block = projr (fst ?g)"
  let ?d = "GetProcessedTransactions demo_exec Tron 7 w1"
  define w2 where "w2 = snd ?d"
  let ?tm = "if brTimestamp block = 0 then to_Now (tronOps demo_tron_net) w2 else (brTimestamp block * Millisecond, w2)"
  define w3 where "w3 = snd ?tm"
  let ?i = "getTransactionInfoByBlock (tronOps demo_tron_net) 7 w3"
  have "\<not> isl (fst ?g)" by code_simp
  then have g: "?g = (Inr block, w1)" by (simp add: w1_def block_def prod_eq_iff)
  have "\<not> isl (fst ?d)" unfolding w1_def by code_simp
  then have d: "?d = (Inr (projr (fst ?d)), w2)" by (simp add: w2_def prod_eq_iff)
  have "\<not> isl (fst ?i)" unfolding w3_def w2_def block_def w1_def by code_simp
  then have i: "?i = (Inr (projr (fst ?i)), snd ?i)" by (simp add: prod_eq_iff)
  have tm: "?tm = (fst ?tm, w3)" by (simp add: w3_def)
  have "\<exists>f c. tronRead demo_exec exact_bloom demo_view demo_amqp demo_clock demo_libs demo_tron_processor
      demo_tron_net demo_tron_world 7 f c"
    unfolding tronRead_def using g d tm i by blast
  then obtain f c where f: "tronRead demo_exec exact_bloom demo_view demo_amqp demo_clock demo_libs demo_tron_processor
      demo_tron_net demo_tron_world 7 f c" by blast
  have w: "wallets_ok exact_bloom demo_view Tron demo_tron_world"
    by (rule demo_wallets_ok) (simp_all add: demo_tron_world_def)
  have e: "watched demo_view Tron demo_tron_world = Map.empty" "published deSent demo_tron_world = []"
    by (simp_all add: watched_def hash_at_def fields_at_def keys_def demo_view_def demo_base_def demo_tron_world_def published_def)
  from tron_block_events [OF demo_services demo_tron_frame w f, of "\<lparr>pubExchange = ''bloop''\<rparr>" demo_tracker] f e
  show ?thesis by auto
qed

end
