(* ===== verification/Evm_Client.thy ===== *)
theory Evm_Client
  imports Json_Http Config_Model
begin

text \<open>
  The RPC client of the EVM chains (\<open>internal/blockchain/ethereum/client.go\<close>): several providers, taken
  in turn, each behind a circuit breaker that opens after three failures and is closed again by a
  health check and a successful request. The calls of go-ethereum are the parameter \<open>R\<close>, one function
  per call with the URL of the provider it goes to; \<open>N\<close> holds the clock, the rate limiter, the timer
  and the context. The values of go-ethereum are records of what the program reads of them.
\<close>

section \<open>Values of go-ethereum\<close>

type_synonym address = "160 word"
type_synonym hash32 = "256 word"

text \<open>
  A transaction: \<open>etSender\<close> is the sender recovered from the signature (\<open>None\<close> when that fails),
  \<open>etGasPrice\<close> may be missing, \<open>etTo\<close> is \<open>None\<close> for a contract creation.
\<close>

record ethTx =
  etHash :: hash32
  etType :: nat
  etTo :: "address option"
  etValue :: int
  etData :: "byte list"
  etGasPrice :: "int option"
  etSender :: "address option"

definition LegacyTxType :: nat where "LegacyTxType = 0"
definition AccessListTxType :: nat where "AccessListTxType = 1"
definition DynamicFeeTxType :: nat where "DynamicFeeTxType = 2"
definition BlobTxType :: nat where "BlobTxType = 3"

record ethHeader =
  ehHash :: hash32
  ehNumber :: u64
  ehTime :: u64
  ehParentHash :: hash32

record ethBlock =
  ebTransactions :: "ethTx list"

record ethLog =
  lgAddress :: address
  lgTopics :: "hash32 list"
  lgData :: "byte list"

record ethReceipt =
  erStatus :: u64
  erGasUsed :: u64
  erEffectiveGasPrice :: "int option"
  erLogs :: "ethLog list"

record 'e eth_rpc =
  rp_Dial :: "string \<Rightarrow> 'e \<Rightarrow> error option \<times> 'e"
  rp_Close :: "string \<Rightarrow> 'e \<Rightarrow> 'e"
  rp_BlockNumber :: "string \<Rightarrow> 'e \<Rightarrow> u64 res \<times> 'e"
  rp_HeaderByNumber :: "string \<Rightarrow> int \<Rightarrow> 'e \<Rightarrow> ethHeader res \<times> 'e"
  rp_BlockByNumber :: "string \<Rightarrow> int \<Rightarrow> 'e \<Rightarrow> ethBlock res \<times> 'e"
  rp_TransactionByHash :: "string \<Rightarrow> hash32 \<Rightarrow> 'e \<Rightarrow> (ethTx \<times> bool) res \<times> 'e"
  rp_TransactionReceipt :: "string \<Rightarrow> hash32 \<Rightarrow> 'e \<Rightarrow> ethReceipt res \<times> 'e"
  rp_BlockTxHashes :: "string \<Rightarrow> u64 \<Rightarrow> 'e \<Rightarrow> hash32 list res \<times> 'e"

section \<open>Providers\<close>

datatype CircuitBreakerState = CircuitClosed | CircuitOpen | CircuitHalfOpen

record ProviderStatus =
  psURL :: string
  psState :: CircuitBreakerState
  psFailures :: int
  psLastFailure :: go_time
  psLastSuccess :: go_time
  psResponseTimes :: "duration list"

text \<open>
  The client. The three parallel slices of the code, providers, RPC clients and statuses, are one list:
  a provider is its position in it, its RPC client the URL of its status.
\<close>

record EthereumClient =
  ecConfig :: EVMConfig
  ecStatuses :: "ProviderStatus list"
  ecCurrentIndex :: nat

text \<open>The zero value of \<open>time.Time\<close>, the first of January of the year 1.\<close>

definition zeroTime :: go_time where "zeroTime = - 62135596800 * Second"

definition addProvider ::
  "'e netio \<Rightarrow> 'e eth_rpc \<Rightarrow> string \<Rightarrow> EthereumClient \<times> 'e \<Rightarrow> error option \<times> EthereumClient \<times> 'e" where
  "addProvider N R url s = (case s of (c, e) \<Rightarrow>
     (case rp_Dial R url e of
        (Some err, e1) \<Rightarrow> (Some (Wrap ''failed to dial RPC'' err), (c, e1))
      | (None, e1) \<Rightarrow> (case rp_BlockNumber R url e1 of
          (Inl err, e2) \<Rightarrow> (Some (Wrap ''failed to test connection'' err), (c, rp_Close R url e2))
        | (Inr _, e2) \<Rightarrow> (case net_now N e2 of (now, e3) \<Rightarrow>
            (None, (c\<lparr>ecStatuses := ecStatuses c @ [\<lparr>psURL = url, psState = CircuitClosed, psFailures = 0,
               psLastFailure = zeroTime, psLastSuccess = now, psResponseTimes = []\<rparr>]\<rparr>, e3))))))"

definition NewEthereumClient ::
  "'e netio \<Rightarrow> 'e eth_rpc \<Rightarrow> EVMConfig \<Rightarrow> 'e \<Rightarrow> EthereumClient res \<times> 'e" where
  "NewEthereumClient N R cfg e =
     (if evmRPCURLs cfg = [] then (Inl (ErrorString ''no RPC URLs provided''), e)
      else case fold (\<lambda>url s. snd (addProvider N R url s)) (evmRPCURLs cfg)
                  (\<lparr>ecConfig = cfg, ecStatuses = [], ecCurrentIndex = 0\<rparr>, e) of
             (c, e1) \<Rightarrow>
               if ecStatuses c = [] then (Inl (ErrorString ''no working RPC providers available''), e1)
               else (Inr c, e1))"

text \<open>Whether a provider may be used; the clock is read only for a half-open one.\<close>

definition isHealthy :: "'e netio \<Rightarrow> ProviderStatus \<Rightarrow> 'e \<Rightarrow> bool \<times> 'e" where
  "isHealthy N status e =
     (case psState status of
        CircuitClosed \<Rightarrow> (True, e)
      | CircuitHalfOpen \<Rightarrow> (case net_now N e of (now, e1) \<Rightarrow> (now - psLastFailure status > 30 * Second, e1))
      | CircuitOpen \<Rightarrow> (False, e))"

fun healthyLoop :: "'e netio \<Rightarrow> nat \<Rightarrow> nat \<Rightarrow> EthereumClient \<times> 'e \<Rightarrow> nat res \<times> EthereumClient \<times> 'e" where
  "healthyLoop N index 0 s = (Inl (ErrorString ''no healthy providers available''), s)"
| "healthyLoop N index (Suc i) (c, e) =
     (let n = length (ecStatuses c); k = index mod n in
      case isHealthy N (ecStatuses c ! k) e of
        (True, e1) \<Rightarrow> (Inr k, (c\<lparr>ecCurrentIndex := (k + 1) mod n\<rparr>, e1))
      | (False, e1) \<Rightarrow> healthyLoop N (index + 1) i (c, e1))"

definition getHealthyProvider :: "'e netio \<Rightarrow> EthereumClient \<times> 'e \<Rightarrow> nat res \<times> EthereumClient \<times> 'e" where
  "getHealthyProvider N s = healthyLoop N (ecCurrentIndex (fst s)) (length (ecStatuses (fst s))) s"

text \<open>What a finished request does to the status of its provider (\<open>now\<close> is the reading of the clock).\<close>

definition updateStatus :: "error option \<Rightarrow> duration \<Rightarrow> go_time \<Rightarrow> ProviderStatus \<Rightarrow> ProviderStatus" where
  "updateStatus err d now status =
     (let times = psResponseTimes status @ [d];
          st1 = status\<lparr>psResponseTimes := (if length times > 10 then tl times else times)\<rparr>
      in case err of
           Some _ \<Rightarrow>
             let st2 = st1\<lparr>psFailures := psFailures st1 + 1, psLastFailure := now\<rparr>
             in if psFailures st2 \<ge> 3 \<and> psState st2 = CircuitClosed then st2\<lparr>psState := CircuitOpen\<rparr> else st2
         | None \<Rightarrow>
             let st2 = st1\<lparr>psFailures := 0, psLastSuccess := now\<rparr>
             in if psState st2 = CircuitHalfOpen then st2\<lparr>psState := CircuitClosed\<rparr> else st2)"

definition updateProviderStatus ::
  "'e netio \<Rightarrow> nat \<Rightarrow> error option \<Rightarrow> duration \<Rightarrow> EthereumClient \<times> 'e \<Rightarrow> EthereumClient \<times> 'e" where
  "updateProviderStatus N k err d s = (case s of (c, e) \<Rightarrow> (case net_now N e of (now, e1) \<Rightarrow>
     (c\<lparr>ecStatuses := (ecStatuses c)[k := updateStatus err d now (ecStatuses c ! k)]\<rparr>, e1)))"

section \<open>Requests with retries\<close>

definition typeNotSupported :: "error \<Rightarrow> bool" where
  "typeNotSupported err \<longleftrightarrow> Contains (error_msg err) ''transaction type not supported''"

text \<open>An operation runs on the provider at a position; it may use the client itself (\<open>BatchCall\<close> does).\<close>

type_synonym ('e, 'a) eth_op = "nat \<Rightarrow> EthereumClient \<times> 'e \<Rightarrow> 'a res \<times> EthereumClient \<times> 'e"

fun retryLoop ::
  "'e netio \<Rightarrow> ('e, 'a) eth_op \<Rightarrow> nat \<Rightarrow> error option \<Rightarrow> EthereumClient \<times> 'e \<Rightarrow> 'a res \<times> EthereumClient \<times> 'e" where
  "retryLoop N op 0 lastErr s =
     (Inl (case lastErr of
        None \<Rightarrow> ErrorString ''all retry attempts failed: %!w(<nil>)'' | Some err \<Rightarrow> Wrap ''all retry attempts failed'' err), s)"
| "retryLoop N op (Suc k) lastErr s =
     (case getHealthyProvider N s of
        (Inl err, s1) \<Rightarrow> (Inl err, s1)
      | (Inr i, (c1, e1)) \<Rightarrow> (case net_now N e1 of (start, e2) \<Rightarrow>
          (case op i (c1, e2) of (r, (c3, e3)) \<Rightarrow> (case net_now N e3 of (stop, e4) \<Rightarrow>
            (case r of
               Inr x \<Rightarrow> (Inr x, updateProviderStatus N i None (stop - start) (c3, e4))
             | Inl err \<Rightarrow>
                 if typeNotSupported err then retryLoop N op k (Some err) (c3, e4)
                 else (case updateProviderStatus N i (Some err) (stop - start) (c3, e4) of (c5, e5) \<Rightarrow>
                   if k > 0 then
                     (case net_sleep N (evmRetryDelay (ecConfig c5)) e5 of
                        (True, e6) \<Rightarrow> (Inl (ctx_error N e6), (c5, e6))
                      | (False, e6) \<Rightarrow> retryLoop N op k (Some err) (c5, e6))
                   else retryLoop N op k (Some err) (c5, e5)))))))"

definition executeWithRetry ::
  "'e netio \<Rightarrow> ('e, 'a) eth_op \<Rightarrow> EthereumClient \<times> 'e \<Rightarrow> 'a res \<times> EthereumClient \<times> 'e" where
  "executeWithRetry N op s = (case s of (c, e) \<Rightarrow>
     (case net_wait N e of
        (Some err, e1) \<Rightarrow> (Inl (Wrap ''rate limit exceeded'' err), (c, e1))
      | (None, e1) \<Rightarrow> retryLoop N op (nat (evmRetryAttempts (ecConfig c))) None (c, e1)))"

text \<open>An operation that is one call of go-ethereum on the chosen provider.\<close>

definition onProvider :: "(string \<Rightarrow> 'e \<Rightarrow> 'a res \<times> 'e) \<Rightarrow> ('e, 'a) eth_op" where
  "onProvider f i s = (case s of (c, e) \<Rightarrow> (case f (psURL (ecStatuses c ! i)) e of (r, e1) \<Rightarrow> (r, (c, e1))))"

definition eth_BlockNumber :: "'e netio \<Rightarrow> 'e eth_rpc \<Rightarrow> EthereumClient \<times> 'e \<Rightarrow> u64 res \<times> EthereumClient \<times> 'e" where
  "eth_BlockNumber N R = executeWithRetry N (onProvider (rp_BlockNumber R))"

definition eth_HeaderByNumber ::
  "'e netio \<Rightarrow> 'e eth_rpc \<Rightarrow> int \<Rightarrow> EthereumClient \<times> 'e \<Rightarrow> ethHeader res \<times> EthereumClient \<times> 'e" where
  "eth_HeaderByNumber N R number = executeWithRetry N (onProvider (\<lambda>url. rp_HeaderByNumber R url number))"

definition eth_BlockByNumber ::
  "'e netio \<Rightarrow> 'e eth_rpc \<Rightarrow> int \<Rightarrow> EthereumClient \<times> 'e \<Rightarrow> ethBlock res \<times> EthereumClient \<times> 'e" where
  "eth_BlockByNumber N R number = executeWithRetry N (onProvider (\<lambda>url. rp_BlockByNumber R url number))"

definition eth_TransactionByHash ::
  "'e netio \<Rightarrow> 'e eth_rpc \<Rightarrow> hash32 \<Rightarrow> EthereumClient \<times> 'e \<Rightarrow> (ethTx \<times> bool) res \<times> EthereumClient \<times> 'e" where
  "eth_TransactionByHash N R h = executeWithRetry N (onProvider (\<lambda>url. rp_TransactionByHash R url h))"

definition eth_TransactionReceipt ::
  "'e netio \<Rightarrow> 'e eth_rpc \<Rightarrow> hash32 \<Rightarrow> EthereumClient \<times> 'e \<Rightarrow> ethReceipt res \<times> EthereumClient \<times> 'e" where
  "eth_TransactionReceipt N R h = executeWithRetry N (onProvider (\<lambda>url. rp_TransactionReceipt R url h))"

text \<open>
  \<open>BatchCall\<close>: the operation takes another provider from the rotation and sends the batch (\<open>send\<close>)
  there, whatever provider the attempt was charged to.
\<close>

definition BatchCall ::
  "'e netio \<Rightarrow> (string \<Rightarrow> 'e \<Rightarrow> 'a res \<times> 'e) \<Rightarrow> EthereumClient \<times> 'e \<Rightarrow> 'a res \<times> EthereumClient \<times> 'e" where
  "BatchCall N send = executeWithRetry N (\<lambda>_ s.
     (case getHealthyProvider N s of
        (Inl err, s1) \<Rightarrow> (Inl err, s1)
      | (Inr i, s1) \<Rightarrow> onProvider send i s1))"

section \<open>Health checks\<close>

definition checkProvider ::
  "'e netio \<Rightarrow> 'e eth_rpc \<Rightarrow> nat \<Rightarrow> EthereumClient \<times> 'e \<Rightarrow> EthereumClient \<times> 'e" where
  "checkProvider N R i s = (case s of (c, e) \<Rightarrow>
     let status = ecStatuses c ! i in
     if psState status \<noteq> CircuitOpen then (c, e)
     else (case net_now N e of (now, e1) \<Rightarrow>
       if \<not> now - psLastFailure status > 60 * Second then (c, e1)
       else (case net_now N e1 of (start, e2) \<Rightarrow> (case rp_BlockNumber R (psURL status) e2 of (r, e3) \<Rightarrow>
         (case net_now N e3 of (stop, e4) \<Rightarrow>
            (case r of
               Inr _ \<Rightarrow> (case net_now N e4 of (now2, e5) \<Rightarrow>
                 (c\<lparr>ecStatuses := (ecStatuses c)[i := status\<lparr>psState := CircuitHalfOpen, psFailures := 0,
                    psLastSuccess := now2\<rparr>]\<rparr>, e5))
             | Inl err \<Rightarrow> updateProviderStatus N i (Some err) (stop - start) (c, e4)))))))"

definition performHealthCheck ::
  "'e netio \<Rightarrow> 'e eth_rpc \<Rightarrow> EthereumClient \<times> 'e \<Rightarrow> EthereumClient \<times> 'e" where
  "performHealthCheck N R s = fold (checkProvider N R) [0..<length (ecStatuses (fst s))] s"

definition GetProviderStatuses :: "EthereumClient \<Rightarrow> ProviderStatus list" where
  "GetProviderStatuses c = map (\<lambda>st. st\<lparr>psResponseTimes := []\<rparr>) (ecStatuses c)"

definition eth_Close :: "'e eth_rpc \<Rightarrow> EthereumClient \<times> 'e \<Rightarrow> 'e" where
  "eth_Close R s = fold (\<lambda>st e. rp_Close R (psURL st) e) (ecStatuses (fst s)) (snd s)"

section \<open>Blocks transaction by transaction\<close>

record EthBlockVerbose =
  evHash :: hash32
  evNumber :: u64
  evTime :: u64
  evParentHash :: hash32
  evTransactions :: "ethTx list"

text \<open>
  The transactions of a block, one by one. The goroutines that fetch them run one after the other here
  and each of them is run; the error returned is the one of the first.
\<close>

fun fetchTxs ::
  "'e netio \<Rightarrow> 'e eth_rpc \<Rightarrow> (hash32 \<Rightarrow> string) \<Rightarrow> hash32 list \<Rightarrow> EthereumClient \<times> 'e \<Rightarrow>
   ethTx list res \<times> EthereumClient \<times> 'e" where
  "fetchTxs N R hex [] s = (Inr [], s)"
| "fetchTxs N R hex (h # hs) (c, e) =
     (case net_wait N e of
        (Some err, e1) \<Rightarrow> (Inl err, snd (fetchTxs N R hex hs (c, e1)))
      | (None, e1) \<Rightarrow>
          (case eth_TransactionByHash N R h (c, e1) of
             (Inl err, s2) \<Rightarrow>
               (Inl (Wrap (''failed to fetch tx '' @ hex h) err), snd (fetchTxs N R hex hs s2))
           | (Inr (tx, _), s2) \<Rightarrow>
               (case fetchTxs N R hex hs s2 of
                  (Inl err, s3) \<Rightarrow> (Inl err, s3)
                | (Inr txs, s3) \<Rightarrow> (Inr (tx # txs), s3))))"

definition eth_GetBlockVerbose ::
  "'e netio \<Rightarrow> 'e eth_rpc \<Rightarrow> (hash32 \<Rightarrow> string) \<Rightarrow> u64 \<Rightarrow> EthereumClient \<times> 'e \<Rightarrow>
   EthBlockVerbose res \<times> EthereumClient \<times> 'e" where
  "eth_GetBlockVerbose N R hex blockNumber s =
     (case eth_HeaderByNumber N R (sint blockNumber) s of
        (Inl err, s1) \<Rightarrow> (Inl (Wrap ''failed to get block header'' err), s1)
      | (Inr header, s1) \<Rightarrow>
          (case getHealthyProvider N s1 of
             (Inl err, s2) \<Rightarrow> (Inl err, s2)
           | (Inr i, (c2, e2)) \<Rightarrow>
               (case rp_BlockTxHashes R (psURL (ecStatuses c2 ! i)) blockNumber e2 of
                  (Inl err, e3) \<Rightarrow> (Inl (Wrap ''failed to get block transaction hashes'' err), (c2, e3))
                | (Inr txHashes, e3) \<Rightarrow>
                    (case fetchTxs N R hex txHashes (c2, e3) of
                       (Inl err, s4) \<Rightarrow> (Inl err, s4)
                     | (Inr txs, s4) \<Rightarrow>
                         (Inr \<lparr>evHash = ehHash header, evNumber = ehNumber header, evTime = ehTime header,
                            evParentHash = ehParentHash header, evTransactions = txs\<rparr>, s4)))))"

section \<open>The circuit breaker\<close>

text \<open>
  The invariant of a provider: a closed breaker has seen fewer than three failures in a row, the count is
  not negative and at most ten response times are kept.
\<close>

definition breaker_ok :: "ProviderStatus \<Rightarrow> bool" where
  "breaker_ok st \<longleftrightarrow> (psState st = CircuitClosed \<longrightarrow> psFailures st < 3) \<and> 0 \<le> psFailures st \<and>
     length (psResponseTimes st) \<le> 10"

definition client_inv :: "EthereumClient \<Rightarrow> bool" where
  "client_inv c \<longleftrightarrow> list_all breaker_ok (ecStatuses c) \<and> ecCurrentIndex c < length (ecStatuses c)"

text \<open>What no step changes: the configuration and the providers with their order.\<close>

definition client_same :: "EthereumClient \<Rightarrow> EthereumClient \<Rightarrow> bool" where
  "client_same c c' \<longleftrightarrow> ecConfig c' = ecConfig c \<and> map psURL (ecStatuses c') = map psURL (ecStatuses c) \<and>
     (client_inv c \<longrightarrow> client_inv c')"

lemma client_same_refl [simp]: "client_same c c"
  by (simp add: client_same_def)

lemma client_same_trans: "client_same c c1 \<Longrightarrow> client_same c1 c2 \<Longrightarrow> client_same c c2"
  by (simp add: client_same_def)

lemma client_same_length: "client_same c c' \<Longrightarrow> length (ecStatuses c') = length (ecStatuses c)"
  unfolding client_same_def by (metis length_map)

lemma updateStatus_url [simp]: "psURL (updateStatus err d now st) = psURL st"
  by (auto simp: updateStatus_def Let_def split: option.splits)

lemma updateStatus_ok: "breaker_ok st \<Longrightarrow> breaker_ok (updateStatus err d now st)"
  by (cases err) (auto simp: updateStatus_def breaker_ok_def Let_def)

lemma list_all_update: "list_all P xs \<Longrightarrow> (i < length xs \<Longrightarrow> P x) \<Longrightarrow> list_all P (xs[i := x])"
  using set_update_subset_insert [of xs i x] by (cases "i < length xs") (auto simp: list_all_iff list_update_beyond)

lemma map_update_same: "f x = f (xs ! i) \<Longrightarrow> map f (xs[i := x]) = map f xs"
  by (cases "i < length xs") (simp_all add: map_update list_update_same_conv list_update_beyond)

lemma status_update_same:
  assumes "psURL x = psURL (ecStatuses c ! i)" "i < length (ecStatuses c) \<Longrightarrow> breaker_ok (ecStatuses c ! i) \<Longrightarrow> breaker_ok x"
  shows "client_same c (c\<lparr>ecStatuses := (ecStatuses c)[i := x]\<rparr>)"
proof -
  have "list_all breaker_ok ((ecStatuses c)[i := x])" if "list_all breaker_ok (ecStatuses c)"
    using that assms(2) by (intro list_all_update) (auto simp: list_all_length)
  with map_update_same [of psURL x "ecStatuses c" i] assms(1) show ?thesis
    by (simp add: client_same_def client_inv_def)
qed

lemma updateProviderStatus_same:
  "updateProviderStatus N i err d (c, e) = (c', e') \<Longrightarrow> client_same c c'"
  using status_update_same updateStatus_ok by (fastforce simp: updateProviderStatus_def split: prod.splits)

lemma healthyLoop_facts:
  "healthyLoop N index i (c, e) = (r, (c', e')) \<Longrightarrow> ecStatuses c \<noteq> [] \<Longrightarrow>
   ecStatuses c' = ecStatuses c \<and> ecConfig c' = ecConfig c \<and>
   (ecCurrentIndex c < length (ecStatuses c) \<longrightarrow> ecCurrentIndex c' < length (ecStatuses c)) \<and>
   (\<forall>k. r = Inr k \<longrightarrow> k < length (ecStatuses c) \<and> psState (ecStatuses c ! k) \<noteq> CircuitOpen \<and>
      ecCurrentIndex c' = (k + 1) mod length (ecStatuses c))"
proof (induction i arbitrary: index e)
  case (Suc i)
  let ?n = "length (ecStatuses c)" let ?k = "index mod ?n"
  have n: "0 < ?n" using Suc.prems(2) by simp
  obtain h e1 where h: "isHealthy N (ecStatuses c ! ?k) e = (h, e1)" by (cases "isHealthy N (ecStatuses c ! ?k) e")
  show ?case
  proof (cases h)
    case True
    then have "psState (ecStatuses c ! ?k) \<noteq> CircuitOpen"
      using h by (auto simp: isHealthy_def split: CircuitBreakerState.splits)
    moreover have "r = Inr ?k" "c' = c\<lparr>ecCurrentIndex := (?k + 1) mod ?n\<rparr>" using Suc.prems(1) h True by (simp_all add: Let_def)
    ultimately show ?thesis using n by simp
  next
    case False
    then have "healthyLoop N (index + 1) i (c, e1) = (r, (c', e'))" using Suc.prems(1) h by (simp add: Let_def)
    from Suc.IH [OF this Suc.prems(2)] show ?thesis .
  qed
qed auto

lemma healthyLoop_closed:
  "psState (ecStatuses c ! ((index + j) mod length (ecStatuses c))) = CircuitClosed \<Longrightarrow> j < i \<Longrightarrow>
   \<exists>k s. healthyLoop N index i (c, e) = (Inr k, s)"
proof (induction i arbitrary: index j e)
  case (Suc i)
  let ?n = "length (ecStatuses c)" let ?k = "index mod ?n"
  obtain h e1 where h: "isHealthy N (ecStatuses c ! ?k) e = (h, e1)" by (cases "isHealthy N (ecStatuses c ! ?k) e")
  show ?case
  proof (cases h)
    case False
    have "j \<noteq> 0"
    proof
      assume "j = 0"
      then have "psState (ecStatuses c ! ?k) = CircuitClosed" using Suc.prems(1) by simp
      with h False show False by (simp add: isHealthy_def)
    qed
    then obtain j' where "j = Suc j'" by (cases j) auto
    with Suc.prems Suc.IH [of "index + 1" j' e1] h False show ?thesis by (simp add: Let_def)
  qed (use h in \<open>simp add: Let_def\<close>)
qed simp

lemma mod_reach: "k < n \<Longrightarrow> i < (n :: nat) \<Longrightarrow> \<exists>j < n. (k + j) mod n = i"
  by (intro exI [of _ "(i + n - k) mod n"]) (simp add: mod_simps)

lemma getHealthyProvider_facts:
  assumes "getHealthyProvider N (c, e) = (r, (c', e'))"
  shows "client_same c c'"
proof (cases "ecStatuses c = []")
  case True
  with assms show ?thesis by (simp add: getHealthyProvider_def)
next
  case False
  with healthyLoop_facts [of N "ecCurrentIndex c" "length (ecStatuses c)" c e r c' e'] assms show ?thesis
    by (simp add: getHealthyProvider_def client_same_def client_inv_def)
qed

text \<open>
  C33: choosing a provider: a provider with an open breaker is never chosen, the rotation continues behind the
  chosen one, nothing else changes, and the choice cannot fail while some breaker is closed.
\<close>

theorem healthy_provider_choice:
  assumes "ecCurrentIndex c < length (ecStatuses c)" "getHealthyProvider N (c, e) = (r, (c', e'))"
  shows "ecStatuses c' = ecStatuses c \<and>
    (\<forall>k. r = Inr k \<longrightarrow> k < length (ecStatuses c) \<and> psState (ecStatuses c ! k) \<noteq> CircuitOpen \<and>
       ecCurrentIndex c' = (k + 1) mod length (ecStatuses c)) \<and>
    ((\<exists>st \<in> set (ecStatuses c). psState st = CircuitClosed) \<longrightarrow> (\<exists>k. r = Inr k))"
proof -
  let ?n = "length (ecStatuses c)"
  have L: "healthyLoop N (ecCurrentIndex c) ?n (c, e) = (r, (c', e'))"
    using assms(2) by (simp add: getHealthyProvider_def)
  have "\<exists>k. r = Inr k" if "\<exists>st \<in> set (ecStatuses c). psState st = CircuitClosed"
  proof -
    from that obtain i where i: "i < ?n" "psState (ecStatuses c ! i) = CircuitClosed" by (auto simp: in_set_conv_nth)
    from mod_reach [OF assms(1) i(1)] obtain j where "j < ?n" "(ecCurrentIndex c + j) mod ?n = i" by blast
    with healthyLoop_closed [of c "ecCurrentIndex c" j ?n N e] i L show ?thesis by auto
  qed
  moreover have "ecStatuses c \<noteq> []" using assms(1) by auto
  ultimately show ?thesis using healthyLoop_facts [OF L] by blast
qed

section \<open>What a request leaves behind\<close>

text \<open>The calls of go-ethereum leave alone what other services store.\<close>

definition rpc_frame :: "'e eth_rpc \<Rightarrow> ('e \<Rightarrow> 'v) \<Rightarrow> bool" where
  "rpc_frame R view \<longleftrightarrow>
     (\<forall>u e. view (snd (rp_Dial R u e)) = view e) \<and> (\<forall>u e. view (rp_Close R u e) = view e) \<and>
     (\<forall>u e. view (snd (rp_BlockNumber R u e)) = view e) \<and>
     (\<forall>u n e. view (snd (rp_HeaderByNumber R u n e)) = view e) \<and>
     (\<forall>u n e. view (snd (rp_BlockByNumber R u n e)) = view e) \<and>
     (\<forall>u h e. view (snd (rp_TransactionByHash R u h e)) = view e) \<and>
     (\<forall>u h e. view (snd (rp_TransactionReceipt R u h e)) = view e) \<and>
     (\<forall>u b e. view (snd (rp_BlockTxHashes R u b e)) = view e)"

text \<open>A step of the client on its state and the outside world that keeps both contracts.\<close>

definition good_step :: "('e \<Rightarrow> 'v) \<Rightarrow> EthereumClient \<times> 'e \<Rightarrow> EthereumClient \<times> 'e \<Rightarrow> bool" where
  "good_step view s s' \<longleftrightarrow> client_same (fst s) (fst s') \<and> view (snd s') = view (snd s)"

lemma good_step_refl [simp]: "good_step view s s"
  by (simp add: good_step_def)

lemma good_step_trans: "good_step view s s1 \<Longrightarrow> good_step view s1 s2 \<Longrightarrow> good_step view s s2"
  unfolding good_step_def using client_same_trans by metis

lemma now_step: "net_frame N view \<Longrightarrow> net_now N e = (n, e') \<Longrightarrow> good_step view (c, e) (c, e')"
  using net_frameD(4) [of N view e n e'] by (simp add: good_step_def)

lemma sleep_step: "net_frame N view \<Longrightarrow> net_sleep N d e = (b, e') \<Longrightarrow> good_step view (c, e) (c, e')"
  using net_frameD(3) [of N view d e b e'] by (simp add: good_step_def)

lemma wait_step: "net_frame N view \<Longrightarrow> net_wait N e = (b, e') \<Longrightarrow> good_step view (c, e) (c, e')"
  using net_frameD(2) [of N view e b e'] by (simp add: good_step_def)

lemma update_step:
  assumes "net_frame N view" "updateProviderStatus N i err d s = s'"
  shows "good_step view s s'"
proof -
  obtain c e where s: "s = (c, e)" by (cases s)
  obtain c' e' where s': "s' = (c', e')" by (cases s')
  have "view e' = view e"
    using assms s s' net_frameD(4) [OF assms(1)] by (auto simp: updateProviderStatus_def split: prod.splits)
  with updateProviderStatus_same [of N i err d c e c' e'] assms(2) s s' show ?thesis by (simp add: good_step_def)
qed

lemma isHealthy_frame: "net_frame N view \<Longrightarrow> isHealthy N st e = (h, e') \<Longrightarrow> view e' = view e"
  using net_frameD(4) [of N view] by (auto simp: isHealthy_def split: CircuitBreakerState.splits prod.splits)

lemma healthyLoop_frame:
  "net_frame N view \<Longrightarrow> healthyLoop N index i (c, e) = (r, (c', e')) \<Longrightarrow> view e' = view e"
proof (induction i arbitrary: index e)
  case (Suc i)
  let ?st = "ecStatuses c ! (index mod length (ecStatuses c))"
  obtain h e1 where h: "isHealthy N ?st e = (h, e1)" by (cases "isHealthy N ?st e")
  from isHealthy_frame [OF Suc.prems(1) h] Suc h show ?case by (cases h) (auto simp: Let_def)
qed simp

lemma choose_step: "net_frame N view \<Longrightarrow> getHealthyProvider N s = (r, s') \<Longrightarrow> good_step view s s'"
  using getHealthyProvider_facts [of N "fst s" "snd s" r "fst s'" "snd s'"]
    healthyLoop_frame [of N view "ecCurrentIndex (fst s)" "length (ecStatuses (fst s))" "fst s" "snd s" r "fst s'" "snd s'"]
  by (simp add: good_step_def getHealthyProvider_def)

lemma retryLoop_step:
  assumes "net_frame N view" "\<And>i s r s'. op i s = (r, s') \<Longrightarrow> good_step view s s'"
  shows "retryLoop N op k l s = (r, s') \<Longrightarrow> good_step view s s'"
proof (induction k arbitrary: l s)
  case (Suc k)
  obtain g c1 e1 where g: "getHealthyProvider N s = (g, (c1, e1))" by (cases "getHealthyProvider N s") auto
  note G = choose_step [OF assms(1) g]
  show ?case
  proof (cases g)
    case (Inl err)
    with Suc.prems g G show ?thesis by simp
  next
    case (Inr i)
    obtain t0 e2 where n1: "net_now N e1 = (t0, e2)" by (cases "net_now N e1")
    obtain x c3 e3 where o: "op i (c1, e2) = (x, (c3, e3))" by (cases "op i (c1, e2)") auto
    obtain t1 e4 where n2: "net_now N e3 = (t1, e4)" by (cases "net_now N e3")
    have H: "good_step view s (c3, e4)"
      using good_step_trans [OF G good_step_trans [OF now_step [OF assms(1) n1] good_step_trans [OF assms(2) [OF o]
            now_step [OF assms(1) n2]]]] .
    show ?thesis
    proof (cases x)
      case x: (Inr y)
      with Suc.prems g Inr n1 o n2 have "s' = updateProviderStatus N i None (t1 - t0) (c3, e4)" by simp
      with good_step_trans [OF H update_step [OF assms(1)]] show ?thesis by simp
    next
      case x: (Inl err)
      obtain c5 e5 where u: "updateProviderStatus N i (Some err) (t1 - t0) (c3, e4) = (c5, e5)"
        by (cases "updateProviderStatus N i (Some err) (t1 - t0) (c3, e4)")
      note U = good_step_trans [OF H update_step [OF assms(1) u]]
      obtain b e6 where sl: "net_sleep N (evmRetryDelay (ecConfig c5)) e5 = (b, e6)"
        by (cases "net_sleep N (evmRetryDelay (ecConfig c5)) e5")
      note S = good_step_trans [OF U sleep_step [OF assms(1) sl]]
      consider "retryLoop N op k (Some err) (c3, e4) = (r, s')" | "s' = (c5, e6)"
        | "retryLoop N op k (Some err) (c5, e6) = (r, s')" | "retryLoop N op k (Some err) (c5, e5) = (r, s')"
        using Suc.prems g Inr n1 o n2 x u sl
        by (cases "typeNotSupported err"; cases "0 < k"; cases b) simp_all
      then show ?thesis
      proof cases
        case 1 then show ?thesis using good_step_trans [OF H Suc.IH] by blast
      next
        case 2 then show ?thesis using S by simp
      next
        case 3 then show ?thesis using good_step_trans [OF S Suc.IH] by blast
      next
        case 4 then show ?thesis using good_step_trans [OF U Suc.IH] by blast
      qed
    qed
  qed
qed simp

lemma execute_step:
  assumes "net_frame N view" "\<And>i s r s'. op i s = (r, s') \<Longrightarrow> good_step view s s'"
    and "executeWithRetry N op s = (r, s')"
  shows "good_step view s s'"
proof -
  obtain c e where s: "s = (c, e)" by (cases s)
  obtain x e1 where w: "net_wait N e = (x, e1)" by (cases "net_wait N e")
  note W = wait_step [OF assms(1) w, of c]
  show ?thesis
  proof (cases x)
    case None
    with assms(3) s w have "retryLoop N op (nat (evmRetryAttempts (ecConfig c))) None (c, e1) = (r, s')"
      by (simp add: executeWithRetry_def)
    have "good_step view (c, e1) s'"
      by (rule retryLoop_step [OF assms(1) _ \<open>retryLoop _ _ _ _ _ = _\<close>]) (rule assms(2))
    with good_step_trans [OF W] s show ?thesis by blast
  next
    case (Some err)
    with assms(3) s w W show ?thesis by (simp add: executeWithRetry_def)
  qed
qed

lemma onProvider_step:
  "(\<And>u e. view (snd (f u e)) = view e) \<Longrightarrow> onProvider f i s = (r, s') \<Longrightarrow> good_step view s s'"
  by (auto simp: onProvider_def good_step_def split: prod.splits) (metis snd_conv)

lemma call_step:
  "net_frame N view \<Longrightarrow> (\<And>u e. view (snd (f u e)) = view e) \<Longrightarrow>
   executeWithRetry N (onProvider f) s = (r, s') \<Longrightarrow> good_step view s s'"
  by (rule execute_step [OF _ onProvider_step])

lemma check_step:
  assumes "net_frame N view" "rpc_frame R view"
  shows "good_step view s (checkProvider N R i s)"
proof -
  obtain c e where s: "s = (c, e)" by (cases s)
  let ?st = "ecStatuses c ! i"
  have now: "view (snd (net_now N e)) = view e" and bn: "view (snd (rp_BlockNumber R u e)) = view e" for e u
    using assms by (simp_all add: net_frame_def rpc_frame_def)
  have "client_same c (c\<lparr>ecStatuses := (ecStatuses c)[i := ?st\<lparr>psState := CircuitHalfOpen, psFailures := 0,
      psLastSuccess := n\<rparr>]\<rparr>)" for n
    by (rule status_update_same) (simp_all add: breaker_ok_def)
  moreover have "good_step view (c, e') (updateProviderStatus N i err d (c, e'))" for err d e'
    by (rule update_step [OF assms(1) refl])
  ultimately show ?thesis
    using now bn s by (auto simp: checkProvider_def good_step_def Let_def split_beta split: sum.splits)
qed

lemma health_step:
  assumes "net_frame N view" "rpc_frame R view"
  shows "good_step view s (performHealthCheck N R s)"
proof -
  have "good_step view s (fold (checkProvider N R) is s)" for "is"
  proof (induction "is" arbitrary: s)
    case (Cons i "is")
    from good_step_trans [OF check_step [OF assms, of s i] Cons.IH] show ?case by simp
  qed simp
  then show ?thesis unfolding performHealthCheck_def by blast
qed

section \<open>When the providers answer\<close>

text \<open>
  A client all of whose breakers are closed, with at least one attempt per request, on providers that answer every
  request: the first attempt succeeds and the client stays as it was in this respect.
\<close>

definition client_up :: "EthereumClient \<Rightarrow> bool" where
  "client_up c \<longleftrightarrow> ecStatuses c \<noteq> [] \<and> list_all (\<lambda>st. psState st = CircuitClosed) (ecStatuses c) \<and>
     evmRetryAttempts (ecConfig c) > 0"

definition providers_answer :: "'e netio \<Rightarrow> 'e eth_rpc \<Rightarrow> bool" where
  "providers_answer N R \<longleftrightarrow> (\<forall>e. fst (net_wait N e) = None) \<and>
     (\<forall>u e. \<not> isl (fst (rp_BlockNumber R u e))) \<and> (\<forall>u n e. \<not> isl (fst (rp_HeaderByNumber R u n e))) \<and>
     (\<forall>u n e. \<not> isl (fst (rp_BlockByNumber R u n e))) \<and> (\<forall>u h e. \<not> isl (fst (rp_TransactionByHash R u h e))) \<and>
     (\<forall>u h e. \<not> isl (fst (rp_TransactionReceipt R u h e))) \<and> (\<forall>u b e. \<not> isl (fst (rp_BlockTxHashes R u b e)))"

lemma choose_up:
  assumes "client_up c" "getHealthyProvider N (c, e) = (r, (c', e'))"
  shows "client_up c' \<and> (\<exists>i. r = Inr i \<and> i < length (ecStatuses c'))"
proof -
  obtain n where n: "length (ecStatuses c) = Suc n" using assms(1) by (cases "ecStatuses c") (auto simp: client_up_def)
  then have "ecCurrentIndex c mod length (ecStatuses c) < length (ecStatuses c)" by simp
  with assms(1) have "psState (ecStatuses c ! (ecCurrentIndex c mod length (ecStatuses c))) = CircuitClosed"
    by (auto simp: client_up_def list_all_length)
  with assms n show ?thesis
    by (auto simp: getHealthyProvider_def isHealthy_def Let_def client_up_def)
qed

lemma update_up:
  assumes "client_up c" "i < length (ecStatuses c)" "updateProviderStatus N i None d (c, e) = (c', e')"
  shows "client_up c'"
proof -
  have "psState (updateStatus None d n (ecStatuses c ! i)) = CircuitClosed" for n
    using assms(1,2) by (auto simp: updateStatus_def Let_def client_up_def list_all_length)
  with assms show ?thesis
    by (auto simp: updateProviderStatus_def client_up_def list_all_length nth_list_update split: prod.splits)
qed

lemma call_up:
  assumes "client_up c" "fst (net_wait N e) = None" "\<And>u e. \<not> isl (fst (f u e))"
    and "executeWithRetry N (onProvider f) (c, e) = (r, (c', e'))"
  shows "client_up c' \<and> \<not> isl r"
proof -
  obtain k where k: "nat (evmRetryAttempts (ecConfig c)) = Suc k"
    using assms(1) by (cases "nat (evmRetryAttempts (ecConfig c))") (auto simp: client_up_def)
  obtain e1 where w: "net_wait N e = (None, e1)" using assms(2) by (cases "net_wait N e") auto
  obtain g c2 e2 where g: "getHealthyProvider N (c, e1) = (g, (c2, e2))" by (cases "getHealthyProvider N (c, e1)") auto
  from choose_up [OF assms(1) g] obtain i where i: "g = Inr i" "i < length (ecStatuses c2)" "client_up c2" by blast
  obtain t0 e3 where n1: "net_now N e2 = (t0, e3)" by (cases "net_now N e2")
  obtain x e4 where o: "f (psURL (ecStatuses c2 ! i)) e3 = (x, e4)" by (cases "f (psURL (ecStatuses c2 ! i)) e3")
  with assms(3) [of "psURL (ecStatuses c2 ! i)" e3] obtain y where x: "x = Inr y" by (cases x) auto
  obtain t1 e5 where n2: "net_now N e4 = (t1, e5)" by (cases "net_now N e4")
  have "r = Inr y \<and> updateProviderStatus N i None (t1 - t0) (c2, e5) = (c', e')"
    using assms(4) w k g i(1) n1 o x n2 by (simp add: executeWithRetry_def onProvider_def)
  with update_up [OF i(3,2)] show ?thesis by auto
qed

text \<open>
  The life of a client: its calls and its health checks, in any order.
\<close>

inductive eth_step :: "'e netio \<Rightarrow> 'e eth_rpc \<Rightarrow> EthereumClient \<times> 'e \<Rightarrow> EthereumClient \<times> 'e \<Rightarrow> bool"
  for N :: "'e netio" and R :: "'e eth_rpc" where
  height: "eth_step N R s (snd (eth_BlockNumber N R s))"
| header: "eth_step N R s (snd (eth_HeaderByNumber N R n s))"
| block: "eth_step N R s (snd (eth_BlockByNumber N R n s))"
| tx: "eth_step N R s (snd (eth_TransactionByHash N R h s))"
| receipt: "eth_step N R s (snd (eth_TransactionReceipt N R h s))"
| health: "eth_step N R s (performHealthCheck N R s)"


lemma net_frame_unit: "net_frame N (\<lambda>e. ())" "rpc_frame R (\<lambda>e. ())"
  by (simp_all add: net_frame_def rpc_frame_def)

lemma call_same: "client_same (fst s) (fst (snd (executeWithRetry N (onProvider f) s)))"
proof -
  have "good_step (\<lambda>e. ()) s (snd (executeWithRetry N (onProvider f) s))"
    by (rule call_step [OF net_frame_unit(1) _ prod.collapse [symmetric]]) simp
  then show ?thesis by (simp add: good_step_def)
qed

lemma eth_step_same:
  assumes "eth_step N R s s'"
  shows "client_same (fst s) (fst s')"
proof -

  have health: "client_same (fst s) (fst (performHealthCheck N R s))" for s
    using health_step [OF net_frame_unit, of s N R] by (simp add: good_step_def)
  from assms show ?thesis
    by (cases rule: eth_step.cases)
      (simp_all add: call_same health eth_BlockNumber_def eth_HeaderByNumber_def eth_BlockByNumber_def
        eth_TransactionByHash_def eth_TransactionReceipt_def)
qed

lemma NewEthereumClient_inv:
  assumes "NewEthereumClient N R cfg e = (Inr c, e')"
  shows "client_inv c \<and> ecConfig c = cfg \<and> set (map psURL (ecStatuses c)) \<subseteq> set (evmRPCURLs cfg)"
proof -
  let ?I = "\<lambda>s :: EthereumClient \<times> 'a. list_all breaker_ok (ecStatuses (fst s)) \<and> ecCurrentIndex (fst s) = 0 \<and>
    ecConfig (fst s) = cfg \<and> set (map psURL (ecStatuses (fst s))) \<subseteq> set (evmRPCURLs cfg)"
  have step: "?I (snd (addProvider N R u s))" if "?I s" "u \<in> set (evmRPCURLs cfg)" for u s
    using that by (cases s) (auto simp: addProvider_def breaker_ok_def split: prod.splits option.splits sum.splits)
  have "?I (fold (\<lambda>url s. snd (addProvider N R url s)) us s)" if "?I s" "set us \<subseteq> set (evmRPCURLs cfg)" for us s
    using that
  proof (induction us arbitrary: s)
    case (Cons u us)
    from Cons.IH [OF step [OF Cons.prems(1), of u]] Cons.prems(2) show ?case by simp
  qed simp
  from this [of "(\<lparr>ecConfig = cfg, ecStatuses = [], ecCurrentIndex = 0\<rparr>, e)" "evmRPCURLs cfg"]
  show ?thesis
    using assms by (auto simp: NewEthereumClient_def client_inv_def split: if_splits prod.splits)
qed


text \<open>A client with one provider that answers every request, and a clock that stands still.\<close>

definition still_net :: "nat netio" where
  "still_net = \<lparr>net_do = (\<lambda>_ e. (Inl decode_error, e)), net_urlErr = (\<lambda>_. None), net_wait = (\<lambda>e. (None, e)),
     net_ctxErr = (\<lambda>_. None), net_sleep = (\<lambda>_ e. (False, e)), net_now = (\<lambda>e. (0, e))\<rparr>"

definition demo_rpc :: "nat eth_rpc" where
  "demo_rpc = \<lparr>rp_Dial = (\<lambda>_ e. (None, e)), rp_Close = (\<lambda>_ e. e), rp_BlockNumber = (\<lambda>_ e. (Inr 60, e)),
     rp_HeaderByNumber = (\<lambda>_ _ e. (Inl decode_error, e)), rp_BlockByNumber = (\<lambda>_ _ e. (Inl decode_error, e)),
     rp_TransactionByHash = (\<lambda>_ _ e. (Inl decode_error, e)), rp_TransactionReceipt = (\<lambda>_ _ e. (Inl decode_error, e)),
     rp_BlockTxHashes = (\<lambda>_ _ e. (Inl decode_error, e))\<rparr>"

definition demo_eth_client :: EthereumClient where
  "demo_eth_client = \<lparr>ecConfig = demo_evm, ecStatuses = map (\<lambda>u. \<lparr>psURL = u, psState = CircuitClosed, psFailures = 0,
     psLastFailure = zeroTime, psLastSuccess = 0, psResponseTimes = []\<rparr>) (evmRPCURLs demo_evm), ecCurrentIndex = 0\<rparr>"

lemma demo_eth_new: "NewEthereumClient still_net demo_rpc demo_evm 0 = (Inr demo_eth_client, 0)"
  by (simp add: NewEthereumClient_def demo_evm_def addProvider_def demo_rpc_def still_net_def demo_eth_client_def)


theorem healthy_provider_choice_witness:
  "ecCurrentIndex demo_eth_client < length (ecStatuses demo_eth_client) \<and>
   (\<exists>k. fst (getHealthyProvider still_net (demo_eth_client, 0)) = Inr k)"
proof (rule conjI)
  let ?g = "getHealthyProvider still_net (demo_eth_client, 0)"
  show i: "ecCurrentIndex demo_eth_client < length (ecStatuses demo_eth_client)"
    by (simp add: demo_eth_client_def demo_evm_def)
  have "\<exists>st \<in> set (ecStatuses demo_eth_client). psState st = CircuitClosed"
    by (simp add: demo_eth_client_def demo_evm_def)
  moreover have g: "?g = (fst ?g, (fst (snd ?g), snd (snd ?g)))" by simp
  ultimately show "\<exists>k. fst ?g = Inr k" using healthy_provider_choice [OF i g] by simp
qed

end
