(* ===== verification/Evm_Processor.thy ===== *)
theory Evm_Processor
  imports Evm_Client Tron_Processor
begin

text \<open>
  The block processor of the EVM chains (\<open>internal/blockchain/ethereum/processor.go\<close>). The record
  \<open>EthOps\<close> holds the methods of its client and of the other services it calls, over the state \<open>'w\<close>;
  \<open>E\<close> the functions of go-ethereum it uses (addresses and hashes as text, the ABI, the JSON of a block).
  The goroutines of a batch run one after the other, in the order of the transactions.

  A panic is caught by \<open>ProcessBlock\<close> itself, which then returns \<open>false\<close> and no error; a batch size of
  zero makes its loop endless, which is the result \<open>None\<close> here.
\<close>

section \<open>Data\<close>

record eth_lib =
  el_addrHex :: "address \<Rightarrow> string"
  el_hashHex :: "hash32 \<Rightarrow> string"
  el_IsHexAddress :: "string \<Rightarrow> bool"
  el_HexToAddress :: "string \<Rightarrow> address"
  el_keccak :: "string \<Rightarrow> hash32"
  el_abiJSON :: "error option"
  el_Unpack :: "byte list \<Rightarrow> int option res"
  el_blockMarshal :: "ethBlock \<Rightarrow> string res"
  el_blockUnmarshal :: "string \<Rightarrow> ethBlock res"

definition transferEventSignature :: "eth_lib \<Rightarrow> hash32" where
  "transferEventSignature E = el_keccak E ''Transfer(address,address,uint256)''"

record 'w EthOps =
  eo_BlockNumber :: "'w \<Rightarrow> u64 res \<times> 'w"
  eo_HeaderByNumber :: "int \<Rightarrow> 'w \<Rightarrow> ethHeader res \<times> 'w"
  eo_BlockByNumber :: "int \<Rightarrow> 'w \<Rightarrow> ethBlock res \<times> 'w"
  eo_TransactionReceipt :: "hash32 \<Rightarrow> 'w \<Rightarrow> ethReceipt res \<times> 'w"
  eo_GetBlockVerbose :: "u64 \<Rightarrow> 'w \<Rightarrow> EthBlockVerbose res \<times> 'w"
  eo_NextOmini :: "'w \<Rightarrow> string option \<times> 'w"
  eo_OminiWait :: "string \<Rightarrow> 'w \<Rightarrow> error option \<times> 'w"
  eo_OminiBlock :: "string \<Rightarrow> int \<Rightarrow> 'w \<Rightarrow> ethBlock res \<times> 'w"
  eo_Acquire :: "'w \<Rightarrow> error option \<times> 'w"
  eo_Now :: "'w \<Rightarrow> go_time \<times> 'w"

record EthereumProcessor =
  epConfig :: EVMConfig
  epTokenContracts :: "(address \<times> TokenConfig) list"
  epNativeCurrency :: Currency
  epNetwork :: BlockchainType

fun buildEVMTokenMap ::
  "eth_lib \<Rightarrow> TokenConfig list \<Rightarrow> (address \<times> TokenConfig) list \<Rightarrow> (address \<times> TokenConfig) list res" where
  "buildEVMTokenMap E [] m = Inr m"
| "buildEVMTokenMap E (token # tokens) m =
     (if TrimSpace (tkContract token) = '''' then
        Inl (ErrorString (''token '' @ tkCurrency token @ '' has empty contract''))
      else if TrimSpace (tkCurrency token) = '''' then
        Inl (ErrorString (''token contract '' @ tkContract token @ '' has empty currency''))
      else if \<not> el_IsHexAddress E (tkContract token) then
        Inl (ErrorString (''invalid EVM token contract address '' @ quote_str (tkContract token)))
      else buildEVMTokenMap E tokens ((el_HexToAddress E (tkContract token), token) # m))"

definition NewEthereumProcessor :: "eth_lib \<Rightarrow> EVMConfig \<Rightarrow> EthereumProcessor res" where
  "NewEthereumProcessor E cfg =
     (case el_abiJSON E of
        Some err \<Rightarrow> Inl (Wrap ''failed to parse ERC20 ABI'' err)
      | None \<Rightarrow> (case buildEVMTokenMap E (evmTokens cfg) [] of
          Inl err \<Rightarrow> Inl err
        | Inr tokens \<Rightarrow>
            if evmNetwork cfg = '''' then Inl (ErrorString ''EVM network is required'')
            else if evmNativeCurrency cfg = '''' then
              Inl (ErrorString (''native currency is required for EVM network '' @ evmNetwork cfg))
            else Inr \<lparr>epConfig = cfg, epTokenContracts = tokens, epNativeCurrency = evmNativeCurrency cfg,
                      epNetwork = evmNetwork cfg\<rparr>))"

text \<open>The rotation over the dedicated block providers: their URLs and the next position.\<close>

record OminiState =
  omClients :: "string list"
  omIndex :: nat

definition getNextOminiClient :: "OminiState \<Rightarrow> string option \<times> OminiState" where
  "getNextOminiClient om =
     (if omClients om = [] then (None, om)
      else (Some (omClients om ! omIndex om), om\<lparr>omIndex := (omIndex om + 1) mod length (omClients om)\<rparr>))"

definition ominiURLs :: "EVMConfig \<Rightarrow> string list" where
  "ominiURLs cfg =
     (if evmOminiRPCURLs cfg \<noteq> [] then evmOminiRPCURLs cfg
      else if evmOminiRPCURL cfg \<noteq> '''' then [evmOminiRPCURL cfg] else [])"

text \<open>\<open>InitializeProviders\<close>: the rotating client, then those dedicated providers that can be dialled.\<close>

fun dialOmini :: "'e eth_rpc \<Rightarrow> string list \<Rightarrow> 'e \<Rightarrow> string list \<times> 'e" where
  "dialOmini R [] e = ([], e)"
| "dialOmini R (url # urls) e =
     (case rp_Dial R url e of
        (Some err, e1) \<Rightarrow> dialOmini R urls e1
      | (None, e1) \<Rightarrow> (case dialOmini R urls e1 of (us, e2) \<Rightarrow> (url # us, e2)))"

definition eth_InitializeProviders ::
  "'e netio \<Rightarrow> 'e eth_rpc \<Rightarrow> EthereumProcessor \<Rightarrow> OminiState \<Rightarrow> 'e \<Rightarrow> (EthereumClient \<times> OminiState) res \<times> 'e" where
  "eth_InitializeProviders N R p om e =
     (case NewEthereumClient N R (epConfig p) e of
        (Inl err, e1) \<Rightarrow> (Inl (Wrap (''failed to create '' @ epNetwork p @ '' client'') err), e1)
      | (Inr c, e1) \<Rightarrow>
          if ominiURLs (epConfig p) = [] then (Inr (c, om), e1)
          else (case dialOmini R (ominiURLs (epConfig p)) e1 of (us, e2) \<Rightarrow> (Inr (c, om\<lparr>omClients := us\<rparr>), e2)))"

section \<open>Helpers\<close>

definition getFromAddress :: "eth_lib \<Rightarrow> ethTx \<Rightarrow> string" where
  "getFromAddress E tx = (case etSender tx of None \<Rightarrow> '''' | Some a \<Rightarrow> el_addrHex E a)"

definition formatEther :: "libs \<Rightarrow> int \<Rightarrow> string" where
  "formatEther L wei = lb_decStringFixed L wei (- 18) 18"

definition eth_formatToken :: "libs \<Rightarrow> int \<Rightarrow> int \<Rightarrow> string" where
  "eth_formatToken L amount decimals0 =
     (let decimals = (if decimals0 < 0 then 0 else decimals0) in lb_decStringFixed L amount (- decimals) decimals)"

definition isPlainNativeTransfer :: "ethTx \<Rightarrow> bool" where
  "isPlainNativeTransfer tx \<longleftrightarrow> etTo tx \<noteq> None \<and> etValue tx > 0 \<and> etData tx = []"

definition isDirectTokenTransaction :: "EthereumProcessor \<Rightarrow> ethTx \<Rightarrow> bool" where
  "isDirectTokenTransaction p tx =
     (case etTo tx of
        None \<Rightarrow> False
      | Some a \<Rightarrow> if epTokenContracts p = [] then False else map_of (epTokenContracts p) a \<noteq> None)"

definition networkFee :: "ethTx \<Rightarrow> ethReceipt \<Rightarrow> int" where
  "networkFee tx receipt =
     (let gasPrice = (if etType tx = DynamicFeeTxType \<or> etType tx = BlobTxType
                      then erEffectiveGasPrice receipt else etGasPrice tx)
      in uint (erGasUsed receipt) * (case gasPrice of None \<Rightarrow> 0 | Some g \<Rightarrow> g))"

definition eth_isWatchedWallet ::
  "EthereumProcessor \<Rightarrow> 'w Storage \<Rightarrow> string \<Rightarrow> 'w \<Rightarrow> (string \<times> bool) res \<times> 'w" where
  "eth_isWatchedWallet p S address w = st_IsWatchedWallet S (epNetwork p) (ToLower address) w"

definition getHeaderByNumber :: "'w EthOps \<Rightarrow> u64 \<Rightarrow> 'w \<Rightarrow> ethHeader res \<times> 'w" where
  "getHeaderByNumber cl blockNumber w = eo_HeaderByNumber cl (sint blockNumber) w"

definition BlockToTimestamp :: "'w EthOps \<Rightarrow> u64 \<Rightarrow> 'w \<Rightarrow> go_time \<times> 'w" where
  "BlockToTimestamp cl blockNumber w =
     (case getHeaderByNumber cl blockNumber w of
        (Inl err, w1) \<Rightarrow> eo_Now cl w1
      | (Inr header, w1) \<Rightarrow> (sint (ehTime header) * Second, w1))"

section \<open>Fetching a block\<close>

definition fetchFull ::
  "'w EthOps \<Rightarrow> u64 \<Rightarrow> 'w \<Rightarrow> ethBlock res \<times> 'w" where
  "fetchFull cl blockNumber w =
     (case eo_BlockByNumber cl (sint blockNumber) w of
        (Inr block, w1) \<Rightarrow> (Inr block, w1)
      | (Inl err, w1) \<Rightarrow> (case eo_NextOmini cl w1 of
          (None, w2) \<Rightarrow> (Inl err, w2)
        | (Some url, w2) \<Rightarrow> (case eo_OminiWait cl url w2 of
            (Some limiterErr, w3) \<Rightarrow> (Inl err, w3)
          | (None, w3) \<Rightarrow> eo_OminiBlock cl url (sint blockNumber) w3)))"

definition getBlockTransactions ::
  "eth_lib \<Rightarrow> EthereumProcessor \<Rightarrow> 'w EthOps \<Rightarrow> 'w Storage \<Rightarrow> u64 \<Rightarrow> 'w \<Rightarrow> ethBlock res \<times> 'w" where
  "getBlockTransactions E p cl S blockNumber w =
     (let cacheKey = blockCacheKey (epNetwork p) blockNumber;
          (hit, w1) = (case st_GetCache S cacheKey w of
             (Inl err, w1) \<Rightarrow> (None, w1)
           | (Inr data, w1) \<Rightarrow> (case el_blockUnmarshal E data of Inl err \<Rightarrow> (None, w1) | Inr b \<Rightarrow> (Some b, w1)))
      in case hit of
           Some cached \<Rightarrow> (Inr cached, w1)
         | None \<Rightarrow>
             (case (if evmBlockFetchMode (epConfig p) = ''light'' then
                      (case eo_GetBlockVerbose cl blockNumber w1 of
                         (Inl err, w2) \<Rightarrow> (Inl (Wrap ''failed to get block verbose'' err), w2)
                       | (Inr v, w2) \<Rightarrow> (Inr \<lparr>ebTransactions = evTransactions v\<rparr>, w2))
                    else fetchFull cl blockNumber w1) of
                (Inl err, w2) \<Rightarrow> (Inl err, w2)
              | (Inr block, w2) \<Rightarrow>
                  (case st_SetCache S cacheKey (el_blockMarshal E block) (120 * Second) w2 of
                     (_, w3) \<Rightarrow> (Inr block, w3))))"

section \<open>Transactions\<close>

definition ethDeposit ::
  "libs \<Rightarrow> eth_lib \<Rightarrow> EthereumProcessor \<Rightarrow> u64 \<Rightarrow> ethTx \<Rightarrow> ethReceipt \<Rightarrow> string \<Rightarrow> string \<Rightarrow> string \<Rightarrow> Currency \<Rightarrow>
   string \<Rightarrow> go_time \<Rightarrow> WalletDeposit" where
  "ethDeposit L E p blockNumber tx receipt to' from' amount currency walletID ts = \<lparr>
     dTxHash = el_hashHex E (etHash tx), dWalletID = walletID, dWalletAddress = to', dFromAddress = from',
     dInputs = [], dAmount = amount, dCurrency = currency, dNetwork = epNetwork p, dBlockNumber = blockNumber,
     dConfirmations = 1, dTimestamp = ts, dNetworkFee = formatEther L (networkFee tx receipt),
     dStatus = StatusConfirmed\<rparr>"

definition ethWithdrawal ::
  "libs \<Rightarrow> eth_lib \<Rightarrow> EthereumProcessor \<Rightarrow> u64 \<Rightarrow> ethTx \<Rightarrow> ethReceipt \<Rightarrow> string \<Rightarrow> string \<Rightarrow> string \<Rightarrow> Currency \<Rightarrow>
   string \<Rightarrow> go_time \<Rightarrow> WalletWithdrawal" where
  "ethWithdrawal L E p blockNumber tx receipt from' to' amount currency walletID ts = \<lparr>
     wTxHash = el_hashHex E (etHash tx), wWalletID = walletID, wWalletAddress = from', wToAddress = to',
     wOutputs = [], wAmount = amount, wCurrency = currency, wNetwork = epNetwork p, wBlockNumber = blockNumber,
     wConfirmations = 1, wTimestamp = ts, wNetworkFee = formatEther L (networkFee tx receipt),
     wStatus = StatusConfirmed\<rparr>"

text \<open>Building an event reads the time of the block, then it is published.\<close>

definition ethPublishW ::
  "'w EthOps \<Rightarrow> 'w Publisher option \<Rightarrow> u64 \<Rightarrow> (go_time \<Rightarrow> WalletWithdrawal) \<Rightarrow> 'w \<Rightarrow> error option \<times> 'w" where
  "ethPublishW cl bt blockNumber mk w =
     (case BlockToTimestamp cl blockNumber w of (ts, w1) \<Rightarrow> viaTrackerW bt (mk ts) w1)"

definition ethPublishD ::
  "'w EthOps \<Rightarrow> 'w Publisher option \<Rightarrow> u64 \<Rightarrow> (go_time \<Rightarrow> WalletDeposit) \<Rightarrow> 'w \<Rightarrow> error option \<times> 'w" where
  "ethPublishD cl bt blockNumber mk w =
     (case BlockToTimestamp cl blockNumber w of (ts, w1) \<Rightarrow> viaTrackerD bt (mk ts) w1)"

definition processNativeTransaction ::
  "libs \<Rightarrow> eth_lib \<Rightarrow> EthereumProcessor \<Rightarrow> 'w EthOps \<Rightarrow> 'w Storage \<Rightarrow> 'w Publisher option \<Rightarrow> ethTx \<Rightarrow> u64 \<Rightarrow>
   ethReceipt \<Rightarrow> 'w \<Rightarrow> error option \<times> 'w" where
  "processNativeTransaction L E p cl S bt tx blockNumber receipt w =
     (case etTo tx of
        None \<Rightarrow> (None, w)
      | Some toAddr \<Rightarrow>
          if etValue tx = 0 then (None, w)
          else
            let fromAddr = getFromAddress E tx; to' = el_addrHex E toAddr; amount = formatEther L (etValue tx) in
            (case eth_isWatchedWallet p S fromAddr w of
               (Inl err, w1) \<Rightarrow> (Some (Wrap ''failed to check watched wallet'' err), w1)
             | (Inr (fromWalletID, isFromWatched), w1) \<Rightarrow> (case eth_isWatchedWallet p S to' w1 of
                 (Inl err, w2) \<Rightarrow> (Some (Wrap ''failed to check watched wallet'' err), w2)
               | (Inr (toWalletID, isToWatched), w2) \<Rightarrow>
                   let w3 = (if isFromWatched \<and> \<not> isToWatched then
                               snd (ethPublishW cl bt blockNumber (ethWithdrawal L E p blockNumber tx receipt
                                 fromAddr to' amount (epNativeCurrency p) fromWalletID) w2)
                             else w2)
                   in if \<not> isToWatched then (None, w3)
                      else ethPublishD cl bt blockNumber (ethDeposit L E p blockNumber tx receipt
                             to' fromAddr amount (epNativeCurrency p) toWalletID) w3)))"

text \<open>A log of a receipt: \<open>Some\<close> (token, sender, recipient) where the code goes on to the watch list.\<close>

definition erc20Transfer ::
  "eth_lib \<Rightarrow> EthereumProcessor \<Rightarrow> ethLog \<Rightarrow> (TokenConfig \<times> int option \<times> string \<times> string) option" where
  "erc20Transfer E p lg =
     (case lgTopics lg of
        [] \<Rightarrow> None
      | t0 # _ \<Rightarrow>
          if t0 \<noteq> transferEventSignature E then None
          else (case map_of (epTokenContracts p) (lgAddress lg) of
             None \<Rightarrow> None
           | Some token \<Rightarrow> (case el_Unpack E (lgData lg) of
               Inl err \<Rightarrow> None
             | Inr value \<Rightarrow>
                 if length (lgTopics lg) < 3 then None
                 else Some (token, value,
                   el_addrHex E (el_HexToAddress E (el_hashHex E (lgTopics lg ! 1))),
                   el_addrHex E (el_HexToAddress E (el_hashHex E (lgTopics lg ! 2)))))))"

definition processTokenLog ::
  "libs \<Rightarrow> eth_lib \<Rightarrow> EthereumProcessor \<Rightarrow> 'w EthOps \<Rightarrow> 'w Storage \<Rightarrow> 'w Publisher option \<Rightarrow> ethTx \<Rightarrow> u64 \<Rightarrow>
   ethReceipt \<Rightarrow> ethLog \<Rightarrow> 'w \<Rightarrow> 'w" where
  "processTokenLog L E p cl S bt tx blockNumber receipt lg w =
     (case erc20Transfer E p lg of
        None \<Rightarrow> w
      | Some (token, value, from', to') \<Rightarrow>
          (case eth_isWatchedWallet p S from' w of
             (Inl err, w1) \<Rightarrow> w1
           | (Inr (fromWalletID, isFromWatched), w1) \<Rightarrow> (case eth_isWatchedWallet p S to' w1 of
               (Inl err, w2) \<Rightarrow> w2
             | (Inr (toWalletID, isToWatched), w2) \<Rightarrow>
                 (case value of
                    None \<Rightarrow> w2
                  | Some amount \<Rightarrow>
                      let amountText = eth_formatToken L amount (tkDecimals token);
                          w3 = (if isFromWatched \<and> \<not> isToWatched then
                                  snd (ethPublishW cl bt blockNumber (ethWithdrawal L E p blockNumber tx receipt
                                    from' to' amountText (tkCurrency token) fromWalletID) w2)
                                else w2)
                      in if \<not> isToWatched then w3
                         else snd (ethPublishD cl bt blockNumber (ethDeposit L E p blockNumber tx receipt
                                to' from' amountText (tkCurrency token) toWalletID) w3)))))"

definition processTokenTransaction ::
  "libs \<Rightarrow> eth_lib \<Rightarrow> EthereumProcessor \<Rightarrow> 'w EthOps \<Rightarrow> 'w Storage \<Rightarrow> 'w Publisher option \<Rightarrow> ethTx \<Rightarrow> u64 \<Rightarrow>
   ethReceipt \<Rightarrow> 'w \<Rightarrow> error option \<times> 'w" where
  "processTokenTransaction L E p cl S bt tx blockNumber receipt w =
     (if epTokenContracts p = [] then (None, w)
      else (None, fold (processTokenLog L E p cl S bt tx blockNumber receipt) (erLogs receipt) w))"

record transactionRelevance =
  relNative :: bool
  relToken :: bool

definition relevanceOf ::
  "eth_lib \<Rightarrow> EthereumProcessor \<Rightarrow> 'w Storage \<Rightarrow> ethTx \<Rightarrow> 'w \<Rightarrow> transactionRelevance res \<times> 'w" where
  "relevanceOf E p S tx w =
     (let token = isDirectTokenTransaction p tx in
      if evmSkipNative (epConfig p) \<or> \<not> isPlainNativeTransfer tx
      then (Inr \<lparr>relNative = False, relToken = token\<rparr>, w)
      else
        let fromAddr = getFromAddress E tx;
            (r1, w1) = (if fromAddr \<noteq> '''' then eth_isWatchedWallet p S fromAddr w else (Inr ('''', False), w))
        in (case r1 of
              Inl err \<Rightarrow> (Inl (Wrap ''failed to check watched sender'' err), w1)
            | Inr (_, isFromWatched) \<Rightarrow>
                if isFromWatched then (Inr \<lparr>relNative = True, relToken = token\<rparr>, w1)
                else (case eth_isWatchedWallet p S (el_addrHex E (the (etTo tx))) w1 of
                   (Inl err, w2) \<Rightarrow> (Inl (Wrap ''failed to check watched recipient'' err), w2)
                 | (Inr (_, isToWatched), w2) \<Rightarrow> (Inr \<lparr>relNative = isToWatched, relToken = token\<rparr>, w2))))"

definition supportedType :: "ethTx \<Rightarrow> bool" where
  "supportedType tx \<longleftrightarrow> etType tx \<in> {LegacyTxType, AccessListTxType, DynamicFeeTxType, BlobTxType}"

definition eth_processTransaction ::
  "libs \<Rightarrow> eth_lib \<Rightarrow> EthereumProcessor \<Rightarrow> 'w EthOps \<Rightarrow> 'w Storage \<Rightarrow> 'w Publisher option \<Rightarrow> ethTx \<Rightarrow> u64 \<Rightarrow>
   'w \<Rightarrow> error option \<times> 'w" where
  "eth_processTransaction L E p cl S bt tx blockNumber w =
     (if \<not> supportedType tx then (None, w)
      else (case relevanceOf E p S tx w of
         (Inl err, w1) \<Rightarrow> (Some (Wrap ''failed to check transaction relevance'' err), w1)
       | (Inr relevance, w1) \<Rightarrow>
           if \<not> relNative relevance \<and> \<not> relToken relevance then (None, w1)
           else (case eo_TransactionReceipt cl (etHash tx) w1 of
              (Inl err, w2) \<Rightarrow> (Some (Wrap ''failed to get transaction receipt'' err), w2)
            | (Inr receipt, w2) \<Rightarrow>
                if erStatus receipt = 0 then (None, w2)
                else
                  let w3 = (if relNative relevance
                            then snd (processNativeTransaction L E p cl S bt tx blockNumber receipt w2) else w2);
                      w4 = (if relToken relevance
                            then snd (processTokenTransaction L E p cl S bt tx blockNumber receipt w3) else w3)
                  in (None, w4))))"

section \<open>Batches and blocks\<close>

text \<open>One batch; the result is the first error of the semaphore, after every transaction had its turn.\<close>

fun processBatch ::
  "libs \<Rightarrow> eth_lib \<Rightarrow> EthereumProcessor \<Rightarrow> 'w EthOps \<Rightarrow> 'w Storage \<Rightarrow> 'w Publisher option \<Rightarrow> u64 \<Rightarrow> string list \<Rightarrow>
   ethTx list \<Rightarrow> 'w \<Rightarrow> error option \<times> 'w" where
  "processBatch L E p cl S bt blockNumber doneTxs [] w = (None, w)"
| "processBatch L E p cl S bt blockNumber doneTxs (tx # txs) w =
     (if el_hashHex E (etHash tx) \<in> set doneTxs
      then processBatch L E p cl S bt blockNumber doneTxs txs w
      else (case eo_Acquire cl w of
         (Some err, w1) \<Rightarrow> (Some err, snd (processBatch L E p cl S bt blockNumber doneTxs txs w1))
       | (None, w1) \<Rightarrow>
           let w2 = snd (eth_processTransaction L E p cl S bt tx blockNumber w1);
               w3 = snd (st_AddProcessedTransaction S (epNetwork p) blockNumber (el_hashHex E (etHash tx)) w2)
           in processBatch L E p cl S bt blockNumber doneTxs txs w3))"

text \<open>
  The loop over batches of the positive size \<open>Suc k\<close>, from position \<open>i\<close> on. An endless loop and a slice
  out of range (the two other signs of the batch size) are the cases of \<open>batchesOf\<close>.
\<close>

function processBatches ::
  "libs \<Rightarrow> eth_lib \<Rightarrow> EthereumProcessor \<Rightarrow> 'w EthOps \<Rightarrow> 'w Storage \<Rightarrow> 'w Publisher option \<Rightarrow> u64 \<Rightarrow> string list \<Rightarrow>
   nat \<Rightarrow> nat \<Rightarrow> ethTx list \<Rightarrow> 'w \<Rightarrow> error option \<times> 'w" where
  "processBatches L E p cl S bt blockNumber doneTxs k i transactions w =
     (if i < length transactions then
        let end' = (if i + Suc k > length transactions then length transactions else i + Suc k) in
        (case processBatch L E p cl S bt blockNumber doneTxs (take (end' - i) (drop i transactions)) w of
           (Some err, w1) \<Rightarrow>
             (Some (Wrap (''failed to process batch '' @ dec i @ ''-'' @ dec (end' - 1)) err), w1)
         | (None, w1) \<Rightarrow> processBatches L E p cl S bt blockNumber doneTxs k (i + Suc k) transactions w1)
      else (None, w))"
  by pat_completeness auto
termination
  by (relation "measure (\<lambda>(L, E, p, cl, S, bt, b, d, k, i, txs, w). length txs - i)") auto

declare processBatches.simps [simp del]

datatype batching = Endless | Panics | Sized nat

definition batchesOf :: "int \<Rightarrow> ethTx list \<Rightarrow> batching" where
  "batchesOf batchSize txs =
     (if txs = [] then Sized 0 else if batchSize = 0 then Endless else if batchSize < 0 then Panics
      else Sized (nat batchSize - 1))"

definition eth_ProcessBlock ::
  "libs \<Rightarrow> eth_lib \<Rightarrow> EthereumProcessor \<Rightarrow> 'w EthOps \<Rightarrow> 'w Storage \<Rightarrow> 'w Publisher option \<Rightarrow> u64 \<Rightarrow> 'w state \<Rightarrow>
   (bool res \<times> 'w state) option" where
  "eth_ProcessBlock L E p cl S bt blockNumber s = (case s of (t, w) \<Rightarrow>
     (case getBlockTransactions E p cl S blockNumber w of
        (Inl err, w1) \<Rightarrow>
          Some (if typeNotSupported err then (Inr True, (t, w1))
                else (Inl (Wrap (''failed to get block '' @ FormatUint blockNumber) err), (t, w1)))
      | (Inr block, w1) \<Rightarrow> (case st_GetProcessedTransactions S (epNetwork p) blockNumber w1 of
          (Inl err, w2) \<Rightarrow> Some (Inl (Wrap ''failed to get processed transactions'' err), (t, w2))
        | (Inr doneTxs, w2) \<Rightarrow>
            (case batchesOf (evmBatchSize (epConfig p)) (ebTransactions block) of
               Endless \<Rightarrow> None
             | Panics \<Rightarrow> Some (Inr False, (t, w2))
             | Sized k \<Rightarrow>
                 (case processBatches L E p cl S bt blockNumber doneTxs k 0 (ebTransactions block) w2 of
                    (Some err, w3) \<Rightarrow> Some (Inl err, (t, w3))
                  | (None, w3) \<Rightarrow>
                      let w4 = snd (st_ClearBlockProgress S (epNetwork p) blockNumber w3);
                          t1 = (if bt \<noteq> None then IncrementTxCount (of_nat (length (ebTransactions block))) t else t)
                      in Some (Inr True, (t1, w4)))))))"

section \<open>Specification\<close>

text \<open>
  The events a block should give, as a function of the watch list, the block and the receipts \<open>rc\<close>. The
  watch list is asked for addresses in lower case. Times are left out (they are read when an event is built).
\<close>

definition ethPairEvents ::
  "libs \<Rightarrow> eth_lib \<Rightarrow> EthereumProcessor \<Rightarrow> u64 \<Rightarrow> ethTx \<Rightarrow> ethReceipt \<Rightarrow> string \<Rightarrow> string \<Rightarrow> string \<Rightarrow> Currency \<Rightarrow>
   (string \<rightharpoonup> string) \<Rightarrow> payload list" where
  "ethPairEvents L E p b tx receipt from' to' amount currency =
     pairEvents (\<lambda>i. ethDeposit L E p b tx receipt to' from' amount currency i 0)
       (\<lambda>i. ethWithdrawal L E p b tx receipt from' to' amount currency i 0) (ToLower from') (ToLower to')"

text \<open>A plain transfer of the native currency; an unreadable sender counts as not watched.\<close>

definition ethNativeEvents ::
  "libs \<Rightarrow> eth_lib \<Rightarrow> EthereumProcessor \<Rightarrow> u64 \<Rightarrow> ethTx \<Rightarrow> ethReceipt \<Rightarrow> (string \<rightharpoonup> string) \<Rightarrow> payload list" where
  "ethNativeEvents L E p b tx receipt watch =
     (case etTo tx of
        None \<Rightarrow> []
      | Some a \<Rightarrow>
          if evmSkipNative (epConfig p) \<or> \<not> isPlainNativeTransfer tx \<or>
             getFromAddress E tx = '''' \<and> watch (ToLower (el_addrHex E a)) = None
          then []
          else ethPairEvents L E p b tx receipt (getFromAddress E tx) (el_addrHex E a)
                 (formatEther L (etValue tx)) (epNativeCurrency p) watch)"

definition ethLogEvents ::
  "libs \<Rightarrow> eth_lib \<Rightarrow> EthereumProcessor \<Rightarrow> u64 \<Rightarrow> ethTx \<Rightarrow> ethReceipt \<Rightarrow> ethLog \<Rightarrow> (string \<rightharpoonup> string) \<Rightarrow> payload list" where
  "ethLogEvents L E p b tx receipt lg watch =
     (case erc20Transfer E p lg of
        Some (token, Some amount, from', to') \<Rightarrow>
          ethPairEvents L E p b tx receipt from' to' (eth_formatToken L amount (tkDecimals token))
            (tkCurrency token) watch
      | _ \<Rightarrow> [])"

definition ethTxEvents ::
  "libs \<Rightarrow> eth_lib \<Rightarrow> EthereumProcessor \<Rightarrow> u64 \<Rightarrow> (hash32 \<Rightarrow> ethReceipt) \<Rightarrow> ethTx \<Rightarrow> (string \<rightharpoonup> string) \<Rightarrow> payload list" where
  "ethTxEvents L E p b rc tx watch =
     (let receipt = rc (etHash tx) in
      if \<not> supportedType tx \<or> erStatus receipt = 0 then []
      else ethNativeEvents L E p b tx receipt watch @
        (if isDirectTokenTransaction p tx
         then concat (map (\<lambda>lg. ethLogEvents L E p b tx receipt lg watch) (erLogs receipt)) else []))"

definition ethEvents ::
  "libs \<Rightarrow> eth_lib \<Rightarrow> EthereumProcessor \<Rightarrow> u64 \<Rightarrow> (hash32 \<Rightarrow> ethReceipt) \<Rightarrow> string list \<Rightarrow> ethTx list \<Rightarrow>
   (string \<rightharpoonup> string) \<Rightarrow> payload list" where
  "ethEvents L E p b rc doneTxs txs watch =
     concat (map (\<lambda>tx. ethTxEvents L E p b rc tx watch) (filter (\<lambda>tx. el_hashHex E (etHash tx) \<notin> set doneTxs) txs))"

section \<open>The processor follows its specification\<close>

text \<open>
  The calls of the client leave the storage, the watch list and the publisher alone, and the receipt of a
  transaction is the same whenever it is returned.
\<close>

definition eth_ops_silent :: "('w, 'v) event_view \<Rightarrow> 'w EthOps \<Rightarrow> bool" where
  "eth_ops_silent V cl \<longleftrightarrow> (\<forall>w. ev_winv V w \<longrightarrow>
     silent V w (snd (eo_BlockNumber cl w)) \<and> (\<forall>n. silent V w (snd (eo_HeaderByNumber cl n w))) \<and>
     (\<forall>n. silent V w (snd (eo_BlockByNumber cl n w))) \<and> (\<forall>h. silent V w (snd (eo_TransactionReceipt cl h w))) \<and>
     (\<forall>b. silent V w (snd (eo_GetBlockVerbose cl b w))) \<and> silent V w (snd (eo_NextOmini cl w)) \<and>
     (\<forall>u. silent V w (snd (eo_OminiWait cl u w))) \<and> (\<forall>u n. silent V w (snd (eo_OminiBlock cl u n w))) \<and>
     silent V w (snd (eo_Acquire cl w)) \<and> silent V w (snd (eo_Now cl w)))"

definition eth_receipts :: "('w, 'v) event_view \<Rightarrow> 'w EthOps \<Rightarrow> (hash32 \<Rightarrow> ethReceipt) \<Rightarrow> bool" where
  "eth_receipts V cl rc \<longleftrightarrow>
     (\<forall>w h r w'. ev_winv V w \<longrightarrow> eo_TransactionReceipt cl h w = (Inr r, w') \<longrightarrow> r = rc h)"

text \<open>Nothing fails: every receipt is returned, the semaphore admits, the times can be written as JSON.\<close>

definition eth_answers :: "('w, 'v) event_view \<Rightarrow> 'w EthOps \<Rightarrow> u64 \<Rightarrow> bool" where
  "eth_answers V cl b \<longleftrightarrow> (\<forall>w. ev_winv V w \<longrightarrow>
     (\<forall>h. \<exists>r. fst (eo_TransactionReceipt cl h w) = Inr r) \<and> fst (eo_Acquire cl w) = None \<and>
     time_marshals (fst (BlockToTimestamp cl b w)))"

lemma eth_ops_silentD:
  assumes "eth_ops_silent V cl" "ev_winv V w"
  shows "eo_HeaderByNumber cl n w = (hd', w') \<Longrightarrow> silent V w w'"
    "eo_BlockByNumber cl n w = (bk, w') \<Longrightarrow> silent V w w'"
    "eo_TransactionReceipt cl h w = (rr, w') \<Longrightarrow> silent V w w'"
    "eo_GetBlockVerbose cl b w = (vb, w') \<Longrightarrow> silent V w w'"
    "eo_NextOmini cl w = (om, w') \<Longrightarrow> silent V w w'"
    "eo_OminiWait cl u w = (er, w') \<Longrightarrow> silent V w w'"
    "eo_OminiBlock cl u n w = (bk, w') \<Longrightarrow> silent V w w'"
    "eo_Acquire cl w = (er, w') \<Longrightarrow> silent V w w'"
    "eo_Now cl w = (tm, w') \<Longrightarrow> silent V w w'"
  using assms unfolding eth_ops_silent_def by (metis snd_conv)+

lemma BlockToTimestamp_silent:
  assumes "eth_ops_silent V cl" "ev_winv V w" "BlockToTimestamp cl b w = (ts, w')"
  shows "silent V w w'"
proof -
  obtain r w1 where h: "eo_HeaderByNumber cl (sint b) w = (r, w1)" by (cases "eo_HeaderByNumber cl (sint b) w")
  note s1 = eth_ops_silentD(1) [OF assms(1,2) h]
  show ?thesis
  proof (cases r)
    case (Inl err)
    then have "eo_Now cl w1 = (ts, w')" using assms(3) h by (simp add: BlockToTimestamp_def getHeaderByNumber_def)
    from silent_then [OF s1 eth_ops_silentD(9) [OF assms(1) emits_winv [OF s1] this]] show ?thesis .
  next
    case (Inr a)
    then show ?thesis using assms(3) h s1 by (simp add: BlockToTimestamp_def getHeaderByNumber_def)
  qed
qed

lemma fetchFull_silent:
  assumes "eth_ops_silent V cl" "ev_winv V w" "fetchFull cl b w = (r, w')"
  shows "silent V w w'"
proof -
  note D = eth_ops_silentD [OF assms(1)]
  obtain r1 w1 where b: "eo_BlockByNumber cl (sint b) w = (r1, w1)" by (cases "eo_BlockByNumber cl (sint b) w")
  note s1 = D(2) [OF assms(2) b]
  obtain r2 w2 where o: "eo_NextOmini cl w1 = (r2, w2)" by (cases "eo_NextOmini cl w1")
  note s2 = silent_then [OF s1 D(5) [OF emits_winv [OF s1] o]]
  have s4: "silent V w w4" if "eo_OminiWait cl url w2 = (r3, w3)" "w4 = w3 \<or> eo_OminiBlock cl url (sint b) w3 = (r4, w4)"
    for url r3 w3 r4 w4
    using silent_then [OF s2 D(6) [OF emits_winv [OF s2] that(1)]] that(2) D(7) emits_winv silent_then by metis
  from assms(3) b o s1 s2 show ?thesis
    by (auto simp: fetchFull_def split: sum.splits option.splits prod.splits intro: s4)
qed

lemma untimed_eth [simp]:
  "ethDeposit L E p b tx rc to' from' a c i ts\<lparr>dTimestamp := t\<rparr> = ethDeposit L E p b tx rc to' from' a c i t"
  "ethWithdrawal L E p b tx rc from' to' a c i ts\<lparr>wTimestamp := t\<rparr> = ethWithdrawal L E p b tx rc from' to' a c i t"
  by (simp_all add: ethDeposit_def ethWithdrawal_def)

context event_env
begin

definition nativeRelevant :: "eth_lib \<Rightarrow> EthereumProcessor \<Rightarrow> ethTx \<Rightarrow> (string \<rightharpoonup> string) \<Rightarrow> bool" where
  "nativeRelevant E p tx watch \<longleftrightarrow> \<not> evmSkipNative (epConfig p) \<and> isPlainNativeTransfer tx \<and>
     (getFromAddress E tx \<noteq> '''' \<and> watch (ToLower (getFromAddress E tx)) \<noteq> None \<or>
      watch (ToLower (el_addrHex E (the (etTo tx)))) \<noteq> None)"

lemma ethNativeEvents_irrelevant:
  "\<not> nativeRelevant E p tx watch \<Longrightarrow> ethNativeEvents L E p b tx r watch = []"
  by (auto simp: nativeRelevant_def ethNativeEvents_def ethPairEvents_def pairEvents_def split: option.splits)

lemma ethNativeEvents_relevant:
  "nativeRelevant E p tx watch \<Longrightarrow> etTo tx = Some a \<Longrightarrow> ethNativeEvents L E p b tx r watch =
     ethPairEvents L E p b tx r (getFromAddress E tx) (el_addrHex E a) (formatEther L (etValue tx)) (epNativeCurrency p) watch"
  by (auto simp: nativeRelevant_def ethNativeEvents_def)

lemma ethEvents_Cons:
  "ethEvents L E p b rc doneTxs (tx # txs) m =
     (if el_hashHex E (etHash tx) \<in> set doneTxs then [] else ethTxEvents L E p b rc tx m) @ ethEvents L E p b rc doneTxs txs m"
  by (simp add: ethEvents_def)

lemma ethEvents_append:
  "ethEvents L E p b rc doneTxs (xs @ ys) m = ethEvents L E p b rc doneTxs xs m @ ethEvents L E p b rc doneTxs ys m"
  by (simp add: ethEvents_def)

lemma ethPublishD_followsU:
  assumes "eth_ops_silent V cl" "ev_winv V w"
  shows "followsU V (ev_healthy V \<and> eth_answers V cl b) (\<lambda>m. [PDeposit (ethDeposit L E p b tx r to' from' a cur i 0)]) w
    (snd (ethPublishD cl (Some pub) b (ethDeposit L E p b tx r to' from' a cur i) w))"
proof -
  obtain ts w1 where t: "BlockToTimestamp cl b w = (ts, w1)" by (cases "BlockToTimestamp cl b w")
  note s1 = BlockToTimestamp_silent [OF assms t]
  let ?d = "ethDeposit L E p b tx r to' from' a cur i ts"
  obtain x w' where d: "bt_PublishDeposit pub ?d w1 = (x, w')" by (cases "bt_PublishDeposit pub ?d w1")
  have ok: "payload_ok (PDeposit ?d)" if "eth_answers V cl b"
    using that assms(2) t unfolding eth_answers_def payload_ok_def by (auto simp: ethDeposit_def dest!: spec [of _ w])
  have "followsU V (ev_healthy V \<and> eth_answers V cl b) (\<lambda>m. [PDeposit (ethDeposit L E p b tx r to' from' a cur i 0)]) w w'"
    by (rule followsUI [OF s1 bt_deposit_emits [OF emits_winv [OF s1] d]])
      (use ok bt_deposit_ok [OF emits_winv [OF s1] _ _ d] in auto)
  with t d show ?thesis by (simp add: ethPublishD_def viaTrackerD_def)
qed

lemma ethPublishW_followsU:
  assumes "eth_ops_silent V cl" "ev_winv V w"
  shows "followsU V (ev_healthy V \<and> eth_answers V cl b)
    (\<lambda>m. [PWithdrawal (ethWithdrawal L E p b tx r from' to' a cur i 0)]) w
    (snd (ethPublishW cl (Some pub) b (ethWithdrawal L E p b tx r from' to' a cur i) w))"
proof -
  obtain ts w1 where t: "BlockToTimestamp cl b w = (ts, w1)" by (cases "BlockToTimestamp cl b w")
  note s1 = BlockToTimestamp_silent [OF assms t]
  let ?d = "ethWithdrawal L E p b tx r from' to' a cur i ts"
  obtain x w' where d: "bt_PublishWithdrawal pub ?d w1 = (x, w')" by (cases "bt_PublishWithdrawal pub ?d w1")
  have ok: "payload_ok (PWithdrawal ?d)" if "eth_answers V cl b"
    using that assms(2) t unfolding eth_answers_def payload_ok_def by (auto simp: ethWithdrawal_def dest!: spec [of _ w])
  have "followsU V (ev_healthy V \<and> eth_answers V cl b)
      (\<lambda>m. [PWithdrawal (ethWithdrawal L E p b tx r from' to' a cur i 0)]) w w'"
    by (rule followsUI [OF s1 bt_withdrawal_emits [OF emits_winv [OF s1] d]])
      (use ok bt_withdrawal_ok [OF emits_winv [OF s1] _ _ d] in auto)
  with t d show ?thesis by (simp add: ethPublishW_def viaTrackerW_def)
qed

lemma eth_pair_followsU:
  assumes "eth_ops_silent V cl" "ev_winv V w"
  shows "followsU V (ev_healthy V \<and> eth_answers V cl b) (ethPairEvents L E p b tx r from' to' a cur) w
    (pairStep (\<lambda>i w. snd (ethPublishD cl (Some pub) b (ethDeposit L E p b tx r to' from' a cur i) w))
       (\<lambda>i w. snd (ethPublishW cl (Some pub) b (ethWithdrawal L E p b tx r from' to' a cur i) w))
       (ToLower from') (ToLower to') w)"
  unfolding ethPairEvents_def
  by (rule pairStep_followsU [OF assms(2)])
    (use ethPublishD_followsU [OF assms(1)] ethPublishW_followsU [OF assms(1)] in simp_all)

lemma nothing_followsU: "ev_winv V w \<Longrightarrow> followsU V c (\<lambda>m. []) w w"
  by (rule followsU_silent) (rule emits_refl)

lemma native_followsU:
  assumes "eth_ops_silent V cl" "ev_winv V w" "epNetwork p = network" "etTo tx = Some a" "etValue tx \<noteq> 0"
  shows "followsU V (ev_healthy V \<and> eth_answers V cl b) (ethPairEvents L E p b tx r (getFromAddress E tx)
      (el_addrHex E a) (formatEther L (etValue tx)) (epNativeCurrency p)) w
    (snd (processNativeTransaction L E p cl S (Some pub) tx b r w))"
proof -
  have "snd (processNativeTransaction L E p cl S (Some pub) tx b r w) =
    pairStep (\<lambda>i w. snd (ethPublishD cl (Some pub) b (ethDeposit L E p b tx r (el_addrHex E a) (getFromAddress E tx)
         (formatEther L (etValue tx)) (epNativeCurrency p) i) w))
       (\<lambda>i w. snd (ethPublishW cl (Some pub) b (ethWithdrawal L E p b tx r (getFromAddress E tx) (el_addrHex E a)
         (formatEther L (etValue tx)) (epNativeCurrency p) i) w))
       (ToLower (getFromAddress E tx)) (ToLower (el_addrHex E a)) w"
    using assms(3-5)
    by (simp add: processNativeTransaction_def pairStep_def eth_isWatchedWallet_def Let_def split: prod.splits sum.splits)
  with eth_pair_followsU [OF assms(1,2)] show ?thesis by simp
qed

lemma tokenLog_followsU:
  assumes "eth_ops_silent V cl" "ev_winv V w" "epNetwork p = network"
  shows "followsU V (ev_healthy V \<and> eth_answers V cl b) (ethLogEvents L E p b tx r lg) w
    (processTokenLog L E p cl S (Some pub) tx b r lg w)"
proof (cases "erc20Transfer E p lg")
  case None
  with nothing_followsU [OF assms(2)] show ?thesis by (simp add: ethLogEvents_def [abs_def] processTokenLog_def)
next
  case (Some q)
  obtain token v from' to' where q: "q = (token, v, from', to')" by (cases q)
  show ?thesis
  proof (cases v)
    case v: None
    have "processTokenLog L E p cl S (Some pub) tx b r lg w = pairStep (\<lambda>i w. w) (\<lambda>i w. w) (ToLower from') (ToLower to') w"
      using assms(3) Some q v
      by (auto simp: processTokenLog_def pairStep_def eth_isWatchedWallet_def split: prod.splits sum.splits)
    moreover have "silent V w (pairStep (\<lambda>i w. w) (\<lambda>i w. w) (ToLower from') (ToLower to') w)"
      using assms(2)
      by (cases rule: pairStep_cases [where pd = "\<lambda>i w. w" and pw = "\<lambda>i w. w" and from' = "ToLower from'"
            and to' = "ToLower to'"]) simp_all
    ultimately show ?thesis using Some q v by (simp add: ethLogEvents_def [abs_def] followsU_silent)
  next
    case v: (Some amount)
    have "processTokenLog L E p cl S (Some pub) tx b r lg w =
      pairStep (\<lambda>i w. snd (ethPublishD cl (Some pub) b (ethDeposit L E p b tx r to' from'
           (eth_formatToken L amount (tkDecimals token)) (tkCurrency token) i) w))
         (\<lambda>i w. snd (ethPublishW cl (Some pub) b (ethWithdrawal L E p b tx r from' to'
           (eth_formatToken L amount (tkDecimals token)) (tkCurrency token) i) w))
         (ToLower from') (ToLower to') w"
      using assms(3) Some q v
      by (simp add: processTokenLog_def pairStep_def eth_isWatchedWallet_def Let_def split: prod.splits sum.splits)
    with eth_pair_followsU [OF assms(1,2)] Some q v show ?thesis by (simp add: ethLogEvents_def [abs_def])
  qed
qed

lemma tokens_followU:
  assumes "eth_ops_silent V cl" "ev_winv V w" "epNetwork p = network" "isDirectTokenTransaction p tx"
  shows "followsU V (ev_healthy V \<and> eth_answers V cl b)
    (\<lambda>m. concat (map (\<lambda>lg. ethLogEvents L E p b tx r lg m) (erLogs r))) w
    (snd (processTokenTransaction L E p cl S (Some pub) tx b r w))"
proof -
  have "epTokenContracts p \<noteq> []"
    using assms(4) by (auto simp: isDirectTokenTransaction_def split: option.splits if_splits)
  with followsU_fold [OF tokenLog_followsU [OF assms(1) _ assms(3)] assms(2)] show ?thesis
    by (simp add: processTokenTransaction_def)
qed

text \<open>Relevance asks the watch list only; what it answers where the answers are exact.\<close>

lemma relevanceOf_facts:
  assumes "ev_winv V w" "epNetwork p = network" "relevanceOf E p S tx w = (r, w')"
  shows "silent V w w'" "ev_sinv V w \<Longrightarrow> ev_healthy V \<Longrightarrow> \<exists>rel. r = Inr rel"
    "r = Inr rel \<Longrightarrow> relToken rel = isDirectTokenTransaction p tx"
    "r = Inr rel \<Longrightarrow> relNative rel \<Longrightarrow> isPlainNativeTransfer tx"
    "r = Inr rel \<Longrightarrow> ev_sinv V w \<Longrightarrow> relNative rel = nativeRelevant E p tx (ev_watched V w)"
proof -
  let ?skip = "evmSkipNative (epConfig p) \<or> \<not> isPlainNativeTransfer tx"
  let ?from = "getFromAddress E tx" and ?to = "el_addrHex E (the (etTo tx))"
  let ?g = "silent V w w' \<and> (ev_sinv V w \<longrightarrow> ev_healthy V \<longrightarrow> (\<exists>rel. r = Inr rel)) \<and>
    (\<forall>rel. r = Inr rel \<longrightarrow> relToken rel = isDirectTokenTransaction p tx \<and>
       (relNative rel \<longrightarrow> isPlainNativeTransfer tx) \<and>
       (ev_sinv V w \<longrightarrow> relNative rel = nativeRelevant E p tx (ev_watched V w)))"
  have ?g
  proof (cases ?skip)
    case True
    then show ?g using assms emits_refl [OF assms(1)] by (auto simp: relevanceOf_def nativeRelevant_def Let_def)
  next
    case plain: False
    let ?l1 = "if ?from \<noteq> '''' then eth_isWatchedWallet p S ?from w else (Inr ('''', False), w)"
    obtain r1 w1 where l1: "?l1 = (r1, w1)" by (cases ?l1)
    have s1: "silent V w w1"
      using l1 lookup_silent [OF assms(1)] emits_refl [OF assms(1)] assms(2)
      by (auto simp: eth_isWatchedWallet_def split: if_splits)
    have h1: "ev_sinv V w \<Longrightarrow> ev_healthy V \<Longrightarrow> \<exists>v. r1 = Inr v"
      using l1 lookup_healthy [OF assms(1)] assms(2) by (auto simp: eth_isWatchedWallet_def split: if_splits)
    have v1: "snd v \<longleftrightarrow> ?from \<noteq> '''' \<and> ev_watched V w (ToLower ?from) \<noteq> None" if "r1 = Inr v" "ev_sinv V w" for v
      using l1 that lookup_val [OF assms(1) that(2), of "ToLower ?from" v w1] assms(2)
      by (cases "ev_watched V w (ToLower ?from)")
        (auto simp: eth_isWatchedWallet_def wallet_of_def split: if_splits)
    show ?g
    proof (cases r1)
      case (Inl err)
      then show ?g using plain l1 assms(3) s1 h1 by (auto simp: relevanceOf_def Let_def)
    next
      case (Inr v)
      obtain x fw where v: "v = (x, fw)" by (cases v)
      show ?g
      proof (cases fw)
        case True
        then show ?g using plain l1 Inr v assms(3) s1 v1 [OF Inr] by (auto simp: relevanceOf_def Let_def nativeRelevant_def)
      next
        case False
        obtain r2 w2 where l2: "st_IsWatchedWallet S network (ToLower ?to) w1 = (r2, w2)"
          by (cases "st_IsWatchedWallet S network (ToLower ?to) w1")
        have e: "(r, w') = (case r2 of Inl err \<Rightarrow> (Inl (Wrap ''failed to check watched recipient'' err), w2)
            | Inr (y, tw) \<Rightarrow> (Inr \<lparr>relNative = tw, relToken = isDirectTokenTransaction p tx\<rparr>, w2))"
          using plain l1 Inr v False assms(2,3) l2
          by (auto simp: relevanceOf_def Let_def eth_isWatchedWallet_def split: sum.splits)
        note w1 = emits_winv [OF s1]
        note s2 = silent_then [OF s1 lookup_silent [OF w1 l2]]
        have i1: "ev_sinv V w1 \<and> ev_watched V w1 = ev_watched V w" if "ev_sinv V w"
          using emits_watched [OF s1 that] .
        have "\<exists>u. r2 = Inr u" if "ev_sinv V w" "ev_healthy V"
          using lookup_healthy [OF w1 _ that(2) l2] i1 [OF that(1)] by blast
        moreover have "u = wallet_of (ev_watched V w) (ToLower ?to)" if "ev_sinv V w" "r2 = Inr u" for u
          using lookup_val [OF w1, of "ToLower ?to" u w2] l2 that i1 [OF that(1)] by simp
        moreover have "tw \<longleftrightarrow> nativeRelevant E p tx (ev_watched V w)" if "ev_sinv V w" "r2 = Inr (y, tw)" for y tw
          using calculation(2) [OF that] v1 [OF Inr that(1)] v False plain
          by (cases "ev_watched V w (ToLower ?to)") (auto simp: nativeRelevant_def wallet_of_def)
        ultimately show ?g using e s2 plain by (cases r2) (auto split: prod.splits)
      qed
    qed
  qed
  then show "silent V w w'" "ev_sinv V w \<Longrightarrow> ev_healthy V \<Longrightarrow> \<exists>rel. r = Inr rel"
    "r = Inr rel \<Longrightarrow> relToken rel = isDirectTokenTransaction p tx"
    "r = Inr rel \<Longrightarrow> relNative rel \<Longrightarrow> isPlainNativeTransfer tx"
    "r = Inr rel \<Longrightarrow> ev_sinv V w \<Longrightarrow> relNative rel = nativeRelevant E p tx (ev_watched V w)" by blast+
qed

lemma eth_transaction_followsU:
  assumes cl: "eth_ops_silent V cl" and w: "ev_winv V w" and n: "epNetwork p = network" and rc: "eth_receipts V cl rc"
  shows "followsU V (ev_healthy V \<and> eth_answers V cl b) (ethTxEvents L E p b rc tx) w
    (snd (eth_processTransaction L E p cl S (Some pub) tx b w))"
proof (cases "supportedType tx")
  case False
  with nothing_followsU [OF w] show ?thesis by (simp add: ethTxEvents_def [abs_def] eth_processTransaction_def)
next
  case ty: True
  let ?c = "ev_healthy V \<and> eth_answers V cl b" and ?r = "rc (etHash tx)"
  let ?tok = "\<lambda>m. if isDirectTokenTransaction p tx
    then concat (map (\<lambda>lg. ethLogEvents L E p b tx ?r lg m) (erLogs ?r)) else []"
  have ev: "ethTxEvents L E p b rc tx = (\<lambda>m. if erStatus ?r = 0 then [] else ethNativeEvents L E p b tx ?r m @ ?tok m)"
    using ty by (auto simp: ethTxEvents_def Let_def fun_eq_iff)
  obtain r1 w1 where rel: "relevanceOf E p S tx w = (r1, w1)" by (cases "relevanceOf E p S tx w")
  note R = relevanceOf_facts [OF w n rel]
  note w1 = emits_winv [OF R(1)]
  show ?thesis
  proof (cases r1)
    case (Inl err)
    then show ?thesis using ty rel R(2) by (intro followsU_stuck) (auto simp: eth_processTransaction_def R(1))
  next
    case r1: (Inr re)
    obtain r2 w2 where req: "eo_TransactionReceipt cl (etHash tx) w1 = (r2, w2)"
      by (cases "eo_TransactionReceipt cl (etHash tx) w1")
    note s2 = silent_then [OF R(1) eth_ops_silentD(3) [OF cl w1 req]]
    note w2 = emits_winv [OF s2]
    consider (none) "\<not> relNative re" "\<not> relToken re" | (fail) err where "relNative re \<or> relToken re" "r2 = Inl err"
      | (ok) receipt where "relNative re \<or> relToken re" "r2 = Inr receipt" by (cases r2) auto
    then show ?thesis
    proof cases
      case none
      then have "ethTxEvents L E p b rc tx (ev_watched V w) = []" if "ev_sinv V w"
        using R(3,5) [OF r1] that ethNativeEvents_irrelevant by (simp add: ev)
      with none ty rel r1 R(1) show ?thesis by (intro followsU_stuck) (simp_all add: eth_processTransaction_def)
    next
      case (fail err)
      have "\<not> eth_answers V cl b"
        using req fail(2) w1 unfolding eth_answers_def by (metis Inl_Inr_False fst_conv)
      with fail ty rel r1 req s2 show ?thesis
        by (intro followsU_stuck) (auto simp: eth_processTransaction_def)
    next
      case (ok receipt)
      have r: "receipt = ?r" using rc req ok(2) w1 unfolding eth_receipts_def by blast
      let ?w3 = "if relNative re then snd (processNativeTransaction L E p cl S (Some pub) tx b ?r w2) else w2"
      let ?w4 = "if relToken re then snd (processTokenTransaction L E p cl S (Some pub) tx b ?r ?w3) else ?w3"
      have run: "snd (eth_processTransaction L E p cl S (Some pub) tx b w) = (if erStatus ?r = 0 then w2 else ?w4)"
        using ok r ty rel r1 req by (cases "relNative re") (simp_all add: eth_processTransaction_def Let_def)
      have s3: "followsU V ?c (ethNativeEvents L E p b tx ?r) w ?w3"
      proof (cases "relNative re")
        case True
        then obtain a where a: "etTo tx = Some a" "etValue tx \<noteq> 0"
          using R(4) [OF r1] by (auto simp: isPlainNativeTransfer_def)
        have "followsU V ?c (ethNativeEvents L E p b tx ?r) w
            (snd (processNativeTransaction L E p cl S (Some pub) tx b ?r w2))"
          by (rule followsU_cong [OF silent_followsU [OF s2 native_followsU [OF cl w2 n a]]])
            (use True R(5) [OF r1] ethNativeEvents_relevant a(1) in simp)
        with True show ?thesis by simp
      next
        case False
        with s2 R(5) [OF r1] ethNativeEvents_irrelevant show ?thesis by (intro followsU_stuck) auto
      qed
      have s4: "followsU V ?c ?tok ?w3 ?w4"
        using tokens_followU [OF cl followsU_winv [OF s3] n] nothing_followsU [OF followsU_winv [OF s3]] R(3) [OF r1]
        by simp
      show ?thesis
      proof (cases "erStatus ?r = 0")
        case True
        with s2 ev run show ?thesis by (intro followsU_stuck) simp_all
      next
        case False
        with followsU_trans [OF s3 s4, of ?c] ev run show ?thesis by simp
      qed
    qed
  qed
qed

lemma batch_followsU:
  assumes cl: "eth_ops_silent V cl" and n: "epNetwork p = network" and rc: "eth_receipts V cl rc"
  shows "ev_winv V w \<Longrightarrow> followsU V (ev_healthy V \<and> eth_answers V cl b) (ethEvents L E p b rc doneTxs txs) w
      (snd (processBatch L E p cl S (Some pub) b doneTxs txs w)) \<and>
    (eth_answers V cl b \<longrightarrow> fst (processBatch L E p cl S (Some pub) b doneTxs txs w) = None)"
proof (induction txs arbitrary: w)
  case Nil
  then show ?case using nothing_followsU by (simp add: ethEvents_def [abs_def])
next
  case (Cons tx txs)
  let ?c = "ev_healthy V \<and> eth_answers V cl b" and ?h = "el_hashHex E (etHash tx)"
  show ?case
  proof (cases "?h \<in> set doneTxs")
    case True
    then show ?thesis using Cons.IH [OF Cons.prems] by (simp add: ethEvents_Cons [abs_def])
  next
    case False
    obtain ro w1 where a: "eo_Acquire cl w = (ro, w1)" by (cases "eo_Acquire cl w")
    note s1 = eth_ops_silentD(8) [OF cl Cons.prems a]
    note w1 = emits_winv [OF s1]
    have ev: "ethEvents L E p b rc doneTxs (tx # txs) =
        (\<lambda>m. ethTxEvents L E p b rc tx m @ ethEvents L E p b rc doneTxs txs m)"
      using False by (auto simp: ethEvents_Cons fun_eq_iff)
    show ?thesis
    proof (cases ro)
      case (Some err)
      then have no: "\<not> eth_answers V cl b" using a Cons.prems unfolding eth_answers_def by (metis fst_conv option.discI)
      then have "followsU V ?c (ethTxEvents L E p b rc tx) w w1" using s1 by (intro followsU_stuck) simp_all
      from followsU_trans [OF this Cons.IH [OF w1, THEN conjunct1], of ?c] False a Some no ev show ?thesis by simp
    next
      case None
      let ?w2 = "snd (eth_processTransaction L E p cl S (Some pub) tx b w1)"
      obtain r3 w3 where d: "st_AddProcessedTransaction S network b ?h ?w2 = (r3, w3)"
        by (cases "st_AddProcessedTransaction S network b ?h ?w2")
      note s2 = silent_followsU [OF s1 eth_transaction_followsU [OF cl w1 n rc]]
      note s3 = followsU_then_silent [OF s2 addTx_silent [OF followsU_winv [OF s2] d]]
      have run: "processBatch L E p cl S (Some pub) b doneTxs (tx # txs) w =
          processBatch L E p cl S (Some pub) b doneTxs txs w3"
        using False a None d n by (simp add: Let_def)
      from followsU_trans [OF s3 Cons.IH [OF followsU_winv [OF s3], THEN conjunct1], of ?c]
        Cons.IH [OF followsU_winv [OF s3]]
      show ?thesis unfolding run ev by simp
    qed
  qed
qed

lemma batches_followU:
  assumes cl: "eth_ops_silent V cl" and n: "epNetwork p = network" and rc: "eth_receipts V cl rc"
  shows "ev_winv V w \<Longrightarrow> followsU V (ev_healthy V \<and> eth_answers V cl b) (ethEvents L E p b rc doneTxs (drop i txs)) w
      (snd (processBatches L E p cl S (Some pub) b doneTxs k i txs w)) \<and>
    (eth_answers V cl b \<longrightarrow> fst (processBatches L E p cl S (Some pub) b doneTxs k i txs w) = None)"
proof (induction "length txs - i" arbitrary: i w rule: less_induct)
  case less
  let ?c = "ev_healthy V \<and> eth_answers V cl b"
  show ?case
  proof (cases "i < length txs")
    case False
    then show ?thesis using nothing_followsU [OF less.prems]
      by (simp add: processBatches.simps [of L E p cl S] ethEvents_def [abs_def])
  next
    case True
    let ?fin = "if i + Suc k > length txs then length txs else i + Suc k"
    let ?bt = "take (?fin - i) (drop i txs)"
    have bt: "drop i txs = ?bt @ drop (i + Suc k) txs"
      by (subst append_take_drop_id [symmetric, of _ "Suc k"]) (simp add: drop_drop add.commute)
    obtain ro w1 where r: "processBatch L E p cl S (Some pub) b doneTxs ?bt w = (ro, w1)"
      by (cases "processBatch L E p cl S (Some pub) b doneTxs ?bt w")
    from batch_followsU [OF cl n rc less.prems, of b L E doneTxs ?bt] r
    have s1: "followsU V ?c (ethEvents L E p b rc doneTxs ?bt) w w1" and ok: "eth_answers V cl b \<longrightarrow> ro = None"
      by simp_all
    have ev: "ethEvents L E p b rc doneTxs (drop i txs) =
        (\<lambda>m. ethEvents L E p b rc doneTxs ?bt m @ ethEvents L E p b rc doneTxs (drop (i + Suc k) txs) m)"
      by (rule ext) (subst bt, rule ethEvents_append)
    show ?thesis
    proof (cases ro)
      case (Some err)
      then have "processBatches L E p cl S (Some pub) b doneTxs k i txs w =
          (Some (Wrap (''failed to process batch '' @ dec i @ ''-'' @ dec (?fin - 1)) err), w1)"
        using True r by (simp add: processBatches.simps [of L E p cl S])
      then show ?thesis using Some ok followsU_prefix [OF s1, of ?c] unfolding ev by simp
    next
      case None
      have run: "processBatches L E p cl S (Some pub) b doneTxs k i txs w =
          processBatches L E p cl S (Some pub) b doneTxs k (i + Suc k) txs w1"
        using True r None by (simp add: processBatches.simps [of L E p cl S _ _ _ _ i])
      have l: "length txs - (i + Suc k) < length txs - i" using True by simp
      note IH = less.hyps [OF l followsU_winv [OF s1]]
      from followsU_trans [OF s1 IH [THEN conjunct1], of ?c] IH show ?thesis unfolding run ev by simp
    qed
  qed
qed

lemma getBlockTransactions_silent:
  assumes cl: "eth_ops_silent V cl" and w: "ev_winv V w" and n: "epNetwork p = network"
    and g: "getBlockTransactions E p cl S b w = (r, w')"
  shows "silent V w w'"
proof -
  let ?k = "blockCacheKey network b"
  obtain r1 w1 where c: "st_GetCache S ?k w = (r1, w1)" by (cases "st_GetCache S ?k w")
  note s1 = getCache_silent [OF w proc_keys(2) c]
  note w1 = emits_winv [OF s1]
  let ?f = "if evmBlockFetchMode (epConfig p) = ''light'' then
      (case eo_GetBlockVerbose cl b w1 of
         (Inl err, w2) \<Rightarrow> (Inl (Wrap ''failed to get block verbose'' err), w2)
       | (Inr v, w2) \<Rightarrow> (Inr \<lparr>ebTransactions = evTransactions v\<rparr>, w2))
    else fetchFull cl b w1"
  obtain r2 w2 where f: "?f = (r2, w2)" by (cases ?f)
  have s2: "silent V w w2"
    using silent_then [OF s1] f eth_ops_silentD(4) [OF cl w1] fetchFull_silent [OF cl w1]
    by (auto split: if_splits prod.splits sum.splits)
  obtain m ttl ro w3 where sc: "m = el_blockMarshal E (projr r2)" "ttl = 120 * Second"
      "st_SetCache S ?k m ttl w2 = (ro, w3)" by (cases "st_SetCache S ?k (el_blockMarshal E (projr r2)) (120 * Second) w2") auto
  note s3 = silent_then [OF s2 setCache_silent [OF emits_winv [OF s2] proc_keys(2) sc(3)]]
  have "w' = w1 \<or> w' = w2 \<or> w' = w3"
    using g n c f sc unfolding getBlockTransactions_def Let_def
    by (auto split: sum.splits prod.splits option.splits)
  with s1 s2 s3 show ?thesis by blast
qed

text \<open>
  A block whose data were read: the loop ends, what is published follows the specification, and where
  nothing fails the block is reported as complete. The result is never \<open>false\<close> without an error.
\<close>

lemma eth_ProcessBlock_follows:
  assumes cl: "eth_ops_silent V cl" and w: "ev_winv V w" and n: "epNetwork p = network" and rc: "eth_receipts V cl rc"
    and size: "evmBatchSize (epConfig p) > 0"
    and blk: "getBlockTransactions E p cl S b w = (Inr block, w1)"
    and txs: "st_GetProcessedTransactions S network b w1 = (Inr doneTxs, w2)"
  shows "\<exists>r t' w'. eth_ProcessBlock L E p cl S (Some pub) b (t, w) = Some (r, (t', w')) \<and>
    followsU V (ev_healthy V \<and> eth_answers V cl b) (ethEvents L E p b rc doneTxs (ebTransactions block)) w w' \<and>
    (r = Inr True \<and> t' = IncrementTxCount (of_nat (length (ebTransactions block))) t \<or>
     (\<exists>err. r = Inl err) \<and> t' = t \<and> \<not> eth_answers V cl b)"
proof -
  let ?txs = "ebTransactions block" and ?c = "ev_healthy V \<and> eth_answers V cl b"
  note s1 = getBlockTransactions_silent [OF cl w n blk]
  note s2 = silent_then [OF s1 getTxs_silent [OF emits_winv [OF s1] txs]]
  obtain k where k: "batchesOf (evmBatchSize (epConfig p)) ?txs = Sized k"
    using size by (cases "?txs = []") (auto simp: batchesOf_def)
  obtain ro w3 where b: "processBatches L E p cl S (Some pub) b doneTxs k 0 ?txs w2 = (ro, w3)"
    by (cases "processBatches L E p cl S (Some pub) b doneTxs k 0 ?txs w2")
  from batches_followU [OF cl n rc emits_winv [OF s2], of b L E doneTxs 0 ?txs k] b
  have s3: "followsU V ?c (ethEvents L E p b rc doneTxs ?txs) w2 w3" and ok: "eth_answers V cl b \<longrightarrow> ro = None"
    by simp_all
  note s3 = silent_followsU [OF s2 s3]
  obtain r4 w4 where c: "st_ClearBlockProgress S network b w3 = (r4, w4)" by (cases "st_ClearBlockProgress S network b w3")
  note s4 = followsU_then_silent [OF s3 clear_silent [OF followsU_winv [OF s3] c]]
  show ?thesis
  proof (cases ro)
    case None
    with blk txs k b c n s4 show ?thesis by (simp add: eth_ProcessBlock_def)
  next
    case (Some err)
    with blk txs k b n s3 ok show ?thesis by (simp add: eth_ProcessBlock_def)
  qed
qed

text \<open>On every path that returns, the data of the tracker are left alone.\<close>

lemma eth_ProcessBlock_frame:
  assumes cl: "eth_ops_silent V cl" and w: "ev_winv V w" and n: "epNetwork p = network" and rc: "eth_receipts V cl rc"
    and run: "eth_ProcessBlock L E p cl S (Some pub) b (t, w) = Some (r, (t', w'))"
  shows "ev_frame V w' = ev_frame V w \<and> (t' = t \<or> (\<exists>n. t' = IncrementTxCount n t))"
proof -
  have fr: "ev_frame V v = ev_frame V w" if "silent V w v" for v using that by (simp add: emits_def)
  obtain x1 w1 where g: "getBlockTransactions E p cl S b w = (x1, w1)" by (cases "getBlockTransactions E p cl S b w")
  note s1 = getBlockTransactions_silent [OF cl w n g]
  obtain x2 w2 where h: "st_GetProcessedTransactions S network b w1 = (x2, w2)"
    by (cases "st_GetProcessedTransactions S network b w1")
  note s2 = silent_then [OF s1 getTxs_silent [OF emits_winv [OF s1] h]]
  show ?thesis
  proof (cases x1)
    case (Inl err)
    with run g fr [OF s1] show ?thesis by (auto simp: eth_ProcessBlock_def split: if_splits)
  next
    case x1: (Inr block)
    show ?thesis
    proof (cases x2)
      case (Inl err)
      with run g h x1 n fr [OF s2] show ?thesis by (auto simp: eth_ProcessBlock_def)
    next
      case x2: (Inr doneTxs)
      let ?txs = "ebTransactions block"
      show ?thesis
      proof (cases "batchesOf (evmBatchSize (epConfig p)) ?txs")
        case (Sized k)
        obtain ro w3 where b: "processBatches L E p cl S (Some pub) b doneTxs k 0 ?txs w2 = (ro, w3)"
          by (cases "processBatches L E p cl S (Some pub) b doneTxs k 0 ?txs w2")
        from batches_followU [OF cl n rc emits_winv [OF s2], of b L E doneTxs 0 ?txs k] b
        have s3: "followsU V (ev_healthy V \<and> eth_answers V cl b) (ethEvents L E p b rc doneTxs ?txs) w w3"
          using silent_followsU [OF s2] by simp
        obtain r4 w4 where c: "st_ClearBlockProgress S network b w3 = (r4, w4)"
          by (cases "st_ClearBlockProgress S network b w3")
        note s4 = followsU_then_silent [OF s3 clear_silent [OF followsU_winv [OF s3] c]]
        from run g h x1 x2 Sized b c n followsU_frame [OF s3] followsU_frame [OF s4] show ?thesis
          by (cases ro) (auto simp: eth_ProcessBlock_def Let_def)
      qed (use run g h x1 x2 n fr [OF s2] in \<open>auto simp: eth_ProcessBlock_def\<close>)
    qed
  qed
qed

end

end
