(* ===== verification/Evm_Service.thy ===== *)
theory Evm_Service
  imports Tron_Service Evm_Processor
begin

text \<open>
  The processor of an EVM chain on its rotating client, the Redis storage and the RabbitMQ publisher, as the base
  tracker runs it. \<open>acq\<close> is the weighted semaphore that limits the goroutines of a batch.
\<close>

record evm_clients =
  evClient :: EthereumClient
  evOmini :: OminiState

type_synonym ('e, 'f, 'm) evm_world = "('e, 'f, evm_clients, 'm) client_world_scheme"

definition onClient :: "(EthereumClient \<times> 'e \<Rightarrow> 'a \<times> EthereumClient \<times> 'e) \<Rightarrow> evm_clients \<times> 'e \<Rightarrow> 'a \<times> evm_clients \<times> 'e" where
  "onClient f s = (case s of (c, e) \<Rightarrow> (case f (evClient c, e) of (r, (c', e')) \<Rightarrow> (r, (c\<lparr>evClient := c'\<rparr>, e'))))"

definition nextOmini :: "evm_clients \<times> 'e \<Rightarrow> string option \<times> evm_clients \<times> 'e" where
  "nextOmini s = (case s of (c, e) \<Rightarrow> (case getNextOminiClient (evOmini c) of (u, om) \<Rightarrow> (u, (c\<lparr>evOmini := om\<rparr>, e))))"

definition evmOps ::
  "'e netio \<Rightarrow> 'e eth_rpc \<Rightarrow> ('e \<Rightarrow> error option \<times> 'e) \<Rightarrow> eth_lib \<Rightarrow> ('e, 'f, 'm) evm_world EthOps" where
  "evmOps N R acq E = \<lparr>
     eo_BlockNumber = liftC (onClient (eth_BlockNumber N R)),
     eo_HeaderByNumber = (\<lambda>n. liftC (onClient (eth_HeaderByNumber N R n))),
     eo_BlockByNumber = (\<lambda>n. liftC (onClient (eth_BlockByNumber N R n))),
     eo_TransactionReceipt = (\<lambda>h. liftC (onClient (eth_TransactionReceipt N R h))),
     eo_GetBlockVerbose = (\<lambda>b. liftC (onClient (eth_GetBlockVerbose N R (el_hashHex E) b))),
     eo_NextOmini = liftC nextOmini,
     eo_OminiWait = (\<lambda>u. liftE (net_wait N)),
     eo_OminiBlock = (\<lambda>u n. liftE (rp_BlockByNumber R u n)),
     eo_Acquire = liftE acq,
     eo_Now = liftE (net_now N)\<rparr>"

definition evm_Initialize ::
  "'e netio \<Rightarrow> 'e eth_rpc \<Rightarrow> EthereumProcessor \<Rightarrow> ('e, 'f, 'm) evm_world \<Rightarrow>
   error option \<times> ('e, 'f, 'm) evm_world" where
  "evm_Initialize N R p w =
     (case eth_InitializeProviders N R p (evOmini (client w)) (env w) of
        (Inl err, e) \<Rightarrow> (Some err, w\<lparr>env := e\<rparr>)
      | (Inr (c, om), e) \<Rightarrow> (None, w\<lparr>env := e, client := \<lparr>evClient = c, evOmini = om\<rparr>\<rparr>))"

text \<open>\<open>CleanupProviders\<close> closes the dedicated clients and the rotating one.\<close>

definition eth_CleanupProviders ::
  "'e eth_rpc \<Rightarrow> ('e, 'f, 'm) evm_world \<Rightarrow>
   error option \<times> ('e, 'f, 'm) evm_world" where
  "eth_CleanupProviders R w =
     (let e1 = fold (rp_Close R) (omClients (evOmini (client w))) (env w)
      in (None, w\<lparr>env := eth_Close R (evClient (client w), e1)\<rparr>))"

text \<open>
  The processor as a value of the interface. With a batch size of zero and a transaction in the block its loop would
  not end; the theorems below are about positive sizes, where the \<open>None\<close> case does not occur.
\<close>

definition evmBlockProcessor ::
  "libs \<Rightarrow> eth_lib \<Rightarrow> EthereumProcessor \<Rightarrow> 'e netio \<Rightarrow> 'e eth_rpc \<Rightarrow> ('e \<Rightarrow> error option \<times> 'e) \<Rightarrow>
   ('e, 'f, 'm) evm_world Storage \<Rightarrow> ('e, 'f, 'm) evm_world Publisher \<Rightarrow>
   ('e, 'f, 'm) evm_world BlockProcessor" where
  "evmBlockProcessor L E p N R acq S pub = \<lparr>
     bp_ProcessBlock = (\<lambda>b s. case eth_ProcessBlock L E p (evmOps N R acq E) S (Some pub) b s of
        Some x \<Rightarrow> x | None \<Rightarrow> (Inr False, s)),
     bp_GetCurrentBlockHeight = eo_BlockNumber (evmOps N R acq E),
     bp_GetNetwork = epNetwork p,
     bp_InitializeProviders = evm_Initialize N R p,
     bp_CleanupProviders = eth_CleanupProviders R,
     bp_InFlightTxs = None,
     bp_ProviderStats = None\<rparr>"

lemma evmBlockProcessor_simps [simp]:
  "bp_ProcessBlock (evmBlockProcessor L E p N R acq S pub) b s =
     (case eth_ProcessBlock L E p (evmOps N R acq E) S (Some pub) b s of Some x \<Rightarrow> x | None \<Rightarrow> (Inr False, s))"
  "bp_GetCurrentBlockHeight (evmBlockProcessor L E p N R acq S pub) = eo_BlockNumber (evmOps N R acq E)"
  "bp_GetNetwork (evmBlockProcessor L E p N R acq S pub) = epNetwork p"
  by (simp_all add: evmBlockProcessor_def)

section \<open>The client leaves the other services alone\<close>

definition evm_frame :: "'e netio \<Rightarrow> 'e eth_rpc \<Rightarrow> ('e \<Rightarrow> error option \<times> 'e) \<Rightarrow> ('e \<Rightarrow> 'v) \<Rightarrow> bool" where
  "evm_frame N R acq view \<longleftrightarrow> net_frame N view \<and> rpc_frame R view \<and> (\<forall>e. view (snd (acq e)) = view e)"

lemma execute_view:
  assumes "net_frame N view" "\<And>u e. view (snd (f u e)) = view e"
  shows "view (snd (snd (executeWithRetry N (onProvider f) s))) = view (snd s)"
proof -
  obtain r s' where e: "executeWithRetry N (onProvider f) s = (r, s')" by (cases "executeWithRetry N (onProvider f) s")
  have "good_step view s s'" by (rule call_step [OF assms(1) _ e]) (rule assms(2))
  with e show ?thesis by (simp add: good_step_def)
qed

lemma eth_calls_view:
  assumes "net_frame N view" "rpc_frame R view"
  shows "view (snd (snd (eth_BlockNumber N R s))) = view (snd s)"
    "view (snd (snd (eth_HeaderByNumber N R n s))) = view (snd s)"
    "view (snd (snd (eth_BlockByNumber N R n s))) = view (snd s)"
    "view (snd (snd (eth_TransactionByHash N R h s))) = view (snd s)"
    "view (snd (snd (eth_TransactionReceipt N R h s))) = view (snd s)"
  unfolding eth_BlockNumber_def eth_HeaderByNumber_def eth_BlockByNumber_def eth_TransactionByHash_def
    eth_TransactionReceipt_def
  using assms(2) by (simp_all add: execute_view [OF assms(1)] rpc_frame_def)

lemma fetchTxs_view:
  assumes "net_frame N view" "rpc_frame R view"
  shows "view (snd (snd (fetchTxs N R hex hs s))) = view (snd s)"
proof (induction hs arbitrary: s)
  case (Cons h hs)
  obtain c e where s: "s = (c, e)" by (cases s)
  obtain x e1 where w: "net_wait N e = (x, e1)" by (cases "net_wait N e")
  have e1: "view e1 = view e" by (rule net_frameD(2) [OF assms(1) w])
  note t = eth_calls_view(4) [OF assms, of h "(c, e1)"]
  have "view (snd (snd (fetchTxs N R hex hs (snd (eth_TransactionByHash N R h (c, e1)))))) = view e"
    using Cons.IH t e1 by simp
  with Cons.IH [of "(c, e1)"] w e1 s show ?case
    by (cases x) (auto split: prod.splits sum.splits)
qed simp

lemma verbose_view:
  assumes "net_frame N view" "rpc_frame R view"
  shows "view (snd (snd (eth_GetBlockVerbose N R hex b s))) = view (snd s)"
proof -
  obtain r1 s1 where h: "eth_HeaderByNumber N R (sint b) s = (r1, s1)" by (cases "eth_HeaderByNumber N R (sint b) s")
  obtain r2 c2 e2 where g: "getHealthyProvider N s1 = (r2, (c2, e2))" by (cases "getHealthyProvider N s1") auto
  have v1: "view (snd s1) = view (snd s)" using eth_calls_view(2) [OF assms, of "sint b" s] h by simp
  have v2: "view e2 = view (snd s)" using choose_step [OF assms(1) g] v1 by (simp add: good_step_def)
  have v3: "view e3 = view (snd s)" if "rp_BlockTxHashes R u b e2 = (x, e3)" for u x e3
    using assms(2) that v2 unfolding rpc_frame_def by (metis snd_conv)
  have v4: "view (snd s4) = view (snd s)"
    if "rp_BlockTxHashes R u b e2 = (x, e3)" "fetchTxs N R hex hs (c2, e3) = (y, s4)" for u x e3 hs y s4
    using fetchTxs_view [OF assms, of hex hs "(c2, e3)"] that v3 by simp
  show ?thesis using h g v1 v2
    by (auto simp: eth_GetBlockVerbose_def split: prod.splits sum.splits intro: v3 v4) (auto dest: v3 v4)
qed

lemma onClient_view [simp]: "snd (snd (onClient f s)) = snd (snd (f (evClient (fst s), snd s)))"
  by (simp add: onClient_def split_beta)

lemma evmOps_silent:
  assumes "services_ok ex view amqp clock sent" "evm_frame N R acq view" "evm_frame N R acq sent"
  shows "eth_ops_silent (redisView ex BL view amqp clock sent n) (evmOps N R acq E)"
proof -
  have F: "net_frame N view" "rpc_frame R view" "net_frame N sent" "rpc_frame R sent"
    "\<And>e. view (snd (acq e)) = view e" "\<And>e. sent (snd (acq e)) = sent e"
    using assms(2,3) by (simp_all add: evm_frame_def)
  have om: "snd (snd (nextOmini s)) = snd s" for s :: "evm_clients \<times> 'x" by (simp add: nextOmini_def split_beta)
  have B: "view (snd (rp_BlockByNumber R u k e)) = view e" "sent (snd (rp_BlockByNumber R u k e)) = sent e" for u k e
    using F(2,4) by (simp_all add: rpc_frame_def)
  have W: "view (snd (net_wait N e)) = view e" "sent (snd (net_wait N e)) = sent e"
    "view (snd (net_now N e)) = view e" "sent (snd (net_now N e)) = sent e" for e
    using F(1,3) by (simp_all add: net_frame_def)
  show ?thesis
    unfolding eth_ops_silent_def evmOps_def
    by (simp add: liftC_silent [OF assms(1)] liftE_silent [OF assms(1)] eth_calls_view [OF F(1,2)]
        eth_calls_view [OF F(3,4)] verbose_view [OF F(1,2)] verbose_view [OF F(3,4)] om B W F(5,6))
qed

section \<open>Receipts\<close>

text \<open>The receipt of a transaction is the same whichever provider returns it.\<close>

definition receipts_agree :: "'e eth_rpc \<Rightarrow> (hash32 \<Rightarrow> ethReceipt) \<Rightarrow> bool" where
  "receipts_agree R rc \<longleftrightarrow> (\<forall>u h e r e'. rp_TransactionReceipt R u h e = (Inr r, e') \<longrightarrow> r = rc h)"

lemma retryLoop_result:
  assumes "\<And>i s x s'. op i s = (Inr x, s') \<Longrightarrow> Q x"
  shows "retryLoop N op k l s = (Inr x, s') \<Longrightarrow> Q x"
proof (induction k arbitrary: l s)
  case (Suc k)
  obtain g c1 e1 where g: "getHealthyProvider N s = (g, (c1, e1))" by (cases "getHealthyProvider N s") auto
  with Suc.prems obtain i where i: "g = Inr i" by (cases g) auto
  obtain t0 e2 where n1: "net_now N e1 = (t0, e2)" by (cases "net_now N e1")
  obtain y c3 e3 where o: "op i (c1, e2) = (y, (c3, e3))" by (cases "op i (c1, e2)") auto
  obtain t1 e4 where n2: "net_now N e3 = (t1, e4)" by (cases "net_now N e3")
  show ?case
  proof (cases y)
    case (Inr z)
    with Suc.prems g i n1 o n2 have "x = z" by simp
    with assms o Inr show ?thesis by blast
  next
    case (Inl err)
    obtain c5 e5 where u: "updateProviderStatus N i (Some err) (t1 - t0) (c3, e4) = (c5, e5)"
      by (cases "updateProviderStatus N i (Some err) (t1 - t0) (c3, e4)")
    obtain b e6 where sl: "net_sleep N (evmRetryDelay (ecConfig c5)) e5 = (b, e6)"
      by (cases "net_sleep N (evmRetryDelay (ecConfig c5)) e5")
    have "\<exists>s''. retryLoop N op k (Some err) s'' = (Inr x, s')"
      using Suc.prems g i n1 o n2 Inl u sl by (cases "typeNotSupported err"; cases "0 < k"; cases b) auto
    with Suc.IH show ?thesis by blast
  qed
qed simp

lemma execute_result:
  assumes "\<And>u e x e'. f u e = (Inr x, e') \<Longrightarrow> Q x" "executeWithRetry N (onProvider f) s = (Inr x, s')"
  shows "Q x"
proof -
  have "Q x" if "onProvider f i s = (Inr x, s')" for i s x s'
    using that assms(1) by (auto simp: onProvider_def split: prod.splits)
  note R = retryLoop_result [where Q = Q and op = "onProvider f", OF this]
  from assms(2) show ?thesis
    by (auto simp: executeWithRetry_def split: prod.splits option.splits intro: R)
qed

lemma evmOps_receipts:
  assumes "receipts_agree R rc"
  shows "eth_receipts V (evmOps N R acq E) rc"
proof -
  have "r = rc h" if "eth_TransactionReceipt N R h s = (Inr r, s')" for h s r s'
    by (rule execute_result [where Q = "\<lambda>r. r = rc h", OF _ that [unfolded eth_TransactionReceipt_def]])
      (use assms [unfolded receipts_agree_def] in blast)
  then show ?thesis
    unfolding eth_receipts_def evmOps_def by (auto simp: liftC_def onClient_def split: prod.splits)
qed

section \<open>The client while its providers answer\<close>

definition evm_up :: "('e, 'f, 'm) evm_world \<Rightarrow> bool" where
  "evm_up w \<longleftrightarrow> client_up (evClient (client w))"

text \<open>Nothing fails: Redis, the broker, the providers and the semaphore, and block times can be written as JSON.\<close>

definition evmHealthy ::
  "'e redis_exec \<Rightarrow> ('e \<Rightarrow> keyspace) \<Rightarrow> 'e amqp_send \<Rightarrow> 'e clock \<Rightarrow> 'e netio \<Rightarrow> 'e eth_rpc \<Rightarrow> ('e \<Rightarrow> error option \<times> 'e) \<Rightarrow> bool" where
  "evmHealthy ex view amqp clock N R acq \<longleftrightarrow> redis_healthy ex view \<and> amqp_healthy amqp clock \<and> providers_answer N R \<and>
     (\<forall>e. fst (acq e) = None) \<and>
     (\<forall>u n e h e'. rp_HeaderByNumber R u n e = (Inr h, e') \<longrightarrow> time_marshals (sint (ehTime h) * Second))"

lemma eth_calls_up:
  assumes "providers_answer N R" "client_up c"
  shows "eth_BlockNumber N R (c, e) = (r1, (c', e')) \<Longrightarrow> client_up c' \<and> \<not> isl r1"
    "eth_HeaderByNumber N R n (c, e) = (r2, (c', e')) \<Longrightarrow> client_up c' \<and> \<not> isl r2"
    "eth_BlockByNumber N R n (c, e) = (r3, (c', e')) \<Longrightarrow> client_up c' \<and> \<not> isl r3"
    "eth_TransactionByHash N R h (c, e) = (r4, (c', e')) \<Longrightarrow> client_up c' \<and> \<not> isl r4"
    "eth_TransactionReceipt N R h (c, e) = (r5, (c', e')) \<Longrightarrow> client_up c' \<and> \<not> isl r5"
  using assms(1) unfolding eth_BlockNumber_def eth_HeaderByNumber_def eth_BlockByNumber_def eth_TransactionByHash_def
    eth_TransactionReceipt_def providers_answer_def
  by (auto elim: call_up [OF assms(2), THEN conjunct1, rotated 2] call_up [OF assms(2), THEN conjunct2, THEN notE, rotated 2])

lemma fetchTxs_up:
  assumes "providers_answer N R"
  shows "client_up c \<Longrightarrow> client_up (fst (snd (fetchTxs N R hex hs (c, e))))"
proof (induction hs arbitrary: c e)
  case (Cons h hs)
  obtain e1 where w: "net_wait N e = (None, e1)"
    using assms unfolding providers_answer_def by (metis prod.collapse)
  obtain r c2 e2 where t: "eth_TransactionByHash N R h (c, e1) = (r, (c2, e2))"
    by (cases "eth_TransactionByHash N R h (c, e1)") auto
  from Cons.IH [OF eth_calls_up(4) [OF assms Cons.prems t, THEN conjunct1], of e2] w t show ?case
    by (cases r) (auto split: prod.splits sum.splits)
qed simp

lemma verbose_up:
  assumes "providers_answer N R" "client_up c"
  shows "client_up (fst (snd (eth_GetBlockVerbose N R hex b (c, e))))"
proof -
  obtain r1 c1 e1 where h: "eth_HeaderByNumber N R (sint b) (c, e) = (r1, (c1, e1))"
    by (cases "eth_HeaderByNumber N R (sint b) (c, e)") auto
  note u1 = eth_calls_up(2) [OF assms h, THEN conjunct1]
  obtain r2 c2 e2 where g: "getHealthyProvider N (c1, e1) = (r2, (c2, e2))" by (cases "getHealthyProvider N (c1, e1)") auto
  note u2 = choose_up [OF u1 g, THEN conjunct1]
  have "client_up c3" if "fetchTxs N R hex hs (c2, e3) = (y, (c3, e4))" for hs e3 y c3 e4
    using fetchTxs_up [OF assms(1) u2, of hex hs e3] that by simp
  with h g u1 u2 show ?thesis
    by (auto simp: eth_GetBlockVerbose_def split: prod.splits sum.splits)
qed

lemma lift_up:
  "(\<And>c e r c' e'. client_up c \<Longrightarrow> f (c, e) = (r, (c', e')) \<Longrightarrow> client_up c') \<Longrightarrow> evm_up w \<Longrightarrow>
   evm_up (snd (liftC (onClient f) w))"
  "evm_up w \<Longrightarrow> evm_up (snd (liftE g w))" "evm_up w \<Longrightarrow> evm_up (snd (liftC nextOmini w))"
  by (auto simp: evm_up_def liftC_def liftE_def onClient_def nextOmini_def split: prod.splits)

lemma evmOps_up:
  assumes "eth_ops_silent V (evmOps N R acq E :: ('e, 'f, 'm) evm_world EthOps)" "providers_answer N R"
  shows "eth_ops_silent (restrictV evm_up V) (evmOps N R acq E :: ('e, 'f, 'm) evm_world EthOps)"
proof -
  note U = eth_calls_up [OF assms(2)]
  have v: "client_up c \<Longrightarrow> eth_GetBlockVerbose N R hex b (c, e) = (r, (c', e')) \<Longrightarrow> client_up c'" for c hex b e r c' e'
    using verbose_up [OF assms(2), of c hex b e] by simp
  have "evm_up (snd (eo_BlockNumber (evmOps N R acq E) w)) \<and> (\<forall>n. evm_up (snd (eo_HeaderByNumber (evmOps N R acq E) n w))) \<and>
     (\<forall>n. evm_up (snd (eo_BlockByNumber (evmOps N R acq E) n w))) \<and> (\<forall>h. evm_up (snd (eo_TransactionReceipt (evmOps N R acq E) h w))) \<and>
     (\<forall>b. evm_up (snd (eo_GetBlockVerbose (evmOps N R acq E) b w))) \<and> evm_up (snd (eo_NextOmini (evmOps N R acq E) w)) \<and>
     (\<forall>u. evm_up (snd (eo_OminiWait (evmOps N R acq E) u w))) \<and> (\<forall>u n. evm_up (snd (eo_OminiBlock (evmOps N R acq E) u n w))) \<and>
     evm_up (snd (eo_Acquire (evmOps N R acq E) w)) \<and> evm_up (snd (eo_Now (evmOps N R acq E) w))"
    if "evm_up w" for w :: "('e, 'f, 'm) evm_world"
    using that unfolding evmOps_def
    by (simp add: lift_up(2,3)) (blast intro: lift_up(1) U [THEN conjunct1] v)
  with assms(1) show ?thesis
    unfolding eth_ops_silent_def by (simp add: emits_restrict)
qed

lemma evm_up_keeps:
  "keeps evm_up (redisStorage ex BL :: ('e, 'f, 'm) evm_world Storage) (rabbitPublisher amqp clock pb) n"
proof -
  have c: "evm_up w \<Longrightarrow> evm_up (snd (rcmd ex k w))" "evm_up (w\<lparr>env := e\<rparr>) = evm_up w" for k e and w :: "('e, 'f, 'm) evm_world"
    by (auto simp: evm_up_def rcmd_def split: prod.splits)
  show ?thesis
    unfolding keeps_def
    by (auto simp: c IsWatchedWallet_def GetProcessedTransactions_def AddProcessedTransaction_def ClearBlockProgress_def
        GetCache_def SetCache_def rabbitPublisher_def PublishDeposit_def PublishWithdrawal_def Publish_def split_beta
        split: sum.split option.split)
qed

section \<open>The events of a block\<close>

text \<open>
  What processing a block reads, and the events \<open>f\<close> it should publish. A block the providers cannot decode because
  of an unsupported transaction type counts as complete without events.
\<close>

definition evmRead ::
  "'e redis_exec \<Rightarrow> 'f bloom_lib \<Rightarrow> libs \<Rightarrow> eth_lib \<Rightarrow> EthereumProcessor \<Rightarrow> 'e netio \<Rightarrow> 'e eth_rpc \<Rightarrow> ('e \<Rightarrow> error option \<times> 'e) \<Rightarrow>
   (hash32 \<Rightarrow> ethReceipt) \<Rightarrow> ('e, 'f, 'm) evm_world \<Rightarrow> u64 \<Rightarrow>
   ((string \<rightharpoonup> string) \<Rightarrow> payload list) \<Rightarrow> bool" where
  "evmRead ex BL L E p N R acq rc w b f \<longleftrightarrow>
     (\<exists>block w1 doneTxs w2. getBlockTransactions E p (evmOps N R acq E) (redisStorage ex BL) b w = (Inr block, w1) \<and>
        GetProcessedTransactions ex (epNetwork p) b w1 = (Inr doneTxs, w2) \<and>
        f = ethEvents L E p b rc doneTxs (ebTransactions block))"

definition evmUndecodable ::
  "'e redis_exec \<Rightarrow> 'f bloom_lib \<Rightarrow> eth_lib \<Rightarrow> EthereumProcessor \<Rightarrow> 'e netio \<Rightarrow> 'e eth_rpc \<Rightarrow> ('e \<Rightarrow> error option \<times> 'e) \<Rightarrow>
   ('e, 'f, 'm) evm_world \<Rightarrow> u64 \<Rightarrow> bool" where
  "evmUndecodable ex BL E p N R acq w b \<longleftrightarrow>
     (\<exists>err w1. getBlockTransactions E p (evmOps N R acq E) (redisStorage ex BL) b w = (Inl err, w1) \<and> typeNotSupported err)"

lemma evm_answers:
  assumes "evmHealthy ex view amqp clock N R acq"
  shows "eth_answers (restrictV evm_up V) (evmOps N R acq E :: ('e, 'f, 'm) evm_world EthOps) b"
proof -
  have P: "providers_answer N R" and acq: "\<And>e. fst (acq e) = None"
    and ts: "\<And>u n e h e'. rp_HeaderByNumber R u n e = (Inr h, e') \<Longrightarrow> time_marshals (sint (ehTime h) * Second)"
    using assms by (simp_all add: evmHealthy_def) blast
  have "\<exists>r. fst (eo_TransactionReceipt (evmOps N R acq E) h w) = Inr r" if "evm_up w" for h and w :: "('e, 'f, 'm) evm_world"
  proof -
    obtain r c' e' where t: "eth_TransactionReceipt N R h (evClient (client w), env w) = (r, (c', e'))"
      by (cases "eth_TransactionReceipt N R h (evClient (client w), env w)") auto
    from eth_calls_up(5) [OF P that [unfolded evm_up_def] t] obtain x where "r = Inr x" by (cases r) auto
    with t show ?thesis by (simp add: evmOps_def liftC_def onClient_def)
  qed
  moreover have "time_marshals (fst (BlockToTimestamp (evmOps N R acq E) b w))" if "evm_up w" for w :: "('e, 'f, 'm) evm_world"
  proof -
    obtain r c' e' where t: "eth_HeaderByNumber N R (sint b) (evClient (client w), env w) = (r, (c', e'))"
      by (cases "eth_HeaderByNumber N R (sint b) (evClient (client w), env w)") auto
    from eth_calls_up(2) [OF P that [unfolded evm_up_def] t] obtain h where r: "r = Inr h" by (cases r) auto
    have "time_marshals (sint (ehTime h) * Second)"
      by (rule execute_result [where Q = "\<lambda>h. time_marshals (sint (ehTime h) * Second)",
            OF _ t [unfolded eth_HeaderByNumber_def r]]) (rule ts)
    with t r show ?thesis by (simp add: BlockToTimestamp_def getHeaderByNumber_def evmOps_def liftC_def onClient_def)
  qed
  moreover have "fst (eo_Acquire (evmOps N R acq E) w) = None" for w :: "('e, 'f, 'm) evm_world"
    using acq by (simp add: evmOps_def liftE_def split_beta)
  ultimately show ?thesis unfolding eth_answers_def by auto
qed

text \<open>One run on a block whose data were read.\<close>

lemma evm_run:
  fixes w :: "('e, 'f, 'm) evm_world"
  assumes "services_ok ex view amqp clock sent" "evm_frame N R acq view" "evm_frame N R acq sent"
    and "receipts_agree R rc" "evmBatchSize (epConfig p) > 0" "evmRead ex BL L E p N R acq rc w b f"
  shows "\<exists>r t' w'. eth_ProcessBlock L E p (evmOps N R acq E) (redisStorage ex BL)
      (Some (rabbitPublisher amqp clock pb)) b (t, w) = Some (r, (t', w')) \<and>
    followsU (redisView ex BL view amqp clock sent (epNetwork p)) (evmHealthy ex view amqp clock N R acq \<and> evm_up w) f w w' \<and>
    (evmHealthy ex view amqp clock N R acq \<and> evm_up w \<longrightarrow> r = Inr True)"
proof -
  let ?V = "redisView ex BL view amqp clock sent (epNetwork p) :: (('e, 'f, 'm) evm_world, _) event_view"
  let ?cl = "evmOps N R acq E :: ('e, 'f, 'm) evm_world EthOps" and ?S = "redisStorage ex BL"
  let ?pub = "rabbitPublisher amqp clock pb"
  from assms(6) obtain block w1 doneTxs w2 where b: "getBlockTransactions E p ?cl ?S b w = (Inr block, w1)"
    and g: "st_GetProcessedTransactions ?S (epNetwork p) b w1 = (Inr doneTxs, w2)"
    and f: "f = ethEvents L E p b rc doneTxs (ebTransactions block)" unfolding evmRead_def by auto
  have I: "ev_winv ?V w" using assms(1) by simp
  note ops = evmOps_silent [OF assms(1,2,3)]
  show ?thesis
  proof (cases "evmHealthy ex view amqp clock N R acq \<and> evm_up w")
    case False
    have "\<exists>r t' w'. eth_ProcessBlock L E p ?cl ?S (Some ?pub) b (t, w) = Some (r, (t', w')) \<and>
        followsU ?V (ev_healthy ?V \<and> eth_answers ?V ?cl b) f w w' \<and>
        (r = Inr True \<and> t' = IncrementTxCount (of_nat (length (ebTransactions block))) t \<or>
         (\<exists>err. r = Inl err) \<and> t' = t \<and> \<not> eth_answers ?V ?cl b)"
      unfolding f by (rule re.eth_ProcessBlock_follows [OF ops I refl evmOps_receipts [OF assms(4)] assms(5) b g])
    with False show ?thesis by (blast intro: followsU_weaken)
  next
    case True
    let ?V' = "restrictV evm_up ?V"
    have P: "providers_answer N R" and H: "ev_healthy ?V'" using True by (simp_all add: evmHealthy_def)
    have I': "ev_winv ?V' w" using I True by simp
    have A: "eth_answers ?V' ?cl b" using True by (intro evm_answers) blast
    have "\<exists>r t' w'. eth_ProcessBlock L E p ?cl ?S (Some ?pub) b (t, w) = Some (r, (t', w')) \<and>
        followsU ?V' (ev_healthy ?V' \<and> eth_answers ?V' ?cl b) f w w' \<and>
        (r = Inr True \<and> t' = IncrementTxCount (of_nat (length (ebTransactions block))) t \<or>
         (\<exists>err. r = Inl err) \<and> t' = t \<and> \<not> eth_answers ?V' ?cl b)"
      unfolding f
      by (rule event_env.eth_ProcessBlock_follows [OF event_env_restrict [OF re.event_env_axioms evm_up_keeps]
            evmOps_up [OF ops P] I' refl evmOps_receipts [OF assms(4)] assms(5) b g])
    with A H show ?thesis unfolding followsU_restrict by (blast intro: followsU_weaken)
  qed
qed


lemma evm_complete_read:
  fixes w :: "('e, 'f, 'm) evm_world"
  assumes "services_ok ex view amqp clock sent" "evm_frame N R acq view" "evm_frame N R acq sent"
    and "receipts_agree R rc" "evmBatchSize (epConfig p) > 0"
    and run: "eth_ProcessBlock L E p (evmOps N R acq E) (redisStorage ex BL) (Some (rabbitPublisher amqp clock pb)) b (t, w) =
      Some (Inr True, (t', w'))"
  shows "\<exists>f. (evmRead ex BL L E p N R acq rc w b f \<or> evmUndecodable ex BL E p N R acq w b \<and> f = (\<lambda>m. [])) \<and>
    followsU (redisView ex BL view amqp clock sent (epNetwork p)) (evmHealthy ex view amqp clock N R acq \<and> evm_up w) f w w'"
proof -
  let ?V = "redisView ex BL view amqp clock sent (epNetwork p) :: (('e, 'f, 'm) evm_world, _) event_view"
  have I: "ev_winv ?V w" using assms(1) by simp
  note ops = evmOps_silent [OF assms(1,2,3)]
  let ?g = "getBlockTransactions E p (evmOps N R acq E) (redisStorage ex BL) b w"
  obtain x1 w1 where b: "?g = (x1, w1)" by (cases ?g)
  show ?thesis
  proof (cases x1)
    case (Inl err)
    then have "typeNotSupported err" "w' = w1" using run b by (auto simp: eth_ProcessBlock_def split: if_splits)
    moreover have "silent ?V w w1" by (rule re.getBlockTransactions_silent [OF ops I refl b])
    ultimately show ?thesis using b Inl unfolding evmUndecodable_def by (blast intro: followsU_silent)
  next
    case (Inr block)
    let ?d = "st_GetProcessedTransactions (redisStorage ex BL) (epNetwork p) b w1"
    obtain x2 w2 where d: "?d = (x2, w2)" by (cases ?d)
    with run b Inr obtain doneTxs where x2: "x2 = Inr doneTxs" by (cases x2) (auto simp: eth_ProcessBlock_def)
    let ?f = "ethEvents L E p b rc doneTxs (ebTransactions block)"
    have rd: "evmRead ex BL L E p N R acq rc w b ?f"
      unfolding evmRead_def using b Inr d x2 by auto
    have "followsU ?V (evmHealthy ex view amqp clock N R acq \<and> evm_up w) ?f w w'"
      using evm_run [OF assms(1-5) rd, of pb t] run by auto
    with rd show ?thesis by blast
  qed
qed

lemma evm_returns:
  "evmBatchSize (epConfig p) \<noteq> 0 \<Longrightarrow> \<exists>x. eth_ProcessBlock L E p cl S bt b s = Some x"
  by (cases s) (auto simp: eth_ProcessBlock_def batchesOf_def Let_def split: prod.splits sum.splits option.splits batching.splits)

interpretation evmSource: block_source ex BL view amqp clock sent
    "evmBlockProcessor L E p N R acq (redisStorage ex BL) (rabbitPublisher amqp clock pb) ::
       ('e, 'f, 'm) evm_world BlockProcessor"
    "\<lambda>w b f c. (evmRead ex BL L E p N R acq rc w b f \<or> evmUndecodable ex BL E p N R acq w b \<and> f = (\<lambda>m. [])) \<and>
       c = (evmHealthy ex view amqp clock N R acq \<and> evm_up w)"
    "services_ok ex view amqp clock sent \<and> evm_frame N R acq view \<and> evm_frame N R acq sent \<and> receipts_agree R rc \<and>
     evmBatchSize (epConfig p) > 0"
  for ex BL view amqp clock sent L E p N R acq pb rc
proof unfold_locales
  let ?P = "evmBlockProcessor L E p N R acq (redisStorage ex BL) (rabbitPublisher amqp clock pb) ::
    ('e, 'f, 'm) evm_world BlockProcessor"
  let ?V = "redisView ex BL view amqp clock sent (bp_GetNetwork ?P) :: (('e, 'f, 'm) evm_world, _) event_view"
  fix w :: "('e, 'f, 'm) evm_world" and r w' b t rb t'
  assume ready: "services_ok ex view amqp clock sent \<and> evm_frame N R acq view \<and> evm_frame N R acq sent \<and>
    receipts_agree R rc \<and> evmBatchSize (epConfig p) > 0"
  then show S: "services_ok ex view amqp clock sent" by blast
  from ready have F: "evm_frame N R acq view" "evm_frame N R acq sent" and A: "receipts_agree R rc"
    and B: "evmBatchSize (epConfig p) > 0" by blast+
  note ops = evmOps_silent [OF S F]
  have I: "ev_winv ?V v" for v using S by simp
  show "bp_GetCurrentBlockHeight ?P w = (r, w') \<Longrightarrow> silent ?V w w'"
    using ops [of BL "epNetwork p" E] I unfolding eth_ops_silent_def evmBlockProcessor_simps by (metis snd_conv)
  obtain x where x: "eth_ProcessBlock L E p (evmOps N R acq E) (redisStorage ex BL) (Some (rabbitPublisher amqp clock pb)) b (t, w) =
      Some x" using evm_returns [of p] B by (metis less_irrefl)
  have "ev_frame ?V w' = ev_frame ?V w \<and> t' = t\<lparr>processedTxs := processedTxs t'\<rparr>" if "x = (rb, (t', w'))"
    using re.eth_ProcessBlock_frame [OF ops I [unfolded evmBlockProcessor_simps] refl evmOps_receipts [OF A] x [unfolded that]]
    by (auto simp: IncrementTxCount_def)
  then show "bp_ProcessBlock ?P b (t, w) = (rb, (t', w')) \<Longrightarrow>
      ev_frame ?V w' = ev_frame ?V w \<and> t' = t\<lparr>processedTxs := processedTxs t'\<rparr>"
    by (simp add: x)
  show "bp_ProcessBlock ?P b (t, w) = (Inr True, (t', w')) \<Longrightarrow>
      \<exists>f c. ((evmRead ex BL L E p N R acq rc w b f \<or> evmUndecodable ex BL E p N R acq w b \<and> f = (\<lambda>m. [])) \<and>
        c = (evmHealthy ex view amqp clock N R acq \<and> evm_up w)) \<and> followsU ?V c f w w'"
    using evm_complete_read [OF S F A B, of L E BL pb b t w t' w'] x by auto
qed

section \<open>A marked block was published\<close>


section \<open>The cached block\<close>

text \<open>
  C31: The block cache loses the transactions. The JSON of a go-ethereum block does not contain its transactions
  (the hypothesis on \<open>el_blockMarshal\<close>). So when a block was fetched and cached and the attempt then fails, the
  next attempt, if Redis answers it, takes an empty block from the cache: it reports the block as complete and
  publishes nothing, whatever transactions the block has.
\<close>

theorem cached_block_loses_transactions:
  fixes w :: "('e, 'f, 'm) evm_world"
  assumes "services_ok ex view amqp clock sent" "evm_frame N R acq view" "evm_frame N R acq sent"
    and json: "\<forall>blk s. el_blockMarshal E blk = Inr s \<longrightarrow> el_blockUnmarshal E s = Inr \<lparr>ebTransactions = []\<rparr>"
    and fetched: "getBlockTransactions E p (evmOps N R acq E) (redisStorage ex BL) b w = (Inr block, w1)"
    and cached: "el_blockMarshal E block = Inr s" "keys view w1 (blockCacheKey (epNetwork p) b) = Some (VString s)"
    and failed: "GetProcessedTransactions ex (epNetwork p) b w1 = (Inl err, w2)"
    and again: "GetCache ex Inr (blockCacheKey (epNetwork p) b) w2 = (Inr s', w3)"
      "GetProcessedTransactions ex (epNetwork p) b w3 = (Inr doneTxs, w4)"
    and wallets: "wallets_ok BL view (epNetwork p) w"
  shows "eth_ProcessBlock L E p (evmOps N R acq E) (redisStorage ex BL) bt b (t, w) =
      Some (Inl (Wrap ''failed to get processed transactions'' err), (t, w2)) \<and>
    (\<exists>t'' w'. eth_ProcessBlock L E p (evmOps N R acq E) (redisStorage ex BL) bt b (t', w2) =
      Some (Inr True, (t'', w')) \<and> published sent w' = published sent w)"
proof -
  let ?V = "redisView ex BL view amqp clock sent (epNetwork p) :: (('e, 'f, 'm) evm_world, _) event_view"
  let ?S = "redisStorage ex BL :: ('e, 'f, 'm) evm_world Storage"
  have I: "ev_winv ?V v" for v using assms(1) by simp
  have laws: "redis_laws ex view" using assms(1) by (simp add: services_ok_def)
  note s1 = re.getBlockTransactions_silent [OF evmOps_silent [OF assms(1,2,3)] I refl fetched]
  have f2: "st_GetProcessedTransactions ?S (epNetwork p) b w1 = (Inl err, w2)" using failed by simp
  note s2 = silent_then [OF s1 re.getTxs_silent [OF I f2]]
  have a3: "st_GetCache ?S (blockCacheKey (epNetwork p) b) w2 = (Inr s', w3)" using again(1) by simp
  note s3 = silent_then [OF s2 re.getCache_silent [OF I proc_keys(2) a3]]
  have a4: "st_GetProcessedTransactions ?S (epNetwork p) b w3 = (Inr doneTxs, w4)" using again(2) by simp
  note s4 = silent_then [OF s3 re.getTxs_silent [OF I a4]]
  obtain rc w5 where c5: "st_ClearBlockProgress ?S (epNetwork p) b w4 = (rc, w5)"
    by (cases "st_ClearBlockProgress ?S (epNetwork p) b w4")
  note s5 = silent_then [OF s4 re.clear_silent [OF I c5]]
  obtain rep where m: "rcmd ex (SMembers (progressKey (epNetwork p) b)) w1 = (rep, w2)"
    using failed by (auto simp: GetProcessedTransactions_def split: prod.splits)
  have k2: "keys view w2 = keys view w1" using rcmd_read [OF laws m] by simp
  obtain rep' where g: "rcmd ex (GetKey (blockCacheKey (epNetwork p) b)) w2 = (rep', w3)" "rep' = RString s'"
    using again(1) by (cases "rcmd ex (GetKey (blockCacheKey (epNetwork p) b)) w2"; cases "fst (rcmd ex (GetKey (blockCacheKey (epNetwork p) b)) w2)")
      (auto simp: GetCache_def split: if_splits)
  have "s' = s"
    using rcmd_law [OF laws g(1)] g(2) cached(2) k2 by (auto simp: redis_ok_def)
  then have hit: "getBlockTransactions E p (evmOps N R acq E) ?S b w2 = (Inr \<lparr>ebTransactions = []\<rparr>, w3)"
    using a3 json cached(1) by (simp add: getBlockTransactions_def Let_def)
  have "eth_ProcessBlock L E p (evmOps N R acq E) ?S bt b (t, w) =
      Some (Inl (Wrap ''failed to get processed transactions'' err), (t, w2))"
    using fetched f2 by (simp add: eth_ProcessBlock_def)
  moreover have "\<exists>t''. eth_ProcessBlock L E p (evmOps N R acq E) ?S bt b (t', w2) = Some (Inr True, (t'', w5))"
    using hit a4 c5 by (simp add: eth_ProcessBlock_def batchesOf_def processBatches.simps)
  moreover have "published sent w5 = published sent w" using s5 wallets by (simp add: emits_def)
  ultimately show ?thesis by blast
qed

section \<open>An example\<close>

text \<open>
  A chain whose block 44 has one plain transfer of 5 wei to the watched address \<open>A2\<close>; the tip is 60. The block's
  JSON has no transactions, as in go-ethereum.
\<close>

definition demo_E :: eth_lib where
  "demo_E = \<lparr>el_addrHex = (\<lambda>a. ''A'' @ FormatInt (uint a)), el_hashHex = (\<lambda>h. ''H'' @ FormatInt (uint h)),
     el_IsHexAddress = (\<lambda>_. True), el_HexToAddress = (\<lambda>_. 0), el_keccak = (\<lambda>_. 7), el_abiJSON = None,
     el_Unpack = (\<lambda>_. Inr None), el_blockMarshal = (\<lambda>_. Inr ''{}''), el_blockUnmarshal = (\<lambda>_. Inr \<lparr>ebTransactions = []\<rparr>)\<rparr>"

definition demo_tx :: ethTx where
  "demo_tx = \<lparr>etHash = 11, etType = 0, etTo = Some 2, etValue = 5, etData = [], etGasPrice = Some 3, etSender = Some 1\<rparr>"

definition demo_receipt :: "hash32 \<Rightarrow> ethReceipt" where
  "demo_receipt h = \<lparr>erStatus = 1, erGasUsed = 2, erEffectiveGasPrice = None, erLogs = []\<rparr>"

definition demo_evm_rpc :: "demo_env eth_rpc" where
  "demo_evm_rpc = \<lparr>rp_Dial = (\<lambda>_ e. (None, e)), rp_Close = (\<lambda>_ e. e), rp_BlockNumber = (\<lambda>_ e. (Inr 60, e)),
     rp_HeaderByNumber = (\<lambda>_ _ e. (Inr \<lparr>ehHash = 1, ehNumber = 44, ehTime = 1, ehParentHash = 0\<rparr>, e)),
     rp_BlockByNumber = (\<lambda>_ _ e. (Inr \<lparr>ebTransactions = [demo_tx]\<rparr>, e)),
     rp_TransactionByHash = (\<lambda>_ _ e. (Inr (demo_tx, False), e)),
     rp_TransactionReceipt = (\<lambda>_ h e. (Inr (demo_receipt h), e)), rp_BlockTxHashes = (\<lambda>_ _ e. (Inr [], e))\<rparr>"

definition demo_acq :: "demo_env \<Rightarrow> error option \<times> demo_env" where
  "demo_acq e = (None, e)"

definition demo_evm_cfg :: EVMConfig where
  "demo_evm_cfg = demo_evm\<lparr>evmNetwork := ''ETH'', evmBatchSize := 25, evmRetryAttempts := 3, evmBlockFetchMode := ''full''\<rparr>"

definition demo_evm_processor :: EthereumProcessor where
  "demo_evm_processor = \<lparr>epConfig = demo_evm_cfg, epTokenContracts = [], epNativeCurrency = ''ETH'', epNetwork = ''ETH''\<rparr>"

definition demo_evm_world :: "string list \<Rightarrow> (demo_env, string list, evm_clients) client_world" where
  "demo_evm_world members = \<lparr>
     env = \<lparr>deRedis = \<lparr>msKeys = [lastKey \<mapsto> VHash [(''ETH'', ''43'')], walletsKey ''ETH'' \<mapsto> VHash [(''a2'', ''alice'')],
       progressKey ''ETH'' 44 \<mapsto> VSet members], msFail = []\<rparr>, deSent = []\<rparr>,
     wbloom = NewWalletBloom, client = \<lparr>evClient = demo_eth_client\<lparr>ecConfig := demo_evm_cfg\<rparr>, evOmini = \<lparr>omClients = [], omIndex = 0\<rparr>\<rparr>\<rparr>"

abbreviation demo_S :: "(demo_env, string list, unit) evm_world Storage" where
  "demo_S \<equiv> redisStorage demo_exec exact_bloom"

abbreviation demo_evm_ops :: "(demo_env, string list, unit) evm_world EthOps" where
  "demo_evm_ops \<equiv> evmOps demo_tron_net demo_evm_rpc demo_acq demo_E"

lemma demo_evm_frame:
  "evm_frame demo_tron_net demo_evm_rpc demo_acq demo_view" "evm_frame demo_tron_net demo_evm_rpc demo_acq deSent"
  using demo_tron_frame by (simp_all add: evm_frame_def rpc_frame_def demo_evm_rpc_def demo_acq_def)

lemma demo_receipts_agree: "receipts_agree demo_evm_rpc demo_receipt"
  by (simp add: receipts_agree_def demo_evm_rpc_def)

lemma demo_evm_watched: "watched demo_view ''ETH'' (demo_evm_world ms) = [''a2'' \<mapsto> ''alice'']"
  by (simp add: watched_def hash_at_def fields_at_def keys_def demo_view_def demo_evm_world_def walletsKey_def lastKey_def
      progressKey_def)

lemma demo_evm_wallets: "wallets_ok exact_bloom demo_view ''ETH'' (demo_evm_world ms)"
  by (simp add: wallets_ok_def filter_sound_def MaybeContains_def is_hash_key_def keys_def demo_view_def demo_evm_world_def
      walletsKey_def lastKey_def progressKey_def NewWalletBloom_def)

lemma demo_evm_events:
  "length (ethEvents demo_libs demo_E demo_evm_processor 44 demo_receipt [] [demo_tx] [''a2'' \<mapsto> ''alice'']) = 1"
proof -
  have t: "ToLower (el_addrHex demo_E 2) = ''a2''" by code_simp
  have to': "etTo demo_tx = Some 2" by (simp add: demo_tx_def)
  have f: "getFromAddress demo_E demo_tx = ''A1''" by code_simp
  have n: "\<not> isDirectTokenTransaction demo_evm_processor demo_tx" "supportedType demo_tx" "isPlainNativeTransfer demo_tx"
    "\<not> evmSkipNative (epConfig demo_evm_processor)"
    by (simp_all add: isDirectTokenTransaction_def demo_evm_processor_def demo_tx_def supportedType_def LegacyTxType_def
        isPlainNativeTransfer_def demo_evm_cfg_def demo_evm_def)
  show ?thesis
    by (simp add: ethEvents_def ethTxEvents_def ethNativeEvents_def ethPairEvents_def pairEvents_def f n t demo_receipt_def to')
qed

lemma demo_evm_healthy: "evmHealthy sure_exec demo_view demo_amqp demo_clock demo_tron_net
    demo_evm_rpc demo_acq"
  using sure_redis demo_amqp_healthy
  by (auto simp: evmHealthy_def providers_answer_def demo_evm_rpc_def demo_acq_def demo_tron_net_def time_marshals_def
      Second_def Millisecond_def)

abbreviation sure_S :: "(demo_env, string list, unit) evm_world Storage" where
  "sure_S \<equiv> redisStorage sure_exec exact_bloom"

lemma demo_evm_read:
  "\<exists>f. evmRead sure_exec exact_bloom demo_libs demo_E demo_evm_processor demo_tron_net demo_evm_rpc demo_acq demo_receipt
     (demo_evm_world []) 44 f \<and> length (f [''a2'' \<mapsto> ''alice'']) = 1"
proof -
  let ?g = "getBlockTransactions demo_E demo_evm_processor demo_evm_ops sure_S 44 (demo_evm_world [])"
  define w1 where "w1 = snd ?g"
  let ?d = "GetProcessedTransactions sure_exec (epNetwork demo_evm_processor) 44 w1"
  have b: "fst ?g = Inr \<lparr>ebTransactions = [demo_tx]\<rparr>" by code_simp
  then have g: "?g = (Inr \<lparr>ebTransactions = [demo_tx]\<rparr>, w1)" by (simp add: w1_def prod_eq_iff)
  have "fst ?d = Inr []" unfolding w1_def by code_simp
  then have d: "?d = (Inr [], snd ?d)" by (simp add: prod_eq_iff)
  let ?f = "ethEvents demo_libs demo_E demo_evm_processor 44 demo_receipt [] [demo_tx]"
  have "evmRead sure_exec exact_bloom demo_libs demo_E demo_evm_processor demo_tron_net demo_evm_rpc demo_acq demo_receipt
     (demo_evm_world []) 44 ?f"
    unfolding evmRead_def using g d by (metis ethBlock.select_convs(1))
  with demo_evm_events show ?thesis by blast
qed


definition demo_evm_P :: "(demo_env, string list, unit) evm_world BlockProcessor" where
  "demo_evm_P = evmBlockProcessor demo_libs demo_E demo_evm_processor demo_tron_net demo_evm_rpc demo_acq demo_S
     (rabbitPublisher demo_amqp demo_clock \<lparr>pubExchange = ''bloop''\<rparr>)"

lemma demo_evm_progress: "progress_inv demo_exec demo_view ''ETH'' (demo_evm_world ms)"
proof -
  have "''43'' = FormatUint 43" by code_simp
  then show ?thesis
    by (simp add: progress_inv_def demo_redis_laws last_wf_def lastStored_def keys_def demo_view_def demo_evm_world_def
      hash_at_def fields_at_def is_hash_key_def lastKey_def walletsKey_def progressKey_def)
qed


text \<open>The block is in the cache; reading the handled transactions fails once (\<open>msFail\<close>).\<close>

definition demo_cached_world :: "(demo_env, string list, evm_clients) client_world" where
  "demo_cached_world = \<lparr>
     env = \<lparr>deRedis = \<lparr>msKeys = Map.empty, msFail = [False, False, True]\<rparr>, deSent = []\<rparr>,
     wbloom = NewWalletBloom, client = client (demo_evm_world [])\<rparr>"

theorem cached_block_loses_transactions_witness:
  "\<exists>block w1 err w2 t'' w'. getBlockTransactions demo_E demo_evm_processor demo_evm_ops demo_S 44 demo_cached_world = (Inr block, w1) \<and>
     ebTransactions block = [demo_tx] \<and>
     eth_ProcessBlock demo_libs demo_E demo_evm_processor demo_evm_ops demo_S None 44 (demo_tracker, demo_cached_world) =
       Some (Inl err, (demo_tracker, w2)) \<and>
     eth_ProcessBlock demo_libs demo_E demo_evm_processor demo_evm_ops demo_S None 44 (demo_tracker, w2) =
       Some (Inr True, (t'', w')) \<and> published deSent w' = published deSent demo_cached_world"
proof -
  let ?g = "getBlockTransactions demo_E demo_evm_processor demo_evm_ops demo_S 44 demo_cached_world"
  define w1 where "w1 = snd ?g"
  let ?d = "GetProcessedTransactions demo_exec (epNetwork demo_evm_processor) 44 w1"
  define w2 where "w2 = snd ?d"
  let ?c = "GetCache demo_exec Inr (blockCacheKey (epNetwork demo_evm_processor) 44) w2"
  define w3 where "w3 = snd ?c"
  let ?d2 = "GetProcessedTransactions demo_exec (epNetwork demo_evm_processor) 44 w3"
  have "fst ?g = Inr \<lparr>ebTransactions = [demo_tx]\<rparr>" by code_simp
  then have g: "?g = (Inr \<lparr>ebTransactions = [demo_tx]\<rparr>, w1)" by (simp add: w1_def prod_eq_iff)
  have k: "keys demo_view w1 (blockCacheKey (epNetwork demo_evm_processor) 44) = Some (VString ''{}'')"
    unfolding w1_def by code_simp
  have "fst ?d = Inl (ErrorString ''i/o timeout'')" unfolding w1_def by code_simp
  then have d: "?d = (Inl (ErrorString ''i/o timeout''), w2)" by (simp add: w2_def prod_eq_iff)
  have "fst ?c = Inr ''{}''" unfolding w2_def w1_def by code_simp
  then have c: "?c = (Inr ''{}'', w3)" by (simp add: w3_def prod_eq_iff)
  have "fst ?d2 = Inr []" unfolding w3_def w2_def w1_def by code_simp
  then have d2: "?d2 = (Inr [], snd ?d2)" by (simp add: prod_eq_iff)
  have w: "wallets_ok exact_bloom demo_view (epNetwork demo_evm_processor) demo_cached_world"
    by (simp add: wallets_ok_def filter_sound_def MaybeContains_def is_hash_key_def keys_def demo_view_def
        demo_cached_world_def NewWalletBloom_def)
  from cached_block_loses_transactions [OF demo_services demo_evm_frame _ g _ k d c d2 w,
      of demo_libs None demo_tracker demo_tracker] g
  show ?thesis by (simp add: demo_E_def)
qed

end
