(* ===== verification/Tracker_Manager.thy ===== *)
theory Tracker_Manager
  imports Tracker_Progress Config_Model Tron_Address
begin

text \<open>
  The tracker manager of \<open>internal/blockchain/tracker.go\<close>: which processor runs a network, starting and stopping
  its tracker, and the watch list in the spelling the processors look addresses up in. The constructors of the
  chain packages are the record \<open>chain_builders\<close>; the storage \<open>S\<close> is a value of its Go interface. The manager's
  map holds pointers, so an entry here is the processor with the present state of its tracker. Go visits a map in
  no particular order; the order of a visit is an argument.
\<close>

section \<open>State\<close>

record 'w chain_builders =
  mkEVM :: "EVMConfig \<Rightarrow> 'w BlockProcessor res"
  mkUTXO :: "UTXOConfig \<Rightarrow> 'w BlockProcessor res"
  mkTron :: "TronConfig \<Rightarrow> 'w BlockProcessor res"
  mkSolana :: "SolanaConfig \<Rightarrow> 'w BlockProcessor res"

type_synonym 'w Tracker = "'w BlockProcessor \<times> BaseTracker"

record 'w TrackerManager =
  trackers :: "BlockchainType \<rightharpoonup> 'w Tracker"
  evmConfigs :: "BlockchainType \<rightharpoonup> EVMConfig"
  utxoConfigs :: "BlockchainType \<rightharpoonup> UTXOConfig"
  tmCfg :: Config

text \<open>A later entry for the same network replaces an earlier one.\<close>

definition NewTrackerManager :: "Config \<Rightarrow> 'w TrackerManager" where
  "NewTrackerManager cfg =
     \<lparr>trackers = Map.empty,
      evmConfigs = foldl (\<lambda>m c. m(evmNetwork c \<mapsto> c)) Map.empty (cfgEVM cfg),
      utxoConfigs = foldl (\<lambda>m c. m(utxoNetwork c \<mapsto> c)) Map.empty (cfgUTXO cfg),
      tmCfg = cfg\<rparr>"

definition IsSupported :: "'w TrackerManager \<Rightarrow> BlockchainType \<Rightarrow> bool" where
  "IsSupported tm network \<longleftrightarrow>
     evmConfigs tm network \<noteq> None \<or> utxoConfigs tm network \<noteq> None \<or> network \<in> {Tron, Solana}"

definition GetSupportedNetworks :: "'w TrackerManager \<Rightarrow> BlockchainType list" where
  "GetSupportedNetworks tm =
     [Tron, Solana] @ map evmNetwork (cfgEVM (tmCfg tm)) @ map utxoNetwork (cfgUTXO (tmCfg tm))"

definition GetTracker :: "'w TrackerManager \<Rightarrow> BlockchainType \<Rightarrow> 'w Tracker option" where
  "GetTracker tm network = trackers tm network"

definition GetAllTrackers :: "'w TrackerManager \<Rightarrow> (BlockchainType \<rightharpoonup> 'w Tracker)" where
  "GetAllTrackers tm = trackers tm"

section \<open>Starting and stopping\<close>

definition buildBaseCfg :: "int \<Rightarrow> int \<Rightarrow> int \<Rightarrow> duration \<Rightarrow> BaseTrackerConfig" where
  "buildBaseCfg confirmations batchSize maxConcurrentBlocks requeueDelay' =
     \<lparr>Confirmations = confirmations, BatchSize = batchSize, MaxConcurrentBlocks = maxConcurrentBlocks,
      PollInterval = 15 * Second, CatchupBatchSize = 50, HealthCheckInterval = 30 * Second,
      RequeueDelay = requeueDelay', RealtimeWorkers = 0, CatchupWorkers = 0, RealtimeQueueCap = 0, CatchupQueueCap = 0\<rparr>"

text \<open>The choice of the processor, with the configuration of its tracker.\<close>

definition makeTracker ::
  "'w chain_builders \<Rightarrow> 'w TrackerManager \<Rightarrow> go_time \<Rightarrow> BlockchainType \<Rightarrow> 'w Tracker res" where
  "makeTracker B tm now network =
     (let build = (\<lambda>r label c. case r of
            Inl perr \<Rightarrow> Inl (Wrap (''failed to create '' @ label @ '' processor'') perr)
          | Inr proc \<Rightarrow> Inr (proc, NewBaseTracker c now))
      in case evmConfigs tm network of
        Some cfg \<Rightarrow> build (mkEVM B cfg) network
          (buildBaseCfg (evmConfirmations cfg) (evmBatchSize cfg) (evmMaxConcurrentBlocks cfg) (5 * Second))
      | None \<Rightarrow>
          (case utxoConfigs tm network of
             Some cfg \<Rightarrow> build (mkUTXO B cfg) network
               (buildBaseCfg (utxoConfirmations cfg) (utxoBatchSize cfg) (utxoMaxConcurrentBlocks cfg) (utxoRequeueDelay cfg))
           | None \<Rightarrow>
               if network = Tron then
                 let cfg = cfgTron (tmCfg tm) in build (mkTron B cfg) ''TRON''
                   (buildBaseCfg (trxConfirmations cfg) (trxBatchSize cfg) (trxMaxConcurrentBlocks cfg) (trxRequeueDelay cfg))
               else if network = Solana then
                 let cfg = cfgSolana (tmCfg tm) in build (mkSolana B cfg) ''SOLANA''
                   (buildBaseCfg (solConfirmations cfg) (solBatchSize cfg) (solMaxConcurrentBlocks cfg) (solRequeueDelay cfg))
               else Inl (ErrorString (''unsupported blockchain network: '' @ network))))"

text \<open>\<open>parentDone\<close> says that the context is done already, \<open>now\<close> is the time the tracker is made at.\<close>

definition StartTracker ::
  "'w chain_builders \<Rightarrow> bool \<Rightarrow> go_time \<Rightarrow> BlockchainType \<Rightarrow> 'w TrackerManager \<times> 'w \<Rightarrow>
   error option \<times> 'w TrackerManager \<times> 'w" where
  "StartTracker B parentDone now network s = (case s of (tm, w) \<Rightarrow>
     (if (case trackers tm network of None \<Rightarrow> False | Some (_, t) \<Rightarrow> isRunning t)
      then (Some (ErrorString (''tracker for '' @ network @ '' is already running'')), (tm, w))
      else case makeTracker B tm now network of
        Inl err \<Rightarrow> (Some err, (tm, w))
      | Inr (proc, t) \<Rightarrow> (case bt_Start proc parentDone (t, w) of
          (Some err, (t1, w1)) \<Rightarrow> (Some (Wrap (''failed to start tracker for '' @ network) err), (tm, w1))
        | (None, (t1, w1)) \<Rightarrow> (None, (tm\<lparr>trackers := (trackers tm)(network \<mapsto> (proc, t1))\<rparr>, w1)))))"

definition StopTracker ::
  "BlockchainType \<Rightarrow> 'w TrackerManager \<times> 'w \<Rightarrow> error option \<times> 'w TrackerManager \<times> 'w" where
  "StopTracker network s = (case s of (tm, w) \<Rightarrow>
     (case trackers tm network of
        None \<Rightarrow> (Some (ErrorString (''no tracker found for '' @ network)), (tm, w))
      | Some (proc, t) \<Rightarrow> (case bt_Stop proc (t, w) of
          (Some err, (t1, w1)) \<Rightarrow>
            (Some (Wrap (''failed to stop tracker for '' @ network) err),
             (tm\<lparr>trackers := (trackers tm)(network \<mapsto> (proc, t1))\<rparr>, w1))
        | (None, (t1, w1)) \<Rightarrow> (None, (tm\<lparr>trackers := (trackers tm)(network := None)\<rparr>, w1)))))"

text \<open>The loop of \<open>StopAll\<close>: the errors of the trackers it could not stop, in the order of the visit.\<close>

fun stopEach :: "(BlockchainType \<rightharpoonup> 'w Tracker) \<Rightarrow> BlockchainType list \<Rightarrow> 'w \<Rightarrow> error list \<times> 'w" where
  "stopEach m [] w = ([], w)"
| "stopEach m (network # ns) w =
     (case m network of
        None \<Rightarrow> stopEach m ns w
      | Some (proc, t) \<Rightarrow> (case bt_Stop proc (t, w) of (r, (t1, w1)) \<Rightarrow>
          (case stopEach m ns w1 of (errs, w2) \<Rightarrow>
             (case r of
                None \<Rightarrow> (errs, w2)
              | Some err \<Rightarrow> (Wrap (''failed to stop '' @ network @ '' tracker'') err # errs, w2)))))"

definition StopAll ::
  "BlockchainType list \<Rightarrow> 'w TrackerManager \<times> 'w \<Rightarrow> error option \<times> 'w TrackerManager \<times> 'w" where
  "StopAll order s = (case s of (tm, w) \<Rightarrow>
     (case stopEach (trackers tm) order w of (errs, w1) \<Rightarrow>
        (if errs \<noteq> []
         then Some (ErrorString (''errors stopping trackers: ['' @
                concat (map (\<lambda>e. error_msg e @ '' '') (butlast errs)) @ error_msg (last errs) @ '']''))
         else None, (tm\<lparr>trackers := Map.empty\<rparr>, w1))))"

fun tm_GetStats ::
  "'w Storage \<Rightarrow> go_time \<Rightarrow> (BlockchainType \<rightharpoonup> 'w Tracker) \<Rightarrow> BlockchainType list \<Rightarrow> 'w \<Rightarrow>
   (BlockchainType \<rightharpoonup> TrackerStats) \<times> 'w" where
  "tm_GetStats S now m [] w = (Map.empty, w)"
| "tm_GetStats S now m (network # ns) w =
     (case m network of
        None \<Rightarrow> tm_GetStats S now m ns w
      | Some (proc, t) \<Rightarrow> (case GetStats S proc now (t, w) of (stats, (t1, w1)) \<Rightarrow>
          (case tm_GetStats S now m ns w1 of (rest, w2) \<Rightarrow> (rest(network \<mapsto> stats), w2))))"

section \<open>The watch list\<close>

text \<open>The spelling under which an address is stored.\<close>

definition walletKey :: "'w TrackerManager \<Rightarrow> BlockchainType \<Rightarrow> string \<Rightarrow> string res" where
  "walletKey tm network address =
     (if evmConfigs tm network \<noteq> None then Inr (ToLower address)
      else if network = Tron then
        (case NormalizeAddress address of
           Inl err \<Rightarrow> Inl (Wrap ''invalid TRON address'' err) | Inr normalized \<Rightarrow> Inr normalized)
      else Inr address)"

definition tm_AddWatchedWallet ::
  "'w Storage \<Rightarrow> 'w TrackerManager \<Rightarrow> BlockchainType \<Rightarrow> string \<Rightarrow> string \<Rightarrow> 'w \<Rightarrow> error option \<times> 'w" where
  "tm_AddWatchedWallet S tm network address walletID w =
     (if \<not> IsSupported tm network
      then (Some (ErrorString (''unsupported blockchain network: '' @ network)), w)
      else case walletKey tm network address of
        Inl err \<Rightarrow> (Some err, w)
      | Inr address1 \<Rightarrow> (case trackers tm network of
          Some (proc, t) \<Rightarrow> bt_AddWatchedWallet S proc address1 walletID w
        | None \<Rightarrow> st_AddWatchedWallet S network address1 walletID w))"

definition tm_RemoveWatchedWallet ::
  "'w Storage \<Rightarrow> 'w TrackerManager \<Rightarrow> BlockchainType \<Rightarrow> string \<Rightarrow> 'w \<Rightarrow> error option \<times> 'w" where
  "tm_RemoveWatchedWallet S tm network address w =
     (if \<not> IsSupported tm network
      then (Some (ErrorString (''unsupported blockchain network: '' @ network)), w)
      else case walletKey tm network address of
        Inl err \<Rightarrow> (Some err, w)
      | Inr address1 \<Rightarrow> (case trackers tm network of
          Some (proc, t) \<Rightarrow> bt_RemoveWatchedWallet S proc address1 w
        | None \<Rightarrow> st_RemoveWatchedWallet S network address1 w))"

section \<open>The networks\<close>

lemma foldl_map_upd_dom: "dom (foldl (\<lambda>m c. m(f c \<mapsto> c)) m0 cs) = dom m0 \<union> f ` set cs"
  by (induction cs arbitrary: m0) auto

lemma foldl_map_upd_Some:
  "foldl (\<lambda>m c. m(f c \<mapsto> c)) m0 cs n = Some c \<Longrightarrow> m0 n = Some c \<or> c \<in> set cs \<and> f c = n"
  by (induction cs arbitrary: m0) (fastforce split: if_splits)+

lemma IsSupported_New: "IsSupported (NewTrackerManager cfg) n \<longleftrightarrow> n \<in> set (ConfiguredNetworks cfg)"
  using foldl_map_upd_dom [of evmNetwork Map.empty "cfgEVM cfg"]
    foldl_map_upd_dom [of utxoNetwork Map.empty "cfgUTXO cfg"]
  by (auto simp: IsSupported_def NewTrackerManager_def ConfiguredNetworks_def domIff set_eq_iff)

section \<open>What a tracker's goroutines keep\<close>

text \<open>
  One step of a running tracker: a round of a worker, of the subscription loop, the initial catch-up, a health
  report or a timer of a delayed block.
\<close>

inductive tracker_step :: "'w Storage \<Rightarrow> 'w BlockProcessor \<Rightarrow> 'w state \<Rightarrow> 'w state \<Rightarrow> bool"
  for S :: "'w Storage" and P :: "'w BlockProcessor" where
  worker: "blockWorkerRound S P pick rt s = (goes, s') \<Longrightarrow> tracker_step S P s s'"
| subscription: "blockSubscriptionRound S P picks ev s = (open', s') \<Longrightarrow> tracker_step S P s s'"
| catchup: "performInitialCatchup S P picks s = Some s' \<Longrightarrow> tracker_step S P s s'"
| health: "reportHealth S P s = (rep, s') \<Longrightarrow> tracker_step S P s s'"
| timer: "i < length (requeues t) \<Longrightarrow> tracker_step S P (t, w) (fireRequeue pick i t, w)"

definition same_run :: "BaseTracker \<Rightarrow> BaseTracker \<Rightarrow> bool" where
  "same_run t t' \<longleftrightarrow> config t' = config t \<and> isRunning t' = isRunning t"

text \<open>A processor reports its transactions to the tracker and changes nothing else of it.\<close>

definition polite :: "'w BlockProcessor \<Rightarrow> bool" where
  "polite P \<longleftrightarrow> (\<forall>b t w r t' w'. bp_ProcessBlock P b (t, w) = (r, (t', w')) \<longrightarrow> t' = t\<lparr>processedTxs := processedTxs t'\<rparr>)"

lemma same_run_refl [simp]: "same_run t t"
  by (simp add: same_run_def)

lemma same_run_trans: "same_run t t1 \<Longrightarrow> same_run t1 t2 \<Longrightarrow> same_run t t2"
  by (simp add: same_run_def)

lemma same_run_polite: "polite P \<Longrightarrow> bp_ProcessBlock P b (t, w) = (r, (t', w')) \<Longrightarrow> same_run t t'"
  unfolding polite_def same_run_def
  by (metis BaseTracker.select_convs(1,2) BaseTracker.surjective BaseTracker.update_convs(8))

lemma same_run_enqueueJob: "enqueueJob pick job t = (ok, t') \<Longrightarrow> same_run t t'"
  by (auto simp: enqueueJob_def same_run_def Let_def split: branch.splits if_splits)

lemma same_run_enqueueRange: "enqueueRange pick src bound safe b t = (ok, t') \<Longrightarrow> same_run t t'"
proof (induction pick src bound safe b t arbitrary: ok t' rule: enqueueRange.induct)
  case (1 pick src bound safe b t)
  obtain ok1 t1 where e: "enqueueJob (pick b) \<lparr>jobNumber = b, jobSource = src\<rparr> t = (ok1, t1)"
    by (cases "enqueueJob (pick b) \<lparr>jobNumber = b, jobSource = src\<rparr> t")
  note s = same_run_enqueueJob [OF e]
  show ?case
  proof (cases "b \<le> bound \<and> \<not> b > safe \<and> ok1")
    case True
    then have "same_run t1 t'"
      using 1(1) [of ok1 t1] e 1(2) by (subst (asm) (2) enqueueRange.simps) (auto split: if_splits)
    with s show ?thesis by (rule same_run_trans)
  next
    case False
    then show ?thesis
      using 1(2) e s by (subst (asm) enqueueRange.simps) (auto split: if_splits)
  qed
qed

lemma same_run_catchup:
  assumes c: "catchupBatches pick0 batch0 cur0 safe0 start0 t0 = Some t0'"
  shows "same_run t0 t0'"
proof (rule catchupBatches.raw_induct [where P = "\<lambda>pick batch cur safe start t t'. same_run t t'", OF _ c])
  fix cb pick batch cur safe start t t'
  assume IH: "\<And>pick batch cur safe start t y. cb pick batch cur safe start t = Some y \<Longrightarrow> same_run t y"
    and body: "(if start \<le> cur then let end0 = start + batch - 1; end1 = if end0 > cur then cur else end0 in
      case enqueueRange pick blockSourceCatchup end1 safe start t of (ok, t') \<Rightarrow>
        if \<not> ok then Some t' else if cancelled t' \<or> stopped t' then Some t'
        else cb pick batch cur safe (start + batch) t' else Some t) = Some t'"
  let ?bound = "if cur < start + batch - 1 then cur else start + batch - 1"
  obtain ok t1 where e: "enqueueRange pick blockSourceCatchup ?bound safe start t = (ok, t1)"
    by (cases "enqueueRange pick blockSourceCatchup ?bound safe start t")
  note s = same_run_enqueueRange [OF e]
  from body e have "t' = t \<or> t' = t1 \<or> cb pick batch cur safe (start + batch) t1 = Some t'"
    by (auto simp: Let_def split: if_splits)
  with s IH show "same_run t t'" by (auto intro: same_run_trans)
qed

lemma same_run_safely:
  assumes "polite P" "processBlockSafely S P b (t, w) = (r, (t', w'))"
  shows "same_run t t'"
proof -
  have q: "same_run t (t\<lparr>lastProcessing := b\<rparr>)" "same_run t (requeueBlock b (t\<lparr>lastProcessing := b\<rparr>))"
    by (simp_all add: same_run_def requeueBlock_def)
  obtain rh w1 where h: "bp_GetCurrentBlockHeight P w = (rh, w1)" by (cases "bp_GetCurrentBlockHeight P w")
  obtain rb t2 w2 where b: "bp_ProcessBlock P b (t\<lparr>lastProcessing := b\<rparr>, w1) = (rb, (t2, w2))" by (metis prod_cases3)
  have s2: "same_run t t2" by (rule same_run_trans [OF q(1) same_run_polite [OF assms(1) b]])
  have "same_run t (t2\<lparr>processedBlocks := processedBlocks t2 + 1\<rparr>)" using s2 by (simp add: same_run_def)
  with assms(2) h b q s2 show ?thesis
    by (auto simp: processBlockSafely_def Let_def split: sum.splits if_splits option.splits prod.splits)
qed

lemma same_run_job:
  assumes "polite P" "processBlockJob S P job (t, w) = (t', w')"
  shows "same_run t t'"
proof -
  let ?n = "jobNumber job"
  let ?t1 = "t\<lparr>inFlightBlocks := insert ?n (inFlightBlocks t)\<rparr>"
  obtain q w1 where q: "st_IsBlockProcessed S (bp_GetNetwork P) ?n w = (q, w1)"
    by (cases "st_IsBlockProcessed S (bp_GetNetwork P) ?n w")
  obtain r t2 w2 where p: "processBlockSafely S P ?n (?t1, w1) = (r, (t2, w2))" by (metis prod_cases3)
  from same_run_safely [OF assms(1) p] have "same_run t t2" by (simp add: same_run_def)
  with assms(2) q p show ?thesis
    by (auto simp: processBlockJob_def Let_def releaseInFlight_def same_run_def
        split: sum.splits if_splits option.splits prod.splits)
qed

lemma tracker_step_same_run:
  assumes "tracker_step S P (t, w) (t', w')" "polite P"
  shows "same_run t t'"
  using assms(1)
proof cases
  case (worker pick rt goes)
  let ?ch = "if rt then realtimeCh t else catchupCh t"
  let ?t1 = "(if rt then t\<lparr>realtimeCh := tl ?ch\<rparr> else t\<lparr>catchupCh := tl ?ch\<rparr>)\<lparr>lastDequeued := jobNumber (hd ?ch)\<rparr>"
  obtain t2 w2 where j: "processBlockJob S P (hd ?ch) (?t1, w) = (t2, w2)" by (metis surj_pair)
  from same_run_job [OF assms(2) j] have "same_run t t2" by (simp add: same_run_def split: if_splits)
  moreover from worker j have "t' = t \<or> t' = t2"
    by (auto simp: blockWorkerRound_def Let_def split: branch.splits)
  ultimately show ?thesis by auto
next
  case (subscription picks ev open')
  show ?thesis
  proof (cases ev)
    case (SubBlock n)
    with subscription have "t' = snd (enqueueJob (picks n) \<lparr>jobNumber = n, jobSource = blockSourceRealtime\<rparr> t)" by simp
    then show ?thesis using same_run_enqueueJob surjective_pairing by blast
  next
    case SubTick
    have q: "same_run t (snd (enqueueRange p src bo sa st t))" for p src bo sa st
      using same_run_enqueueRange surjective_pairing by blast
    have "same_run t (t\<lparr>errorCount := errorCount t + 1\<rparr>)" by (simp add: same_run_def)
    with SubTick subscription q show ?thesis
      by (auto simp: performPolling_def Let_def split: sum.splits if_splits prod.splits)
  qed (use subscription in simp)
next
  case (catchup picks)
  then show ?thesis
    by (auto simp: performInitialCatchup_def Let_def dest: same_run_catchup
        split: sum.splits if_splits prod.splits option.splits)
next
  case (health rep)
  then show ?thesis
    by (auto simp: reportHealth_def Let_def same_run_def split: sum.splits if_splits prod.splits)
next
  case (timer i pick)
  then show ?thesis
    by (auto simp: fireRequeue_def Let_def same_run_def split: branch.splits prod.splits)
qed

section \<open>The states of the manager\<close>

text \<open>
  The constructors make a processor of the network they are asked for; the chain packages' theories show it for
  their own.
\<close>

definition builders_ok :: "'w chain_builders \<Rightarrow> bool" where
  "builders_ok B \<longleftrightarrow>
     (\<forall>c P. mkEVM B c = Inr P \<longrightarrow> bp_GetNetwork P = evmNetwork c \<and> polite P) \<and>
     (\<forall>c P. mkUTXO B c = Inr P \<longrightarrow> bp_GetNetwork P = utxoNetwork c \<and> polite P) \<and>
     (\<forall>c P. mkTron B c = Inr P \<longrightarrow> bp_GetNetwork P = Tron \<and> polite P) \<and>
     (\<forall>c P. mkSolana B c = Inr P \<longrightarrow> bp_GetNetwork P = Solana \<and> polite P)"

text \<open>
  Everything that can happen to a manager: the calls of the program, a step of one of its trackers, and
  anything the outside world does.
\<close>

inductive manager_reach ::
  "'w chain_builders \<Rightarrow> 'w Storage \<Rightarrow> Config \<Rightarrow> 'w TrackerManager \<times> 'w \<Rightarrow> bool"
  for B :: "'w chain_builders" and S :: "'w Storage" and cfg :: Config where
  new: "manager_reach B S cfg (NewTrackerManager cfg, w)"
| start: "manager_reach B S cfg s \<Longrightarrow> StartTracker B d now n s = (r, s') \<Longrightarrow> manager_reach B S cfg s'"
| stop: "manager_reach B S cfg s \<Longrightarrow> StopTracker n s = (r, s') \<Longrightarrow> manager_reach B S cfg s'"
| stop_all: "manager_reach B S cfg s \<Longrightarrow> StopAll order s = (r, s') \<Longrightarrow> manager_reach B S cfg s'"
| tracker: "manager_reach B S cfg (tm, w) \<Longrightarrow> trackers tm n = Some (P, t) \<Longrightarrow>
    tracker_step S P (t, w) (t', w') \<Longrightarrow> manager_reach B S cfg (tm\<lparr>trackers := (trackers tm)(n \<mapsto> (P, t'))\<rparr>, w')"
| outside: "manager_reach B S cfg (tm, w) \<Longrightarrow> manager_reach B S cfg (tm, w')"

definition entry_ok :: "'w chain_builders \<Rightarrow> 'w TrackerManager \<Rightarrow> BlockchainType \<Rightarrow> 'w Tracker \<Rightarrow> bool" where
  "entry_ok B tm n e \<longleftrightarrow> (case e of (P, t) \<Rightarrow>
     bp_GetNetwork P = n \<and> polite P \<and> isRunning t \<and>
     (\<exists>now t0. makeTracker B tm now n = Inr (P, t0) \<and> config t = config t0))"

definition manager_ok :: "'w chain_builders \<Rightarrow> Config \<Rightarrow> 'w TrackerManager \<Rightarrow> bool" where
  "manager_ok B cfg tm \<longleftrightarrow>
     evmConfigs tm = evmConfigs (NewTrackerManager cfg :: 'w TrackerManager) \<and>
     utxoConfigs tm = utxoConfigs (NewTrackerManager cfg :: 'w TrackerManager) \<and> tmCfg tm = cfg \<and>
     (\<forall>n e. trackers tm n = Some e \<longrightarrow> entry_ok B tm n e)"

lemma makeTracker_trackers [simp]: "makeTracker B (tm\<lparr>trackers := m\<rparr>) now n = makeTracker B tm now n"
  by (simp add: makeTracker_def cong: option.case_cong if_cong)

lemma entry_ok_trackers [simp]: "entry_ok B (tm\<lparr>trackers := m\<rparr>) n e = entry_ok B tm n e"
  by (simp add: entry_ok_def)

lemma makeTracker_network:
  assumes "builders_ok B" "evmConfigs tm = evmConfigs (NewTrackerManager cfg :: 'w TrackerManager)"
    and "utxoConfigs tm = utxoConfigs (NewTrackerManager cfg :: 'w TrackerManager)"
    and "makeTracker B (tm :: 'w TrackerManager) now n = Inr (P, t)"
  shows "bp_GetNetwork P = n \<and> polite P"
proof -
  have e: "evmConfigs tm n = Some c \<Longrightarrow> evmNetwork c = n" for c
    unfolding assms(2) NewTrackerManager_def by (auto dest!: foldl_map_upd_Some)
  have u: "utxoConfigs tm n = Some c \<Longrightarrow> utxoNetwork c = n" for c
    unfolding assms(3) NewTrackerManager_def by (auto dest!: foldl_map_upd_Some)
  show ?thesis
    using assms(1,4) e u
    by (auto simp: makeTracker_def Let_def builders_ok_def split: option.splits sum.splits if_splits)
qed

lemma bt_Start_running: "bt_Start P d (t, w) = (None, (t', w')) \<Longrightarrow> isRunning t' \<and> config t' = config t"
  by (auto simp: bt_Start_def Let_def split: if_splits prod.splits option.splits)

lemma manager_reach_ok:
  assumes "manager_reach B S cfg s" "builders_ok B"
  shows "manager_ok B cfg (fst s)"
  using assms(1)
proof induction
  case (new w)
  show ?case by (simp add: manager_ok_def NewTrackerManager_def)
next
  case (start s d now n r s')
  obtain tm w where s: "s = (tm, w)" by (cases s)
  have ok: "manager_ok B cfg tm" using start.IH s by simp
  consider "fst s' = tm" | P t t1 where "makeTracker B tm now n = Inr (P, t)" "bt_Start P d (t, w) = (None, (t1, snd s'))"
      "fst s' = tm\<lparr>trackers := (trackers tm)(n \<mapsto> (P, t1))\<rparr>"
    using start(2) unfolding s StartTracker_def by (auto split: if_splits sum.splits prod.splits option.splits)
  then show ?case
  proof cases
    case 2
    have "entry_ok B tm n (P, t1)"
      using makeTracker_network [OF assms(2) _ _ 2(1), of cfg] ok bt_Start_running [OF 2(2)] 2(1)
      unfolding entry_ok_def manager_ok_def by auto
    with ok 2(3) show ?thesis by (auto simp: manager_ok_def)
  qed (use ok in simp)
next
  case (stop s n r s')
  obtain tm w where s: "s = (tm, w)" by (cases s)
  have "fst s' = tm \<or> fst s' = tm\<lparr>trackers := (trackers tm)(n := None)\<rparr>"
    using stop(2) unfolding s StopTracker_def
    by (auto simp: bt_Stop_def Let_def split: if_splits prod.splits option.splits)
  with stop.IH s show ?case by (auto simp: manager_ok_def split: if_splits)
next
  case (stop_all s order r s')
  obtain tm w where s: "s = (tm, w)" by (cases s)
  have "fst s' = tm\<lparr>trackers := Map.empty\<rparr>"
    using stop_all(2) unfolding s StopAll_def by (auto split: prod.splits)
  with stop_all.IH s show ?case by (simp add: manager_ok_def)
next
  case (tracker tm w n P t t' w')
  then have e: "entry_ok B tm n (P, t)" by (simp add: manager_ok_def)
  then have "same_run t t'" using tracker_step_same_run [OF tracker(3)] by (simp add: entry_ok_def)
  with e have "entry_ok B tm n (P, t')" by (auto simp: entry_ok_def same_run_def)
  with tracker.IH show ?case by (auto simp: manager_ok_def)
qed simp

text \<open>
  C??: The manager's state is well formed whatever happens: every entry of its map is a running tracker, made by
  the constructor of the network it is filed under, with that network's configuration (15 s polls, catch-up
  batches of 50). So starting a network that has an entry is always refused: no running tracker is ever replaced
  and lost.
\<close>

theorem manager_entries_run:
  assumes "manager_reach B S cfg (tm, w)" "builders_ok B" "trackers tm n = Some (P, t)"
  shows "isRunning t \<and> bp_GetNetwork P = n \<and> n \<in> set (ConfiguredNetworks cfg) \<and>
    PollInterval (config t) = 15 * Second \<and> CatchupBatchSize (config t) = 50 \<and>
    StartTracker B d now n (tm, w) =
      (Some (ErrorString (''tracker for '' @ n @ '' is already running'')), (tm, w))"
proof -
  have ok: "manager_ok B cfg tm" using manager_reach_ok [OF assms(1,2)] by simp
  then have e: "entry_ok B tm n (P, t)" using assms(3) by (simp add: manager_ok_def)
  then obtain now0 t0 where m: "makeTracker B tm now0 n = Inr (P, t0)" "config t = config t0"
    unfolding entry_ok_def by auto
  have "IsSupported tm n"
    using m(1) by (auto simp: makeTracker_def IsSupported_def split: option.splits if_splits)
  then have "IsSupported (NewTrackerManager cfg :: 'a TrackerManager) n"
    using ok by (simp add: IsSupported_def manager_ok_def)
  moreover have "PollInterval (config t0) = 15 * Second \<and> CatchupBatchSize (config t0) = 50"
    using m(1) by (auto simp: makeTracker_def buildBaseCfg_def NewBaseTracker_def Let_def
        split: option.splits sum.splits if_splits prod.splits)
  ultimately show ?thesis
    using e m(2) assms(3) by (simp add: entry_ok_def IsSupported_New StartTracker_def)
qed

definition demo_builders :: "(mem_server, string list) world chain_builders" where
  "demo_builders =
     \<lparr>mkEVM = (\<lambda>c. Inr (demo_processor\<lparr>bp_GetNetwork := evmNetwork c\<rparr>)),
      mkUTXO = (\<lambda>c. Inr (demo_processor\<lparr>bp_GetNetwork := utxoNetwork c\<rparr>)),
      mkTron = (\<lambda>c. Inr (demo_processor\<lparr>bp_GetNetwork := Tron\<rparr>)), mkSolana = (\<lambda>c. Inl ContextCanceled)\<rparr>"

lemma demo_builders_ok: "builders_ok demo_builders"
  by (auto simp: builders_ok_def demo_builders_def polite_def demo_processor_def IncrementTxCount_def)

theorem manager_entries_run_witness:
  "\<exists>tm w P t. trackers tm ''ETH'' = Some (P, t) \<and> isRunning t \<and> bp_GetNetwork P = ''ETH'' \<and>
     fst (StartTracker demo_builders False 5 ''ETH'' (tm, w)) =
       Some (ErrorString ''tracker for ETH is already running'')"
proof -
  let ?cfg = "normalizeConfig demo_cfg"
  let ?s = "StartTracker demo_builders False 0 ''ETH'' (NewTrackerManager ?cfg, demo_world)"
  define tm w where "tm = fst (snd ?s)" and "w = snd (snd ?s)"
  have "trackers tm ''ETH'' \<noteq> None" unfolding tm_def by code_simp
  then obtain P t where e: "trackers tm ''ETH'' = Some (P, t)" by auto
  have "manager_reach demo_builders (redisStorage mem_exec exact_bloom) ?cfg (tm, w)"
    using manager_reach.start [OF manager_reach.new, where r = "fst ?s" and s' = "(tm, w)"]
    unfolding tm_def w_def prod.collapse by blast
  from manager_entries_run [OF this demo_builders_ok e, of False 5] e show ?thesis
    by (intro exI [of _ tm] exI [of _ w] exI [of _ P] exI [of _ t]) simp
qed

end
