(* ===== verification/Api_Handlers.thy ===== *)
theory Api_Handlers
  imports Tracker_Manager Evm_Processor
begin

text \<open>
  The HTTP API of \<open>internal/api\<close>: its routes and handlers over the tracker manager and the storage, and what a
  client may rely on: the watch list of a network follows the accepted requests, and a wallet is found by the
  chain's processor under every spelling of its address.

  A request is its method, its (clean) path, the first value of its query parameter \<open>network\<close> and the JSON
  document its body starts with, if it does. The encoder sorts the keys of a map. Writing the response cannot be
  observed by the program beyond a log line and is left out, and so is the logging middleware.
\<close>

section \<open>Requests and responses\<close>

record api_request =
  rqMethod :: string
  rqPath :: string
  rqNetwork :: string
  rqJson :: "json option"

datatype api_body = PlainText string | JsonBody json
  | StatsBody "BlockchainType \<rightharpoonup> TrackerStats" | WalletsBody "BlockchainType \<rightharpoonup> (string \<times> string) list"

record api_response =
  rsStatus :: int
  rsBody :: api_body

text \<open>\<open>http.Error\<close> ends the message with a newline; a handler that sets no status answers 200.\<close>

definition http_Error :: "string \<Rightarrow> int \<Rightarrow> api_response" where
  "http_Error msg code = \<lparr>rsStatus = code, rsBody = PlainText (msg @ [CHR 0x0A])\<rparr>"

definition http_OK :: "api_body \<Rightarrow> api_response" where
  "http_OK b = \<lparr>rsStatus = 200, rsBody = b\<rparr>"

definition method_not_allowed :: api_response where
  "method_not_allowed = http_Error ''Method not allowed'' 405"

section \<open>Handlers\<close>

definition HealthCheck :: api_response where
  "HealthCheck = http_OK (JsonBody (JObj [(''service'', JStr ''bloop-blockchain-monitor''), (''status'', JStr ''healthy'')]))"

definition GetTrackerStats ::
  "'w Storage \<Rightarrow> BlockchainType list \<Rightarrow> go_time \<Rightarrow> 'w TrackerManager \<Rightarrow> 'w \<Rightarrow> api_response \<times> 'w" where
  "GetTrackerStats S order now tm w =
     (case tm_GetStats S now (trackers tm) order w of (stats, w1) \<Rightarrow> (http_OK (StatsBody stats), w1))"

text \<open>The anonymous structs of the two wallet requests.\<close>

definition dec_watch :: "json \<Rightarrow> (string \<times> string \<times> string) res" where
  "dec_watch j = rbind (as_obj j) (\<lambda>o'.
     rbind (dec_string (field ''network'' o')) (\<lambda>network.
     rbind (dec_string (field ''address'' o')) (\<lambda>address.
     rbind (dec_string (field ''wallet_id'' o')) (\<lambda>walletID. Inr (network, address, walletID)))))"

definition dec_unwatch :: "json \<Rightarrow> (string \<times> string) res" where
  "dec_unwatch j = rbind (as_obj j) (\<lambda>o'.
     rbind (dec_string (field ''network'' o')) (\<lambda>network.
     rbind (dec_string (field ''address'' o')) (\<lambda>address. Inr (network, address))))"

definition decode_request :: "(json \<Rightarrow> 'a res) \<Rightarrow> api_request \<Rightarrow> 'a res" where
  "decode_request f req = (case rqJson req of None \<Rightarrow> Inl decode_error | Some j \<Rightarrow> f j)"

definition api_AddWatchedWallet ::
  "'w Storage \<Rightarrow> 'w TrackerManager \<Rightarrow> api_request \<Rightarrow> 'w \<Rightarrow> api_response \<times> 'w" where
  "api_AddWatchedWallet S tm req w =
     (if rqMethod req \<noteq> ''POST'' then (method_not_allowed, w)
      else case decode_request dec_watch req of
        Inl err \<Rightarrow> (http_Error ''Invalid JSON'' 400, w)
      | Inr (reqNetwork, reqAddress, reqWalletID) \<Rightarrow>
          if reqNetwork = '''' \<or> reqAddress = '''' \<or> reqWalletID = ''''
          then (http_Error ''Missing required fields: network, address, wallet_id'' 400, w)
          else
            let network = ToUpper reqNetwork in
            if \<not> IsSupported tm network then (http_Error ''Unsupported network'' 400, w)
            else (case tm_AddWatchedWallet S tm network reqAddress reqWalletID w of
                (Some err, w1) \<Rightarrow> (http_Error ''Failed to add wallet'' 500, w1)
              | (None, w1) \<Rightarrow> (http_OK (JsonBody (JObj [
                  (''data'', JObj [(''address'', JStr reqAddress), (''network'', JStr reqNetwork), (''wallet_id'', JStr reqWalletID)]),
                  (''message'', JStr ''Wallet added to watch list''), (''status'', JStr ''success'')])), w1)))"

definition api_RemoveWatchedWallet ::
  "'w Storage \<Rightarrow> 'w TrackerManager \<Rightarrow> api_request \<Rightarrow> 'w \<Rightarrow> api_response \<times> 'w" where
  "api_RemoveWatchedWallet S tm req w =
     (if rqMethod req \<noteq> ''DELETE'' then (method_not_allowed, w)
      else case decode_request dec_unwatch req of
        Inl err \<Rightarrow> (http_Error ''Invalid JSON'' 400, w)
      | Inr (reqNetwork, reqAddress) \<Rightarrow>
          if reqNetwork = '''' \<or> reqAddress = ''''
          then (http_Error ''Missing required fields: network, address'' 400, w)
          else
            let network = ToUpper reqNetwork in
            if \<not> IsSupported tm network then (http_Error ''Unsupported network'' 400, w)
            else (case tm_RemoveWatchedWallet S tm network reqAddress w of
                (Some err, w1) \<Rightarrow> (http_Error ''Failed to remove wallet'' 500, w1)
              | (None, w1) \<Rightarrow> (http_OK (JsonBody (JObj [
                  (''data'', JObj [(''address'', JStr reqAddress), (''network'', JStr reqNetwork)]),
                  (''message'', JStr ''Wallet removed from watch list''), (''status'', JStr ''success'')])), w1)))"

definition api_GetSupportedNetworks :: "'w TrackerManager \<Rightarrow> api_response" where
  "api_GetSupportedNetworks tm =
     http_OK (JsonBody (JObj [(''data'', JObj [(''networks'', JArr (map JStr (GetSupportedNetworks tm)))]),
       (''status'', JStr ''success'')]))"

text \<open>The loop over all networks skips those whose wallets cannot be read.\<close>

fun allWatched :: "'w Storage \<Rightarrow> BlockchainType list \<Rightarrow> (BlockchainType \<rightharpoonup> (string \<times> string) list) \<Rightarrow> 'w \<Rightarrow>
   (BlockchainType \<rightharpoonup> (string \<times> string) list) \<times> 'w" where
  "allWatched S [] m w = (m, w)"
| "allWatched S (network # ns) m w =
     (case st_GetWatchedWallets S network w of
        (Inl err, w1) \<Rightarrow> allWatched S ns m w1
      | (Inr wallets, w1) \<Rightarrow> allWatched S ns (m(network \<mapsto> wallets)) w1)"

definition api_GetWatchedWallets ::
  "'w Storage \<Rightarrow> 'w TrackerManager \<Rightarrow> api_request \<Rightarrow> 'w \<Rightarrow> api_response \<times> 'w" where
  "api_GetWatchedWallets S tm req w =
     (if rqMethod req \<noteq> ''GET'' then (method_not_allowed, w)
      else if rqNetwork req \<noteq> '''' then
        let network = ToUpper (rqNetwork req) in
        if \<not> IsSupported tm network then (http_Error ''Unsupported network'' 400, w)
        else if GetTracker tm network = None then (http_Error ''Tracker not found for network'' 404, w)
        else (case st_GetWatchedWallets S network w of
            (Inl err, w1) \<Rightarrow> (http_Error ''Failed to get watched wallets'' 500, w1)
          | (Inr wallets, w1) \<Rightarrow> (http_OK (WalletsBody [network \<mapsto> wallets]), w1))
      else (case allWatched S (GetSupportedNetworks tm) Map.empty w of
          (allWallets, w1) \<Rightarrow> (http_OK (WalletsBody allWallets), w1)))"

text \<open>The routes of the server.\<close>

definition api_serve ::
  "'w Storage \<Rightarrow> BlockchainType list \<Rightarrow> go_time \<Rightarrow> 'w TrackerManager \<Rightarrow> api_request \<Rightarrow> 'w \<Rightarrow> api_response \<times> 'w" where
  "api_serve S order now tm req w =
     (if rqPath req = ''/health'' then (HealthCheck, w)
      else if rqPath req = ''/api/v1/trackers/stats'' then GetTrackerStats S order now tm w
      else if rqPath req = ''/api/v1/networks'' then (api_GetSupportedNetworks tm, w)
      else if rqPath req = ''/api/v1/wallets/watch'' then api_AddWatchedWallet S tm req w
      else if rqPath req = ''/api/v1/wallets/unwatch'' then api_RemoveWatchedWallet S tm req w
      else if rqPath req = ''/api/v1/wallets'' then api_GetWatchedWallets S tm req w
      else (http_Error ''404 page not found'' 404, w))"

fun api_run ::
  "'w Storage \<Rightarrow> BlockchainType list \<Rightarrow> go_time \<Rightarrow> 'w TrackerManager \<Rightarrow> api_request list \<Rightarrow> 'w \<Rightarrow> api_response list \<times> 'w" where
  "api_run S order now tm [] w = ([], w)"
| "api_run S order now tm (req # reqs) w =
     (case api_serve S order now tm req w of (resp, w1) \<Rightarrow>
        (case api_run S order now tm reqs w1 of (resps, w2) \<Rightarrow> (resp # resps, w2)))"

section \<open>What a request means\<close>

text \<open>The change of the watch list of network \<open>n\<close> a request asks for: at most one.\<close>

definition api_changes :: "'w TrackerManager \<Rightarrow> BlockchainType \<Rightarrow> api_request \<Rightarrow> wallet_op list" where
  "api_changes tm n req =
     (if rqPath req = ''/api/v1/wallets/watch'' \<and> rqMethod req = ''POST'' then
        (case decode_request dec_watch req of
           Inr (net, addr, i) \<Rightarrow>
             (if addr \<noteq> '''' \<and> i \<noteq> '''' \<and> net \<noteq> '''' \<and> ToUpper net = n \<and> IsSupported tm n
              then case walletKey tm n addr of Inr k \<Rightarrow> [OpAdd k i] | Inl _ \<Rightarrow> [] else [])
         | Inl _ \<Rightarrow> [])
      else if rqPath req = ''/api/v1/wallets/unwatch'' \<and> rqMethod req = ''DELETE'' then
        (case decode_request dec_unwatch req of
           Inr (net, addr) \<Rightarrow>
             (if addr \<noteq> '''' \<and> net \<noteq> '''' \<and> ToUpper net = n \<and> IsSupported tm n
              then case walletKey tm n addr of Inr k \<Rightarrow> [OpRemove k] | Inl _ \<Rightarrow> [] else [])
         | Inl _ \<Rightarrow> [])
      else [])"

section \<open>The watch list follows the requests\<close>

lemma walletsKey_inject [simp]: "walletsKey n = walletsKey m \<longleftrightarrow> n = m"
  by (simp add: walletsKey_def)

text \<open>What keeps the wallets of a network: the list and the soundness of its filter.\<close>

definition wallets_kept ::
  "'e redis_exec \<Rightarrow> 'f bloom_lib \<Rightarrow> ('e \<Rightarrow> keyspace) \<Rightarrow> BlockchainType \<Rightarrow> ('e, 'f, 'm) world_scheme \<Rightarrow>
   ('e, 'f, 'm) world_scheme \<Rightarrow> bool" where
  "wallets_kept ex BL view n w w' \<longleftrightarrow>
     (wallet_inv ex BL view n w \<longrightarrow> wallet_inv ex BL view n w' \<and> watched view n w' = watched view n w)"

lemma wallets_kept_refl [simp]: "wallets_kept ex BL view n w w"
  by (simp add: wallets_kept_def)

lemma wallets_kept_trans:
  "wallets_kept ex BL view n w w1 \<Longrightarrow> wallets_kept ex BL view n w1 w2 \<Longrightarrow> wallets_kept ex BL view n w w2"
  by (simp add: wallets_kept_def)

lemma rcmd_wallets_kept:
  assumes "rcmd ex c w = (rep, w')" "cmd_key c \<noteq> walletsKey n \<or> is_read c"
  shows "wallets_kept ex BL view n w w'"
proof -
  have "watched view n w' = watched view n w \<and> wbloom w' = wbloom w" if laws: "redis_laws ex view"
  proof -
    have "keys view w' (walletsKey n) = keys view w (walletsKey n)"
      using assms(2) rcmd_frame [OF laws assms(1)] rcmd_read [OF laws assms(1)] by fastforce
    with rcmd_law [OF laws assms(1)] show ?thesis
      by (simp add: watched_def hash_at_def fields_at_def fun_eq_iff)
  qed
  then show ?thesis by (auto simp: wallets_kept_def wallet_inv_def filter_covers_def)
qed

lemma AddWatched_other:
  assumes "AddWatchedWallet ex BL m a i w = (r, w')" "m \<noteq> n"
  shows "wallets_kept ex BL view n w w'"
proof -
  obtain rep w1 where c: "rcmd ex (HSet (walletsKey m) a i) w = (rep, w1)"
    by (cases "rcmd ex (HSet (walletsKey m) a i) w")
  have "wallets_kept ex BL view n w1 (w1\<lparr>wbloom := bloom_Add BL m a (wbloom w1)\<rparr>)"
    using assms(2) by (auto simp: wallets_kept_def wallet_inv_def filter_covers_def watched_def keys_def)
  with rcmd_wallets_kept [OF c] assms c show ?thesis
    by (auto simp: AddWatchedWallet_def split: option.splits intro: wallets_kept_trans)
qed

lemma RemoveWatched_other:
  "RemoveWatchedWallet ex m a w = (r, w') \<Longrightarrow> m \<noteq> n \<Longrightarrow> wallets_kept ex BL view n w w'"
  by (auto simp: RemoveWatchedWallet_def split: prod.splits intro: rcmd_wallets_kept)

lemma GetWatched_kept: "GetWatchedWallets ex m w = (r, w') \<Longrightarrow> wallets_kept ex BL view n w w'"
  by (auto simp: GetWatchedWallets_def split: prod.splits intro: rcmd_wallets_kept)

lemma GetLast_kept: "GetLastProcessedBlock ex m w = (r, w') \<Longrightarrow> wallets_kept ex BL view n w w'"
  by (auto simp: GetLastProcessedBlock_def split: prod.splits if_splits sum.splits intro: rcmd_wallets_kept)

lemma allWatched_kept: "allWatched (redisStorage ex BL) ns m w = (r, w') \<Longrightarrow> wallets_kept ex BL view n w w'"
proof (induction ns arbitrary: m w)
  case (Cons k ns)
  obtain x w1 where g: "GetWatchedWallets ex k w = (x, w1)" by (cases "GetWatchedWallets ex k w")
  with Cons.prems have "\<exists>m'. allWatched (redisStorage ex BL) ns m' w1 = (r, w')" by (auto split: sum.splits)
  with Cons.IH GetWatched_kept [OF g] show ?case by (blast intro: wallets_kept_trans)
qed simp

text \<open>The height queries of the processors leave the wallets alone.\<close>

definition heights_kept where
  "heights_kept ex BL view tm \<longleftrightarrow>
     (\<forall>m P t w r w' n. trackers tm m = Some (P, t) \<longrightarrow> bp_GetCurrentBlockHeight P w = (r, w') \<longrightarrow>
        wallets_kept ex BL view n w w')"

lemma GetStats_kept:
  assumes "heights_kept ex BL view tm" "trackers tm m = Some (P, t)"
    and "GetStats (redisStorage ex BL) P now (t, w) = (r, (t', w'))"
  shows "wallets_kept ex BL view n w w'"
proof -
  obtain x1 w1 where 1: "GetWatchedWallets ex (bp_GetNetwork P) w = (x1, w1)" by fastforce
  obtain x2 w2 where 2: "GetLastProcessedBlock ex (bp_GetNetwork P) w1 = (x2, w2)" by fastforce
  obtain x3 w3 where 3: "bp_GetCurrentBlockHeight P w2 = (x3, w3)" by fastforce
  have "w' = w3" using assms(3) 1 2 3 by (simp add: GetStats_def Let_def split: prod.splits)
  moreover have "wallets_kept ex BL view n w2 w3" using assms(1,2) 3 unfolding heights_kept_def by blast
  ultimately show ?thesis
    using GetWatched_kept [OF 1] GetLast_kept [OF 2] by (blast intro: wallets_kept_trans)
qed

lemma tm_GetStats_kept:
  assumes "heights_kept ex BL view tm"
  shows "tm_GetStats (redisStorage ex BL) now (trackers tm) order w = (r, w') \<Longrightarrow> wallets_kept ex BL view n w w'"
proof (induction order arbitrary: w r)
  case (Cons m order)
  show ?case
  proof (cases "trackers tm m")
    case None
    with Cons show ?thesis by simp
  next
    case (Some e)
    obtain P t where e: "e = (P, t)" by (cases e)
    obtain x t1 w1 where g: "GetStats (redisStorage ex BL) P now (t, w) = (x, (t1, w1))" by (metis prod_cases3)
    obtain y w2 where y: "tm_GetStats (redisStorage ex BL) now (trackers tm) order w1 = (y, w2)" by fastforce
    have "w' = w2" using Cons.prems Some e g y by simp
    with y have "wallets_kept ex BL view n w1 w'" using Cons.IH by blast
    with GetStats_kept [OF assms Some [unfolded e] g] show ?thesis by (rule wallets_kept_trans)
  qed
qed simp

text \<open>The manager's calls go to the network they name.\<close>

lemma manager_calls:
  assumes "manager_reach B S cfg (tm, w0)" "builders_ok B"
  shows "tm_AddWatchedWallet S tm m a i w = (if \<not> IsSupported tm m
      then (Some (ErrorString (''unsupported blockchain network: '' @ m)), w)
      else case walletKey tm m a of Inl err \<Rightarrow> (Some err, w) | Inr k \<Rightarrow> st_AddWatchedWallet S m k i w)"
    and "tm_RemoveWatchedWallet S tm m a w = (if \<not> IsSupported tm m
      then (Some (ErrorString (''unsupported blockchain network: '' @ m)), w)
      else case walletKey tm m a of Inl err \<Rightarrow> (Some err, w) | Inr k \<Rightarrow> st_RemoveWatchedWallet S m k w)"
proof -
  have "bp_GetNetwork P = m" if "trackers tm m = Some (P, t)" for P t
    using manager_reach_ok [OF assms] that by (auto simp: manager_ok_def entry_ok_def)
  then show "tm_AddWatchedWallet S tm m a i w = (if \<not> IsSupported tm m
      then (Some (ErrorString (''unsupported blockchain network: '' @ m)), w)
      else case walletKey tm m a of Inl err \<Rightarrow> (Some err, w) | Inr k \<Rightarrow> st_AddWatchedWallet S m k i w)"
    and "tm_RemoveWatchedWallet S tm m a w = (if \<not> IsSupported tm m
      then (Some (ErrorString (''unsupported blockchain network: '' @ m)), w)
      else case walletKey tm m a of Inl err \<Rightarrow> (Some err, w) | Inr k \<Rightarrow> st_RemoveWatchedWallet S m k w)"
    by (auto simp: tm_AddWatchedWallet_def tm_RemoveWatchedWallet_def bt_AddWatchedWallet_def
        bt_RemoveWatchedWallet_def split: option.split sum.split)
qed

definition follows_ops where
  "follows_ops ex BL view n ops w w' \<longleftrightarrow>
     (wallet_inv ex BL view n w \<longrightarrow> wallet_inv ex BL view n w' \<and> watched view n w' = wallet_map ops (watched view n w))"

lemma kept_follows: "wallets_kept ex BL view n w w' \<Longrightarrow> follows_ops ex BL view n [] w w'"
  by (simp add: wallets_kept_def follows_ops_def)

lemma api_watch_step:
  assumes R: "manager_reach B (redisStorage ex BL) cfg (tm, w0)" "builders_ok B"
    and p: "rqPath req = ''/api/v1/wallets/watch''"
    and s: "api_AddWatchedWallet (redisStorage ex BL) tm req w = (resp, w')" "rsStatus resp \<noteq> 500"
  shows "follows_ops ex BL view n (api_changes tm n req) w w'"
proof (cases "\<exists>net a i. rqMethod req = ''POST'' \<and> decode_request dec_watch req = Inr (net, a, i) \<and>
    net \<noteq> [] \<and> a \<noteq> [] \<and> i \<noteq> [] \<and> IsSupported tm (ToUpper net)")
  case False
  then have "w' = w" "api_changes tm n req = []"
    using s(1) p by (auto simp: api_AddWatchedWallet_def api_changes_def Let_def split: sum.splits if_splits)
  then show ?thesis by (simp add: follows_ops_def)
next
  case True
  then obtain net a i where d: "rqMethod req = ''POST''" "decode_request dec_watch req = Inr (net, a, i)"
    "net \<noteq> []" "a \<noteq> []" "i \<noteq> []" "IsSupported tm (ToUpper net)" by blast
  obtain k where k: "walletKey tm (ToUpper net) a = Inr k" and c: "AddWatchedWallet ex BL (ToUpper net) k i w = (None, w')"
    using s d by (auto simp: api_AddWatchedWallet_def Let_def manager_calls [OF R] http_Error_def
        split: sum.splits option.splits prod.splits)
  have ch: "api_changes tm n req = (if ToUpper net = n then [OpAdd k i] else [])"
    using d p k by (auto simp: api_changes_def)
  show ?thesis
  proof (cases "ToUpper net = n")
    case True
    with ch c AddWatched_correct [of ex BL view n w k i w'] show ?thesis by (auto simp: follows_ops_def fun_upd_def)
  next
    case False
    from kept_follows [OF AddWatched_other [OF c False]] ch False show ?thesis by simp
  qed
qed

lemma api_unwatch_step:
  assumes R: "manager_reach B (redisStorage ex BL) cfg (tm, w0)" "builders_ok B"
    and p: "rqPath req = ''/api/v1/wallets/unwatch''"
    and s: "api_RemoveWatchedWallet (redisStorage ex BL) tm req w = (resp, w')" "rsStatus resp \<noteq> 500"
  shows "follows_ops ex BL view n (api_changes tm n req) w w'"
proof (cases "\<exists>net a. rqMethod req = ''DELETE'' \<and> decode_request dec_unwatch req = Inr (net, a) \<and>
    net \<noteq> [] \<and> a \<noteq> [] \<and> IsSupported tm (ToUpper net)")
  case False
  then have "w' = w" "api_changes tm n req = []"
    using s(1) p by (auto simp: api_RemoveWatchedWallet_def api_changes_def Let_def split: sum.splits if_splits)
  then show ?thesis by (simp add: follows_ops_def)
next
  case True
  then obtain net a where d: "rqMethod req = ''DELETE''" "decode_request dec_unwatch req = Inr (net, a)"
    "net \<noteq> []" "a \<noteq> []" "IsSupported tm (ToUpper net)" by blast
  obtain k where k: "walletKey tm (ToUpper net) a = Inr k" and c: "RemoveWatchedWallet ex (ToUpper net) k w = (None, w')"
    using s d by (auto simp: api_RemoveWatchedWallet_def Let_def manager_calls [OF R] http_Error_def
        split: sum.splits option.splits prod.splits)
  have ch: "api_changes tm n req = (if ToUpper net = n then [OpRemove k] else [])"
    using d p k by (auto simp: api_changes_def)
  show ?thesis
  proof (cases "ToUpper net = n")
    case True
    with ch c RemoveWatched_correct [of ex BL view n w k None w'] show ?thesis by (auto simp: follows_ops_def fun_upd_def)
  next
    case False
    from kept_follows [OF RemoveWatched_other [OF c False]] ch False show ?thesis by simp
  qed
qed

lemma api_serve_step:
  assumes R: "manager_reach B (redisStorage ex BL) cfg (tm, w0)" "builders_ok B" "heights_kept ex BL view tm"
    and s: "api_serve (redisStorage ex BL) order now tm req w = (resp, w')" "rsStatus resp \<noteq> 500"
  shows "follows_ops ex BL view n (api_changes tm n req) w w'"
proof -
  consider (watch) "rqPath req = ''/api/v1/wallets/watch''" | (unwatch) "rqPath req = ''/api/v1/wallets/unwatch''"
    | (other) "rqPath req \<noteq> ''/api/v1/wallets/watch''" "rqPath req \<noteq> ''/api/v1/wallets/unwatch''" by blast
  then show ?thesis
  proof cases
    case watch
    with s show ?thesis by (intro api_watch_step [OF R(1,2)]) (simp_all add: api_serve_def)
  next
    case unwatch
    with s show ?thesis by (intro api_unwatch_step [OF R(1,2)]) (simp_all add: api_serve_def)
  next
    case other
    then have "wallets_kept ex BL view n w w'"
      using s(1) tm_GetStats_kept [OF R(3)] allWatched_kept GetWatched_kept
      by (auto simp: api_serve_def GetTrackerStats_def api_GetWatchedWallets_def Let_def
          split: if_splits prod.splits sum.splits)
    with other show ?thesis by (simp add: api_changes_def kept_follows)
  qed
qed

lemma wallet_map_append: "wallet_map (xs @ ys) m = wallet_map ys (wallet_map xs m)"
  by (induction xs m rule: wallet_map.induct) (simp_all add: fun_upd_def)

lemma api_run_watched:
  assumes R: "manager_reach B (redisStorage ex BL) cfg (tm, w0)" "builders_ok B" "heights_kept ex BL view tm"
  shows "api_run (redisStorage ex BL) order now tm reqs w = (resps, w') \<Longrightarrow> \<forall>r \<in> set resps. rsStatus r \<noteq> 500 \<Longrightarrow>
    follows_ops ex BL view n (concat (map (api_changes tm n) reqs)) w w'"
proof (induction reqs arbitrary: w resps)
  case (Cons req reqs)
  obtain resp w1 where a: "api_serve (redisStorage ex BL) order now tm req w = (resp, w1)" by fastforce
  obtain resps1 w2 where b: "api_run (redisStorage ex BL) order now tm reqs w1 = (resps1, w2)" by fastforce
  have e: "resps = resp # resps1" "w' = w2" using Cons.prems(1) a b by simp_all
  from api_serve_step [OF R a] Cons.IH [OF b [folded e(2)]] Cons.prems(2) e
  show ?case by (auto simp: follows_ops_def wallet_map_append)
qed (simp add: follows_ops_def)

section \<open>Properties of the API\<close>

text \<open>
  C??: The API implements the watch list. Over any sequence of requests served without a failure of the
  storage (no answer is 500), whatever the requests are and whatever networks they name, a lookup of a network's
  wallet answers as a plain map does to which the accepted additions and removals were applied in order: requests
  with a wrong method, malformed or incomplete bodies, unsupported networks or invalid addresses change nothing,
  and no request changes another network's list.
\<close>

theorem api_requests_refine_map:
  assumes "manager_reach B (redisStorage ex BL) cfg (tm, w0)" "builders_ok B" "heights_kept ex BL view tm"
    and "wallet_inv ex BL view n w" "api_run (redisStorage ex BL) order now tm reqs w = (resps, w1)"
    and "\<forall>r \<in> set resps. rsStatus r \<noteq> 500" "IsWatchedWallet ex BL n k w1 = (Inr v, w2)"
  shows "v = (case wallet_map (concat (map (api_changes tm n) reqs)) (watched view n w) k of
    None \<Rightarrow> ('''', False) | Some i \<Rightarrow> (i, True))"
proof -
  from api_run_watched [OF assms(1,2,3,5,6)] assms(4)
  have "wallet_inv ex BL view n w1" "watched view n w1 = wallet_map (concat (map (api_changes tm n) reqs)) (watched view n w)"
    by (simp_all add: follows_ops_def)
  with ws.isWatched_val assms(7) show ?thesis by (metis st_redis(3))
qed

text \<open>
  C??: A wallet added through the API is found by the chain's processor under every spelling of its address: the
  Ethereum processor finds it whatever the case of the address in the block or in the request, and the key the
  TRON processor looks up for an account is the one its wallet is stored under, whichever of the spellings
  (Base58, hexadecimal) the client used.
\<close>

theorem api_wallet_any_spelling:
  assumes "manager_reach B (redisStorage ex BL) cfg (tm, w0)" "builders_ok B" "heights_kept ex BL view tm"
    and "wallet_inv ex BL view n w" "n = ToUpper net"
    and "rqPath req = ''/api/v1/wallets/watch''" "decode_request dec_watch req = Inr (net, a, i)"
    and "api_serve (redisStorage ex BL) order now tm req w = (resp, w1)" "rsStatus resp = 200"
  shows "(\<forall>b p v w2. evmConfigs tm n \<noteq> None \<and> ToLower b = ToLower a \<and> epNetwork p = n \<and>
        eth_isWatchedWallet p (redisStorage ex BL) b w1 = (Inr v, w2) \<longrightarrow> v = (i, True)) \<and>
    (\<forall>b h k v w2. n = Tron \<and> evmConfigs tm n = None \<and> addressToHex41 a = Inr h \<and> addressToHex41 b = Inr h \<and>
        NormalizeAddress b = Inr k \<and> IsWatchedWallet ex BL n k w1 = (Inr v, w2) \<longrightarrow> v = (i, True))"
proof -
  have s: "follows_ops ex BL view n (api_changes tm n req) w w1"
    by (rule api_serve_step [OF assms(1,2,3,8)]) (use assms(9) in simp)
  have acc: "rqMethod req = ''POST'' \<and> net \<noteq> [] \<and> a \<noteq> [] \<and> i \<noteq> [] \<and> IsSupported tm n"
    using assms(5-9) by (auto simp: api_serve_def api_AddWatchedWallet_def method_not_allowed_def http_Error_def
        Let_def split: if_splits)
  have found: "v = (i, True)" if k: "walletKey tm n a = Inr k" and q: "IsWatchedWallet ex BL n k w1 = (Inr v, w2)" for k v w2
  proof -
    have "api_changes tm n req = [OpAdd k i]"
      using acc assms(5-7) k by (simp add: api_changes_def)
    with s assms(4) have "wallet_inv ex BL view n w1" "watched view n w1 k = Some i"
      by (simp_all add: follows_ops_def)
    with IsWatched_correct [OF _ _ q, of view] show ?thesis
      by (simp add: wallet_inv_def filter_covers_sound)
  qed
  have "v = (i, True)" if "evmConfigs tm n \<noteq> None" "ToLower b = ToLower a" "epNetwork p = n"
      "eth_isWatchedWallet p (redisStorage ex BL) b w1 = (Inr v, w2)" for b p v w2
    by (rule found) (use that in \<open>simp_all add: eth_isWatchedWallet_def walletKey_def\<close>)
  moreover have "v = (i, True)" if "n = Tron" "evmConfigs tm n = None" "addressToHex41 a = Inr h"
      "addressToHex41 b = Inr h" "NormalizeAddress b = Inr k" "IsWatchedWallet ex BL n k w1 = (Inr v, w2)" for b h k v w2
    by (rule found [OF _ that(6)])
      (use that in \<open>simp_all add: walletKey_def NormalizeAddress_def normalizeTronAddress_def\<close>)
  ultimately show ?thesis by blast
qed

text \<open>Two clients' requests for the examples, with the addresses in capitals.\<close>

definition demo_watch :: api_request where
  "demo_watch = \<lparr>rqMethod = ''POST'', rqPath = ''/api/v1/wallets/watch'', rqNetwork = '''',
     rqJson = Some (JObj [(''network'', JStr ''eth''), (''address'', JStr ''0xBB''), (''wallet_id'', JStr ''bob'')])\<rparr>"

definition demo_unwatch :: api_request where
  "demo_unwatch = \<lparr>rqMethod = ''DELETE'', rqPath = ''/api/v1/wallets/unwatch'', rqNetwork = '''',
     rqJson = Some (JObj [(''network'', JStr ''ETH''), (''address'', JStr ''0xAA'')])\<rparr>"

definition demo_tm :: "(mem_server, string list) world TrackerManager" where
  "demo_tm = NewTrackerManager (normalizeConfig demo_cfg)"

abbreviation "demo_redis \<equiv> redisStorage mem_exec exact_bloom"

lemma demo_tm_reach: "manager_reach demo_builders demo_redis (normalizeConfig demo_cfg) (demo_tm, demo_world)"
  unfolding demo_tm_def by (rule manager_reach.new)

lemma demo_tm_heights: "heights_kept mem_exec exact_bloom msKeys demo_tm"
  by (simp add: heights_kept_def demo_tm_def NewTrackerManager_def)

theorem api_requests_refine_map_witness:
  "case api_run demo_redis [] 0 demo_tm [demo_watch, demo_unwatch] demo_world of (resps, w1) \<Rightarrow>
     map rsStatus resps = [200, 200] \<and>
     fst (IsWatchedWallet mem_exec exact_bloom ''ETH'' ''0xbb'' w1) = Inr (''bob'', True) \<and>
     (''bob'', True) = (case wallet_map (concat (map (api_changes demo_tm ''ETH'') [demo_watch, demo_unwatch]))
        (watched msKeys ''ETH'' demo_world) ''0xbb'' of None \<Rightarrow> ('''', False) | Some i \<Rightarrow> (i, True))"
proof -
  let ?r = "api_run demo_redis [] 0 demo_tm [demo_watch, demo_unwatch] demo_world"
  define w1 where "w1 = snd ?r"
  have s: "map rsStatus (fst ?r) = [200, 200]" by code_simp
  have q: "fst (IsWatchedWallet mem_exec exact_bloom ''ETH'' ''0xbb'' w1) = Inr (''bob'', True)"
    unfolding w1_def by code_simp
  have r: "?r = (fst ?r, w1)" by (simp add: w1_def)
  have "list_all (\<lambda>r. rsStatus r \<noteq> 500) (fst ?r)" by code_simp
  then have "\<forall>r \<in> set (fst ?r). rsStatus r \<noteq> 500" by (simp only: list_all_iff)
  from api_requests_refine_map [OF demo_tm_reach demo_builders_ok demo_tm_heights demo_world_inv(2) r this
      pair_fst [OF q]]
  show ?thesis using s q r by (simp add: case_prod_beta w1_def)
qed

theorem api_wallet_any_spelling_witness:
  "case api_serve demo_redis [] 0 demo_tm demo_watch demo_world of (resp, w1) \<Rightarrow>
     rsStatus resp = 200 \<and>
     fst (eth_isWatchedWallet \<lparr>epConfig = demo_evm, epTokenContracts = [], epNativeCurrency = ''ETH'',
        epNetwork = ''ETH''\<rparr> demo_redis ''0Xbb'' w1) = Inr (''bob'', True)"
proof -
  let ?p = "\<lparr>epConfig = demo_evm, epTokenContracts = [], epNativeCurrency = ''ETH'', epNetwork = ''ETH''\<rparr>"
  let ?r = "api_serve demo_redis [] 0 demo_tm demo_watch demo_world"
  define w1 where "w1 = snd ?r"
  let ?q = "eth_isWatchedWallet ?p demo_redis ''0Xbb'' w1"
  have s: "rsStatus (fst ?r) = 200" by code_simp
  have r: "?r = (fst ?r, w1)" by (simp add: w1_def)
  have d: "''ETH'' = ToUpper ''eth''" "rqPath demo_watch = ''/api/v1/wallets/watch''"
    "decode_request dec_watch demo_watch = Inr (''eth'', ''0xBB'', ''bob'')"
    "evmConfigs demo_tm ''ETH'' \<noteq> None" "ToLower ''0Xbb'' = ToLower ''0xBB''" by code_simp+
  have "\<not> isl (fst ?q)" unfolding w1_def by code_simp
  then have q: "?q = (Inr (projr (fst ?q)), snd ?q)" by (simp add: prod_eq_iff)
  from api_wallet_any_spelling [OF demo_tm_reach demo_builders_ok demo_tm_heights demo_world_inv(2) d(1-3) r s]
  have "projr (fst ?q) = (''bob'', True)" using q d(4,5) by (metis EthereumProcessor.select_convs(4))
  then have "fst ?q = Inr (''bob'', True)" using q by (metis fst_conv)
  then show ?thesis using s unfolding w1_def case_prod_beta by (rule conjI [rotated])
qed

end
