(* ===== verification/Go_Float.thy ===== *)
theory Go_Float
  imports Bloop_Prelude "HOL-Library.Log_Nat"
begin

text \<open>
  The part of Go's \<open>float64\<close> the Bitcoin code computes with: amounts in bitcoin as quotients of satoshi by
  \<open>1e8\<close>, their sums, and their text with eight decimals. A finite \<open>float64\<close> is the rational it denotes; every
  operation rounds the exact result to 53 significant bits, ties to even. An \<open>int64\<close> divided by \<open>1e8\<close> is zero or
  at least \<open>1e-8\<close> in size and the sums stay below \<open>2^63\<close>, so there are no subnormal and no infinite results.

  The lemmas bound the rounding errors: the text of an amount, and of a sum of amounts, is exact while the number
  of rounding steps times the total in satoshi stays below a limit.
\<close>

section \<open>Rounding\<close>

definition round_even :: "rat \<Rightarrow> int" where
  "round_even x = (let f = \<lfloor>x\<rfloor>; d = x - of_int f in
     if d < 1 / 2 then f else if d > 1 / 2 then f + 1 else if even f then f else f + 1)"

text \<open>The exponent \<open>e\<close> of a positive \<open>x\<close>: \<open>2^e \<le> x < 2^(e + 1)\<close>.\<close>

definition exponent :: "rat \<Rightarrow> int" where
  "exponent x = (case quotient_of x of (a, b) \<Rightarrow>
     let e = bitlen a - bitlen b in if 2 powi e \<le> x then e else e - 1)"

definition round_pos :: "rat \<Rightarrow> rat" where
  "round_pos x = (let q = exponent x - 52 in of_int (round_even (x / 2 powi q)) * 2 powi q)"

definition float64 :: "rat \<Rightarrow> rat" where
  "float64 x = (if x = 0 then 0 else if x < 0 then - round_pos (- x) else round_pos x)"

text \<open>The verb \<open>%.8f\<close>: the exact value rounded to eight decimals.\<close>

definition pad_left :: "nat \<Rightarrow> string \<Rightarrow> string" where
  "pad_left n s = replicate (n - length s) (CHR ''0'') @ s"

definition format8 :: "rat \<Rightarrow> string" where
  "format8 x = (let n = nat (round_even (\<bar>x\<bar> * 10 ^ 8)) in
     (if x < 0 then ''-'' else '''') @ dec (n div 10 ^ 8) @ ''.'' @ pad_left 8 (dec (n mod 10 ^ 8)))"

text \<open>To evaluate it.\<close>

lemma round_even_nonneg: "0 \<le> x \<Longrightarrow> 0 \<le> round_even x"
  by (auto simp: round_even_def Let_def)

lemma format8_eval [code]:
  "format8 x = (let n = round_even (\<bar>x\<bar> * 10 ^ 8) in
     (if x < 0 then ''-'' else '''') @ decz (n div 10 ^ 8) @ ''.'' @ pad_left 8 (decz (n mod 10 ^ 8)))"
proof -
  have n: "0 \<le> round_even (\<bar>x\<bar> * 10 ^ 8)" by (rule round_even_nonneg) simp
  then show ?thesis
    by (simp add: format8_def Let_def dec_decz [symmetric] nat_div_distrib nat_mod_distrib pos_imp_zdiv_nonneg_iff)
qed

text \<open>An amount in satoshi as a \<open>float64\<close> in bitcoin, \<open>float64(v) / 1e8\<close>.\<close>

definition btc_amount :: "int \<Rightarrow> rat" where
  "btc_amount v = float64 (float64 (of_int v) / 10 ^ 8)"

section \<open>Errors of rounding\<close>

lemma round_even_err: "\<bar>of_int (round_even x) - x\<bar> \<le> 1 / 2"
proof -
  have "0 \<le> x - of_int \<lfloor>x\<rfloor>" "x - of_int \<lfloor>x\<rfloor> < 1" by linarith+
  then show ?thesis unfolding round_even_def Let_def by (auto simp: abs_le_iff)
qed

lemma round_even_near: "\<bar>x - of_int n\<bar> < 1 / 2 \<Longrightarrow> round_even x = n"
proof -
  assume a: "\<bar>x - of_int n\<bar> < 1 / 2"
  have "\<bar>of_int (round_even x) - (of_int n :: rat)\<bar> < 1" using a round_even_err [of x] by linarith
  then have "\<bar>round_even x - n\<bar> < 1" by (metis of_int_abs of_int_diff of_int_less_1_iff)
  then show ?thesis by simp
qed

lemma round_even_int [simp]: "round_even (of_int n) = n"
  by (rule round_even_near) simp

lemma exponent_le:
  assumes "0 < x"
  shows "2 powi exponent x \<le> x"
proof -
  obtain a b where q: "quotient_of x = (a, b)" by (cases "quotient_of x")
  have b: "0 < b" using quotient_of_denom_pos [OF q] .
  have x: "x = of_int a / of_int b" using quotient_of_div [OF q] .
  have a: "0 < a" using assms b unfolding x by (simp add: zero_less_divide_iff)
  let ?e = "bitlen a - bitlen b"
  have A: "2 powi (bitlen a - 1) \<le> (of_int a :: rat)" 
  proof -
    have "1 \<le> bitlen a" using a by (simp add: bitlen_ge_iff_power)
    have "2 ^ nat (bitlen a - 1) \<le> a" using bitlen_bounds [of a] a by simp
    then have "(of_int (2 ^ nat (bitlen a - 1)) :: rat) \<le> of_int a" by (simp only: of_int_le_iff)
    then show ?thesis using \<open>1 \<le> bitlen a\<close> by (simp add: power_int_def)
  qed
  have B: "(of_int b :: rat) \<le> 2 powi bitlen b"
  proof -
    have "b \<le> 2 ^ nat (bitlen b)" using bitlen_bounds [of b] b by simp
    then have "(of_int b :: rat) \<le> of_int (2 ^ nat (bitlen b))" by (simp only: of_int_le_iff)
    then show ?thesis by (simp add: power_int_def bitlen_nonneg)
  qed
  have "2 powi (?e - 1) = 2 powi (bitlen a - 1) / (2 :: rat) powi bitlen b"
    by (simp add: power_int_diff)
  also have "\<dots> \<le> of_int a / of_int b"
    by (rule frac_le) (use A B b a in auto)
  finally have "2 powi (?e - 1) \<le> x" unfolding x .
  then show ?thesis by (simp add: exponent_def q Let_def)
qed

lemma round_pos_err:
  assumes "0 < x"
  shows "\<bar>round_pos x - x\<bar> \<le> x / 2 ^ 53"
proof -
  define q where "q = exponent x - 52"
  define s :: rat where "s = 2 powi q"
  have s: "0 < s" by (simp add: s_def)
  have "2 powi (q + 52) \<le> x" using exponent_le [OF assms] by (simp add: q_def)
  then have le: "s * 2 ^ 52 \<le> x" by (simp add: s_def power_int_add)
  have "\<bar>round_pos x - x\<bar> = \<bar>of_int (round_even (x / s)) - x / s\<bar> * s"
    using s by (simp add: round_pos_def Let_def q_def [symmetric] s_def [symmetric] abs_mult_pos' algebra_simps
        flip: abs_mult_pos)
  also have "\<dots> \<le> 1 / 2 * s" by (rule mult_right_mono [OF round_even_err]) (use s in simp)
  also have "\<dots> \<le> x / 2 ^ 53" using le by simp
  finally show ?thesis .
qed

lemma float64_err: "\<bar>float64 x - x\<bar> \<le> \<bar>x\<bar> / 2 ^ 53"
proof -
  consider "x = 0" | "0 < x" | "x < 0" by linarith
  then show ?thesis
  proof cases
    case 3
    with round_pos_err [of "- x"] have "\<bar>round_pos (- x) - (- x)\<bar> \<le> - x / 2 ^ 53" by simp
    moreover have "\<bar>- round_pos (- x) - x\<bar> = \<bar>round_pos (- x) - (- x)\<bar>" by simp
    ultimately show ?thesis using 3 by (simp add: float64_def)
  qed (use round_pos_err [of x] in \<open>auto simp: float64_def\<close>)
qed

text \<open>Integers of up to 53 bits are floats themselves.\<close>

lemma float64_int:
  assumes "\<bar>v\<bar> < 2 ^ 53"
  shows "float64 (of_int v) = of_int v"
proof -
  have main: "round_pos (of_int n) = of_int n" if n: "0 < n" "n < 2 ^ 53" for n :: int
  proof -
    let ?e = "exponent (of_int n)"
    have "2 powi ?e \<le> (of_int n :: rat)" using exponent_le [of "of_int n"] n by simp
    also have "\<dots> < 2 powi 53"
    proof -
      have "(of_int n :: rat) < of_int (2 ^ 53)" using n(2) by (simp only: of_int_less_iff)
      then show ?thesis by simp
    qed
    finally have "?e < 53" by (metis not_less power_int_increasing one_le_numeral)
    then have "?e - 52 = - int (nat (52 - ?e))" by simp
    then obtain m where k: "?e - 52 = - int m" by blast
    have "of_int n / (2 :: rat) powi (- int m) = of_int (n * 2 ^ m)"
      by (simp add: power_int_minus divide_inverse)
    then have "round_even (of_int n / (2 :: rat) powi (- int m)) = n * 2 ^ m"
      by (simp only: round_even_int)
    then show ?thesis
      unfolding round_pos_def Let_def k by (simp add: power_int_minus)
  qed
  consider "v = 0" | "0 < v" | "v < 0" by linarith
  then show ?thesis
  proof cases
    case 3
    with main [of "- v"] assms show ?thesis by (simp add: float64_def)
  qed (use main [of v] assms in \<open>auto simp: float64_def\<close>)
qed

section \<open>Amounts and their sums\<close>

text \<open>The exact text of \<open>v\<close> satoshi in bitcoin.\<close>

definition sat_text :: "nat \<Rightarrow> string" where
  "sat_text v = dec (v div 10 ^ 8) @ ''.'' @ pad_left 8 (dec (v mod 10 ^ 8))"

lemma format8_near:
  assumes "\<bar>x * 10 ^ 8 - of_nat v\<bar> < 1 / 2" "0 \<le> x"
  shows "format8 x = sat_text v"
proof -
  have "round_even (\<bar>x\<bar> * 10 ^ 8) = int v"
    by (rule round_even_near) (use assms in simp)
  with assms(2) show ?thesis by (simp add: format8_def sat_text_def)
qed

lemma btc_amount_err:
  assumes "\<bar>v\<bar> < 2 ^ 53"
  shows "\<bar>btc_amount v - of_int v / 10 ^ 8\<bar> \<le> \<bar>of_int v\<bar> / 10 ^ 8 / 2 ^ 53"
  using float64_err [of "of_int v / 10 ^ 8"] by (simp add: btc_amount_def float64_int [OF assms])

lemma btc_amount_nonneg:
  assumes "0 \<le> v" "v < 2 ^ 53"
  shows "0 \<le> btc_amount v"
proof -
  have "\<bar>of_int v\<bar> / 10 ^ 8 / 2 ^ 53 \<le> (of_int v :: rat) / 10 ^ 8" using assms by (simp add: field_simps)
  moreover have "\<bar>v\<bar> < 2 ^ 53" using assms by simp
  ultimately show ?thesis using btc_amount_err [of v] by linarith
qed

definition float_sum :: "rat list \<Rightarrow> rat" where
  "float_sum xs = foldl (\<lambda>s x. float64 (s + x)) 0 xs"

lemma float_sum_err:
  assumes "\<forall>v \<in> set vs. 0 \<le> v" "sum_list vs \<le> V" "V < 2 ^ 53" "3 * int (length vs) \<le> 2 ^ 53"
  shows "\<bar>float_sum (map btc_amount vs) - of_int (sum_list vs) / 10 ^ 8\<bar> \<le>
    3 * of_nat (length vs) * (of_int V / 10 ^ 8) / 2 ^ 53"
  using assms(1,2,4)
proof (induction vs rule: rev_induct)
  case Nil
  then show ?case by (simp add: float_sum_def)
next
  case (snoc v vs)
  define S :: rat where "S = of_int V / 10 ^ 8"
  define n :: rat where "n = of_nat (length vs)"
  let ?s = "float_sum (map btc_amount vs)" and ?t = "of_int (sum_list vs) / 10 ^ 8 :: rat"
  let ?f = "btc_amount v" and ?g = "of_int v / 10 ^ 8 :: rat"
  have v: "0 \<le> v" "0 \<le> sum_list vs" "sum_list vs + v \<le> V"
    using snoc.prems by (auto intro: sum_list_nonneg)
  have N: "3 * (n + 1) \<le> 2 ^ 53"
  proof -
    have "(of_int (3 * (int (length vs) + 1)) :: rat) \<le> of_int (2 ^ 53)"
      using snoc.prems(3) by (simp only: of_int_le_iff) simp
    then show ?thesis by (simp add: n_def)
  qed
  have n0: "0 \<le> n" by (simp add: n_def)
  have G: "0 \<le> ?g" "0 \<le> ?t" "?t + ?g \<le> S" "?g \<le> S"
  proof -
    have "of_int (sum_list vs + v) \<le> (of_int V :: rat)" "of_int v \<le> (of_int V :: rat)"
      unfolding of_int_le_iff using v by simp_all
    then show "?t + ?g \<le> S" "?g \<le> S" by (simp_all add: S_def field_simps)
  qed (use v in simp_all)
  have IH: "\<bar>?s - ?t\<bar> \<le> 3 * n * S / 2 ^ 53" using snoc v by (simp add: S_def n_def)
  have F: "\<bar>?f - ?g\<bar> \<le> S / 2 ^ 53"
  proof -
    have "\<bar>?f - ?g\<bar> \<le> ?g / 2 ^ 53" using btc_amount_err [of v] v assms(3) by simp
    then show ?thesis using G(4) by (simp add: field_simps)
  qed
  have "3 * n * S + S \<le> 2 ^ 53 * S"
  proof -
    have "(3 * n + 1) * S \<le> 2 ^ 53 * S" by (rule mult_right_mono) (use N G in simp, use G in linarith)
    then show ?thesis by (simp add: algebra_simps)
  qed
  then have "3 * n * S / 2 ^ 53 + S / 2 ^ 53 \<le> S" by (simp add: field_simps)
  with IH F G have y: "\<bar>?s + ?f\<bar> \<le> 2 * S" by linarith
  have R: "\<bar>float64 (?s + ?f) - (?s + ?f)\<bar> \<le> 2 * S / 2 ^ 53"
  proof -
    have "\<bar>?s + ?f\<bar> / 2 ^ 53 \<le> 2 * S / 2 ^ 53" by (rule divide_right_mono [OF y]) simp
    with float64_err [of "?s + ?f"] show ?thesis by linarith
  qed
  have "3 * (n + 1) * S / 2 ^ 53 = 3 * n * S / 2 ^ 53 + S / 2 ^ 53 + 2 * S / 2 ^ 53"
    by (simp add: field_simps)
  with IH F R have "\<bar>float64 (?s + ?f) - (?t + ?g)\<bar> \<le> 3 * (n + 1) * S / 2 ^ 53" by linarith
  moreover have "float_sum (map btc_amount (vs @ [v])) = float64 (?s + ?f)" by (simp add: float_sum_def)
  moreover have "of_int (sum_list (vs @ [v])) / 10 ^ 8 = ?t + ?g" by (simp add: add_divide_distrib)
  moreover have "of_nat (length (vs @ [v])) = n + 1" by (simp add: n_def)
  ultimately show ?case by (simp only: S_def)
qed

text \<open>The text of a sum is exact when three roundings per amount cannot reach half a satoshi.\<close>

lemma float_sum_text:
  assumes "3 * length vs * sum_list vs < 2 ^ 52"
  shows "format8 (float_sum (map (\<lambda>v. btc_amount (int v)) vs)) = sat_text (sum_list vs) \<and>
    (0 < float_sum (map (\<lambda>v. btc_amount (int v)) vs) \<longleftrightarrow> 0 < sum_list vs)"
proof (cases "sum_list vs = 0")
  case True
  then have "map (\<lambda>v. btc_amount (int v)) vs = replicate (length vs) 0"
    by (induction vs) (auto simp: btc_amount_def float64_def)
  moreover have "float_sum (replicate k 0) = 0" for k
    by (induction k) (simp_all add: float_sum_def float64_def)
  ultimately show ?thesis using format8_near [of 0 0] unfolding True by simp
next
  case False
  let ?V = "sum_list vs"
  have vs: "vs \<noteq> []" using False by auto
  then have n: "1 \<le> length vs" by (cases vs) auto
  have V1: "1 \<le> ?V" using False unfolding neq0_conv by (metis One_nat_def Suc_leI)
  then have "3 * length vs * 1 \<le> 3 * length vs * ?V" by (intro mult_le_mono) simp_all
  moreover have "3 * 1 * ?V \<le> 3 * length vs * ?V" using n by (intro mult_le_mono) auto
  ultimately have b: "3 * length vs < 2 ^ 52" "?V < 2 ^ 52" using assms by linarith+
  have sum: "sum_list (map int vs) = int ?V" by (induction vs) auto
  have m: "map (\<lambda>v. btc_amount (int v)) vs = map btc_amount (map int vs)" by simp
  let ?s = "float_sum (map btc_amount (map int vs))"
  have e: "\<bar>?s - of_nat ?V / 10 ^ 8\<bar> \<le> 3 * of_nat (length vs) * (of_nat ?V / 10 ^ 8) / 2 ^ 53"
    using float_sum_err [of "map int vs" "int ?V"] b by (simp add: sum)
  have "(of_nat (3 * length vs * ?V) :: rat) < of_nat (2 ^ 52)" using assms by (simp only: of_nat_less_iff)
  then have "3 * of_nat (length vs) * of_nat ?V / 2 ^ 53 < (1 / 2 :: rat)"
    by (simp add: mult.assoc mult.commute)
  moreover have "\<bar>?s * 10 ^ 8 - of_nat ?V\<bar> \<le> 3 * of_nat (length vs) * of_nat ?V / 2 ^ 53"
    using e by (simp add: abs_le_iff field_simps)
  ultimately have near: "\<bar>?s * 10 ^ 8 - of_nat ?V\<bar> < 1 / 2" by linarith
  have "(1 :: rat) \<le> of_nat ?V" using V1 by (metis of_nat_1 of_nat_le_iff)
  with near have "0 < ?s * 10 ^ 8" by linarith
  then have pos: "0 < ?s" by (simp add: zero_less_mult_iff)
  have "0 < ?V" using V1 by linarith
  with format8_near [OF near] pos show ?thesis unfolding m by (intro conjI iffI) simp_all
qed

lemma float64_0 [simp]: "float64 0 = 0"
  by (simp add: float64_def)

lemma amount_text:
  assumes "3 * v < (2 :: nat) ^ 52"
  shows "format8 (btc_amount (int v)) = sat_text v"
proof -
  have e: "\<bar>btc_amount (int v) - of_nat v / 10 ^ 8\<bar> \<le> of_nat v / 10 ^ 8 / 2 ^ 53"
    using btc_amount_err [of "int v"] assms by simp
  have "(of_nat (3 * v) :: rat) < of_nat (2 ^ 52)" using assms by (simp only: of_nat_less_iff)
  then have "of_nat v / 2 ^ 53 < (1 / 2 :: rat)" by simp
  moreover have "\<bar>btc_amount (int v) * 10 ^ 8 - of_nat v\<bar> \<le> of_nat v / 2 ^ 53"
    using e by (simp add: abs_le_iff field_simps)
  ultimately have "\<bar>btc_amount (int v) * 10 ^ 8 - of_nat v\<bar> < 1 / 2" by linarith
  moreover have "0 \<le> btc_amount (int v)" by (rule btc_amount_nonneg) (use assms in simp_all)
  ultimately show ?thesis by (rule format8_near)
qed

end
