(* ===== verification/Bitcoin_Client.thy ===== *)
theory Bitcoin_Client
  imports Json_Http Config_Model Go_Float
begin

text \<open>
  The UTXO clients of \<open>internal/blockchain/bitcoin/client.go\<close>: an Esplora client and a blockchain.info client,
  and the client that fails over between several of them. A method is a function on the client and the state \<open>'e\<close>
  of the outside world. The URL parser of \<open>net/url\<close> is a parameter; writing a URL with its path escaped is
  written out.

  The loop over the pages of a block ends by itself when the header tells the number of transactions. When it does
  not, it follows pages until an empty one; \<open>bioPages\<close> bounds the pages followed then, and the result
  \<open>page_limit\<close> says that the bound was reached.
\<close>

section \<open>Data\<close>

record btcVin =
  vinValue :: int
  vinAddress :: string

record btcVout =
  voutValue :: rat
  voutAddresses :: "string list"

record btcTx =
  btxTxid :: string
  btxVin :: "btcVin list"
  btxVout :: "btcVout list"

record btcBlock =
  bbHash :: string
  bbHeight :: u64
  bbTime :: int
  bbTx :: "btcTx list"

text \<open>A URL: what precedes its path, the host in it, the path, and its query and fragment as text.\<close>

record go_url =
  urlPrefix :: string
  urlHost :: string
  urlPath :: string
  urlSuffix :: string

record baseClient =
  bcBase :: go_url
  bcTimeout :: duration
  bcRate :: int
  bcBurst :: int

datatype provider = EsploraClient baseClient int u64 | BlockchainInfoClient baseClient

record multiClient =
  mcClients :: "provider list"
  mcNames :: "string list"
  mcNext :: u32
  mcLast :: u32
  mcCounts :: "u64 list"
  mcErrors :: "u64 list"

datatype BtcClient = Single provider | Multi multiClient

text \<open>The services: the network, the reservation at the rate limiter (\<open>None\<close> when it is refused, else the delay).\<close>

record 'e btcio =
  bioNet :: "'e netio"
  bioReserve :: "'e \<Rightarrow> duration option \<times> 'e"
  bioPages :: nat

section \<open>Requests\<close>

definition newBaseClient :: "(string \<Rightarrow> go_url res) \<Rightarrow> UTXOConfig \<Rightarrow> string \<Rightarrow> baseClient res" where
  "newBaseClient urlParse cfg baseURL =
     (if baseURL = '''' then Inl (ErrorString ''api_url not set'')
      else case urlParse baseURL of
        Inl err \<Rightarrow> Inl err
      | Inr u \<Rightarrow> Inr \<lparr>bcBase = u, bcTimeout = utxoRPCTimeout cfg,
          bcRate = (if utxoRequestsPerSecond cfg \<le> 0 then 3 else utxoRequestsPerSecond cfg),
          bcBurst = (if utxoRequestsBurst cfg \<le> 0 then 5 else utxoRequestsBurst cfg)\<rparr>)"

text \<open>The escaping of a path: letters, digits and \<open>-_.~$&+,/:;=@\<close> stay, every other byte becomes \<open>%XX\<close>.\<close>

definition unescaped_char :: "char \<Rightarrow> bool" where
  "unescaped_char c \<longleftrightarrow>
     isDigit c \<or> lower_char c \<in> set ''abcdefghijklmnopqrstuvwxyz'' \<or> c \<in> set ''-_.~$&+,/:;=@''"

definition upper_hex :: "nat \<Rightarrow> char" where
  "upper_hex d = ''0123456789ABCDEF'' ! d"

definition escapePath :: "string \<Rightarrow> string" where
  "escapePath s = concat (map (\<lambda>c. if unescaped_char c then [c]
     else [CHR ''%'', upper_hex (of_char c div 16), upper_hex (of_char c mod 16)]) s)"

definition TrimLeftSlash :: "string \<Rightarrow> string" where
  "TrimLeftSlash s = dropWhile ((=) (CHR ''/'')) s"

definition TrimRightSlash :: "string \<Rightarrow> string" where
  "TrimRightSlash s = rev (dropWhile ((=) (CHR ''/'')) (rev s))"

definition base_url :: "baseClient \<Rightarrow> string \<Rightarrow> string" where
  "base_url c path =
     (let u = bcBase c in
      urlPrefix u @ escapePath (TrimRightSlash (urlPath u) @ ''/'' @ TrimLeftSlash path) @ urlSuffix u)"

definition isHTML :: "http_response \<Rightarrow> string \<Rightarrow> bool" where
  "isHTML resp body \<longleftrightarrow>
     Contains (respContentType resp) ''text/html'' \<or>
     (let b = TrimSpace (ToLower body) in HasPrefix b ''<!doctype html'' \<or> HasPrefix b ''<html'')"

definition waitRateLimit :: "'e btcio \<Rightarrow> string \<Rightarrow> 'e \<Rightarrow> error option \<times> 'e" where
  "waitRateLimit N op e =
     (case bioReserve N e of
        (None, e1) \<Rightarrow> (Some (ErrorString (''rate limiter rejected request for '' @ op)), e1)
      | (Some delay, e1) \<Rightarrow>
          if delay \<le> 0 then (None, e1)
          else (case net_sleep (bioNet N) delay e1 of
              (True, e2) \<Rightarrow> (Some (ctx_error (bioNet N) e2), e2)
            | (False, e2) \<Rightarrow> (None, e2)))"

text \<open>
  The loop of \<open>doWithBackoff\<close> with \<open>n\<close> attempts left. The body of the last response is closed when every attempt
  was answered with status 429.
\<close>

definition body_closed :: error where
  "body_closed = ErrorString ''http: read on closed response body''"

fun backoffLoop ::
  "'e netio \<Rightarrow> http_request \<Rightarrow> nat \<Rightarrow> duration \<Rightarrow> http_response res \<Rightarrow> 'e \<Rightarrow> http_response res \<times> 'e" where
  "backoffLoop N req 0 delay last' e = (last', e)"
| "backoffLoop N req (Suc n) delay last' e =
     (case net_do N req e of
        (Inl err, e1) \<Rightarrow> (Inl err, e1)
      | (Inr resp, e1) \<Rightarrow>
          if respStatus resp \<noteq> 429 then (Inr resp, e1)
          else
            let closed = Inr (resp\<lparr>respBody := Inl body_closed\<rparr>) in
            (case respRetryAfter resp of
               Some d \<Rightarrow> (case net_sleep N d e1 of
                   (True, e2) \<Rightarrow> (Inl (ctx_error N e2), e2)
                 | (False, e2) \<Rightarrow> backoffLoop N req n delay closed e2)
             | None \<Rightarrow> (case net_sleep N delay e1 of
                   (True, e2) \<Rightarrow> (Inl (ctx_error N e2), e2)
                 | (False, e2) \<Rightarrow> backoffLoop N req n (2 * delay) closed e2)))"

definition doWithBackoff :: "'e netio \<Rightarrow> http_request \<Rightarrow> 'e \<Rightarrow> http_response res \<times> 'e" where
  "doWithBackoff N req e = backoffLoop N req 4 (300 * Millisecond) (Inl body_closed) e"

definition btc_get :: "'e btcio \<Rightarrow> baseClient \<Rightarrow> string \<Rightarrow> 'e \<Rightarrow> http_response res \<times> 'e" where
  "btc_get N c path e =
     doWithBackoff (bioNet N) \<lparr>reqMethod = ''GET'', reqURL = base_url c path, reqHeaders = [], reqBody = None\<rparr> e"

text \<open>A request behind the rate limiter.\<close>

definition limited_get :: "'e btcio \<Rightarrow> baseClient \<Rightarrow> string \<Rightarrow> string \<Rightarrow> 'e \<Rightarrow> http_response res \<times> 'e" where
  "limited_get N c op path e =
     (case waitRateLimit N op e of
        (Some err, e1) \<Rightarrow> (Inl err, e1)
      | (None, e1) \<Rightarrow> btc_get N c path e1)"

section \<open>Esplora\<close>

definition bad_response :: "http_response \<Rightarrow> string \<Rightarrow> string \<Rightarrow> error" where
  "bad_response resp what body =
     ErrorString (''bad response '' @ FormatInt (respStatus resp) @ '' from '' @ what @ '': '' @ body)"

definition esplora_height :: "http_response \<Rightarrow> u64 res" where
  "esplora_height resp =
     (case respBody resp of
        Inl err \<Rightarrow> Inl err
      | Inr b \<Rightarrow>
          if respStatus resp \<ge> 400 \<or> isHTML resp b then Inl (bad_response resp ''tip height'' b)
          else case decode_body dec_uint64 resp of
            Inr height \<Rightarrow> Inr height
          | Inl _ \<Rightarrow> (case ParseUint (TrimSpace b) of
              Inr num \<Rightarrow> Inr num
            | Inl err \<Rightarrow> Inl (ErrorString (''parse height: '' @ error_msg err @ '' (body='' @ quote_str (TrimSpace b) @ '')''))))"

definition esplora_hash :: "http_response \<Rightarrow> string res" where
  "esplora_hash resp =
     (case respBody resp of
        Inl err \<Rightarrow> Inl err
      | Inr b \<Rightarrow>
          if respStatus resp \<ge> 400 \<or> isHTML resp b then Inl (bad_response resp ''block-height'' b)
          else case decode_body dec_string resp of
            Inr hash \<Rightarrow> Inr hash
          | Inl _ \<Rightarrow> Inr (TrimSpace b))"

definition response_of :: "(http_response \<Rightarrow> 'a res) \<Rightarrow> http_response res \<times> 'e \<Rightarrow> 'a res \<times> 'e" where
  "response_of f r = (case r of (Inl err, e) \<Rightarrow> (Inl err, e) | (Inr resp, e) \<Rightarrow> (f resp, e))"

definition esplora_GetBlockCount :: "'e btcio \<Rightarrow> baseClient \<Rightarrow> 'e \<Rightarrow> u64 res \<times> 'e" where
  "esplora_GetBlockCount N c e = response_of esplora_height (btc_get N c ''/blocks/tip/height'' e)"

definition esplora_GetBlockHash :: "'e btcio \<Rightarrow> baseClient \<Rightarrow> u64 \<Rightarrow> 'e \<Rightarrow> string res \<times> 'e" where
  "esplora_GetBlockHash N c height e =
     response_of esplora_hash (limited_get N c ''get_block_hash'' (''/block-height/'' @ FormatUint height) e)"

text \<open>A pointer to a struct is \<open>nil\<close> when the member is missing or \<open>null\<close>.\<close>

definition dec_ptr :: "(json \<Rightarrow> 'a res) \<Rightarrow> json \<Rightarrow> 'a option res" where
  "dec_ptr f j = (if j = JNull then Inr None else rbind (f j) (\<lambda>x. Inr (Some x)))"

definition dec_sat_addr :: "string \<Rightarrow> json \<Rightarrow> (int \<times> string) res" where
  "dec_sat_addr k j = rbind (as_obj j) (\<lambda>o'.
     rbind (dec_int64 (field ''value'' o')) (\<lambda>v. rbind (dec_string (field k o')) (\<lambda>a. Inr (v, a))))"

definition mk_vout :: "int \<Rightarrow> string \<Rightarrow> btcVout" where
  "mk_vout v addr = \<lparr>voutValue = btc_amount v, voutAddresses = (if addr \<noteq> '''' then [addr] else [])\<rparr>"

definition mk_vins :: "(int \<times> string) option list \<Rightarrow> btcVin list" where
  "mk_vins ps = concat (map (\<lambda>p. case p of None \<Rightarrow> [] | Some (v, a) \<Rightarrow> [\<lparr>vinValue = v, vinAddress = a\<rparr>]) ps)"

definition dec_esploraTx :: "json \<Rightarrow> btcTx res" where
  "dec_esploraTx j = rbind (as_obj j) (\<lambda>o'. rbind (dec_string (field ''txid'' o')) (\<lambda>txid.
     rbind (dec_list (\<lambda>x. rbind (as_obj x) (\<lambda>vo. dec_ptr (dec_sat_addr ''scriptpubkey_address'') (field ''prevout'' vo)))
       (field ''vin'' o')) (\<lambda>vins.
     rbind (dec_list (dec_sat_addr ''scriptpubkey_address'') (field ''vout'' o')) (\<lambda>vouts.
     Inr \<lparr>btxTxid = txid, btxVin = mk_vins vins, btxVout = map (\<lambda>(v, a). mk_vout v a) vouts\<rparr>))))"

definition dec_esploraHeader :: "json \<Rightarrow> (u64 \<times> int \<times> int) res" where
  "dec_esploraHeader j = rbind (as_obj j) (\<lambda>o'. rbind (dec_uint64 (field ''height'' o')) (\<lambda>h.
     rbind (dec_int64 (field ''timestamp'' o')) (\<lambda>t. rbind (dec_int64 (field ''tx_count'' o')) (\<lambda>n. Inr (h, t, n)))))"

definition page_limit :: error where
  "page_limit = ErrorString ''model: more pages than followed''"

fun esploraPages ::
  "'e btcio \<Rightarrow> baseClient \<Rightarrow> string \<Rightarrow> int \<Rightarrow> nat \<Rightarrow> int \<Rightarrow> btcTx list \<Rightarrow> 'e \<Rightarrow> btcTx list res \<times> 'e" where
  "esploraPages N c hash txCount 0 start txs e = (Inl page_limit, e)"
| "esploraPages N c hash txCount (Suc n) start txs e =
     (case limited_get N c ''get_block_txs'' (''/block/'' @ hash @ ''/txs/'' @ FormatInt start) e of
        (Inl err, e1) \<Rightarrow> (Inl err, e1)
      | (Inr resp, e1) \<Rightarrow> (case decode_body (dec_list dec_esploraTx) resp of
          Inl err \<Rightarrow> (Inl err, e1)
        | Inr page \<Rightarrow>
            if page = [] then (Inr txs, e1)
            else if txCount > 0 \<and> start + int (length page) \<ge> txCount then (Inr (txs @ page), e1)
            else esploraPages N c hash txCount n (start + int (length page)) (txs @ page) e1))"

definition esplora_GetBlockVerbose :: "'e btcio \<Rightarrow> baseClient \<Rightarrow> string \<Rightarrow> 'e \<Rightarrow> btcBlock res \<times> 'e" where
  "esplora_GetBlockVerbose N c hash e =
     (case limited_get N c ''get_block_header'' (''/block/'' @ hash) e of
        (Inl err, e1) \<Rightarrow> (Inl err, e1)
      | (Inr respH, e1) \<Rightarrow> (case decode_body dec_esploraHeader respH of
          Inl err \<Rightarrow> (Inl err, e1)
        | Inr (height, time, txCount) \<Rightarrow>
            (case esploraPages N c hash txCount (if txCount > 0 then nat txCount else bioPages N) 0 [] e1 of
               (Inl err, e2) \<Rightarrow> (Inl err, e2)
             | (Inr txs, e2) \<Rightarrow> (Inr \<lparr>bbHash = hash, bbHeight = height, bbTime = time, bbTx = txs\<rparr>, e2))))"

section \<open>blockchain.info\<close>

definition info_GetBlockCount :: "'e btcio \<Rightarrow> baseClient \<Rightarrow> 'e \<Rightarrow> u64 res \<times> 'e" where
  "info_GetBlockCount N c e =
     response_of (decode_body (\<lambda>j. rbind (as_obj j) (\<lambda>o'. dec_uint64 (field ''height'' o'))))
       (btc_get N c ''/latestblock'' e)"

fun dec_bool :: "json \<Rightarrow> bool res" where
  "dec_bool (JBool b) = Inr b"
| "dec_bool JNull = Inr False"
| "dec_bool _ = Inl type_error"

definition dec_infoBlocks :: "json \<Rightarrow> (string \<times> bool) list res" where
  "dec_infoBlocks j = rbind (as_obj j) (\<lambda>o'. dec_list (\<lambda>x. rbind (as_obj x) (\<lambda>b.
     rbind (dec_string (field ''hash'' b)) (\<lambda>h. rbind (dec_bool (field ''main_chain'' b)) (\<lambda>m. Inr (h, m)))))
     (field ''blocks'' o'))"

definition info_hash :: "u64 \<Rightarrow> http_response \<Rightarrow> string res" where
  "info_hash height resp =
     (case decode_body dec_infoBlocks resp of
        Inl err \<Rightarrow> Inl err
      | Inr blocks \<Rightarrow>
          (case filter (\<lambda>(h, m). m \<and> h \<noteq> '''') blocks of
             (h, _) # _ \<Rightarrow> Inr h
           | [] \<Rightarrow> (case blocks of
               (h, _) # _ \<Rightarrow> Inr h
             | [] \<Rightarrow> Inl (ErrorString (''no blocks found for height '' @ FormatUint height)))))"

text \<open>The path is escaped as a whole, so the question mark of the query becomes \<open>%3F\<close>.\<close>

definition info_GetBlockHash :: "'e btcio \<Rightarrow> baseClient \<Rightarrow> u64 \<Rightarrow> 'e \<Rightarrow> string res \<times> 'e" where
  "info_GetBlockHash N c height e =
     response_of (info_hash height)
       (limited_get N c ''get_block_hash'' (''/block-height/'' @ FormatUint height @ ''?format=json'') e)"

definition dec_infoOut :: "json \<Rightarrow> (int \<times> string) res" where
  "dec_infoOut j = rbind (as_obj j) (\<lambda>o'.
     rbind (dec_int64 (field ''value'' o')) (\<lambda>v. rbind (dec_string (field ''addr'' o')) (\<lambda>a.
     rbind (dec_string (field ''address'' o')) (\<lambda>a'. Inr (v, if a = '''' then a' else a)))))"

definition dec_infoTx :: "json \<Rightarrow> btcTx res" where
  "dec_infoTx j = rbind (as_obj j) (\<lambda>o'. rbind (dec_string (field ''hash'' o')) (\<lambda>txid.
     rbind (dec_list (\<lambda>x. rbind (as_obj x) (\<lambda>vo. dec_ptr dec_infoOut (field ''prev_out'' vo))) (field ''inputs'' o')) (\<lambda>vins.
     rbind (dec_list dec_infoOut (field ''out'' o')) (\<lambda>vouts.
     Inr \<lparr>btxTxid = txid, btxVin = mk_vins vins, btxVout = map (\<lambda>(v, a). mk_vout v a) vouts\<rparr>))))"

definition dec_rawblock :: "json \<Rightarrow> btcBlock res" where
  "dec_rawblock j = rbind (as_obj j) (\<lambda>o'. rbind (dec_string (field ''hash'' o')) (\<lambda>hash.
     rbind (dec_uint64 (field ''height'' o')) (\<lambda>height. rbind (dec_int64 (field ''time'' o')) (\<lambda>time.
     rbind (dec_list dec_infoTx (field ''tx'' o')) (\<lambda>txs.
     Inr \<lparr>bbHash = hash, bbHeight = height, bbTime = time, bbTx = txs\<rparr>)))))"

definition info_GetBlockVerbose :: "'e btcio \<Rightarrow> baseClient \<Rightarrow> string \<Rightarrow> 'e \<Rightarrow> btcBlock res \<times> 'e" where
  "info_GetBlockVerbose N c hash e =
     response_of (decode_body dec_rawblock) (limited_get N c ''get_block'' (''/rawblock/'' @ hash) e)"

section \<open>The interface and the client with several providers\<close>

fun p_GetBlockCount :: "'e btcio \<Rightarrow> provider \<Rightarrow> 'e \<Rightarrow> u64 res \<times> 'e" where
  "p_GetBlockCount N (EsploraClient c fc fl) e = esplora_GetBlockCount N c e"
| "p_GetBlockCount N (BlockchainInfoClient c) e = info_GetBlockCount N c e"

fun p_GetBlockHash :: "'e btcio \<Rightarrow> u64 \<Rightarrow> provider \<Rightarrow> 'e \<Rightarrow> string res \<times> 'e" where
  "p_GetBlockHash N height (EsploraClient c fc fl) e = esplora_GetBlockHash N c height e"
| "p_GetBlockHash N height (BlockchainInfoClient c) e = info_GetBlockHash N c height e"

fun p_GetBlockVerbose :: "'e btcio \<Rightarrow> string \<Rightarrow> provider \<Rightarrow> 'e \<Rightarrow> btcBlock res \<times> 'e" where
  "p_GetBlockVerbose N hash (EsploraClient c fc fl) e = esplora_GetBlockVerbose N c hash e"
| "p_GetBlockVerbose N hash (BlockchainInfoClient c) e = info_GetBlockVerbose N c hash e"

definition newMultiClient :: "provider list \<Rightarrow> string list \<Rightarrow> multiClient" where
  "newMultiClient clients names =
     \<lparr>mcClients = clients, mcNames = names, mcNext = 0, mcLast = 0,
      mcCounts = replicate (length clients) 0, mcErrors = replicate (length clients) 0\<rparr>"

definition nextIndex :: "multiClient \<Rightarrow> nat \<times> multiClient" where
  "nextIndex m = (let n = mcNext m + 1 in
     (unat (n mod of_nat (length (mcClients m))), m\<lparr>mcNext := n\<rparr>))"

definition logFail :: "nat \<Rightarrow> multiClient \<Rightarrow> multiClient" where
  "logFail idx m = m\<lparr>mcErrors := (mcErrors m)[idx := mcErrors m ! idx + 1]\<rparr>"

definition markSuccess :: "nat \<Rightarrow> multiClient \<Rightarrow> multiClient" where
  "markSuccess idx m = m\<lparr>mcCounts := (mcCounts m)[idx := mcCounts m ! idx + 1], mcLast := of_nat idx\<rparr>"

text \<open>
  The loop of the three methods, with \<open>k\<close> of the \<open>n\<close> providers left to try and \<open>lastErr\<close> the error of the
  previous one.
\<close>

fun failover ::
  "(provider \<Rightarrow> 'e \<Rightarrow> 'a res \<times> 'e) \<Rightarrow> nat \<Rightarrow> nat \<Rightarrow> error \<Rightarrow> multiClient \<times> 'e \<Rightarrow> 'a res \<times> multiClient \<times> 'e" where
  "failover f start 0 lastErr (m, e) = (Inl lastErr, (m, e))"
| "failover f start (Suc k) lastErr (m, e) =
     (let n = length (mcClients m); idx = (start + (n - Suc k)) mod n in
      (case f (mcClients m ! idx) e of
         (Inr x, e1) \<Rightarrow> (Inr x, (markSuccess idx m, e1))
       | (Inl err, e1) \<Rightarrow> failover f start k err (logFail idx m, e1)))"

definition multi_call ::
  "(provider \<Rightarrow> 'e \<Rightarrow> 'a res \<times> 'e) \<Rightarrow> multiClient \<times> 'e \<Rightarrow> 'a res \<times> multiClient \<times> 'e" where
  "multi_call f s = (case s of (m, e) \<Rightarrow>
     (if mcClients m = [] then (Inl (ErrorString ''no bitcoin API clients configured''), (m, e))
      else case nextIndex m of (start, m1) \<Rightarrow>
        failover f start (length (mcClients m)) (ErrorString '''') (m1, e)))"

fun client_call ::
  "(provider \<Rightarrow> 'e \<Rightarrow> 'a res \<times> 'e) \<Rightarrow> BtcClient \<times> 'e \<Rightarrow> 'a res \<times> BtcClient \<times> 'e" where
  "client_call f (Single p, e) = (case f p e of (r, e1) \<Rightarrow> (r, (Single p, e1)))"
| "client_call f (Multi m, e) = (case multi_call f (m, e) of (r, (m1, e1)) \<Rightarrow> (r, (Multi m1, e1)))"

definition btc_GetBlockCount :: "'e btcio \<Rightarrow> BtcClient \<times> 'e \<Rightarrow> u64 res \<times> BtcClient \<times> 'e" where
  "btc_GetBlockCount N = client_call (p_GetBlockCount N)"

definition btc_GetBlockHash :: "'e btcio \<Rightarrow> u64 \<Rightarrow> BtcClient \<times> 'e \<Rightarrow> string res \<times> BtcClient \<times> 'e" where
  "btc_GetBlockHash N height = client_call (p_GetBlockHash N height)"

definition btc_GetBlockVerbose :: "'e btcio \<Rightarrow> string \<Rightarrow> BtcClient \<times> 'e \<Rightarrow> btcBlock res \<times> BtcClient \<times> 'e" where
  "btc_GetBlockVerbose N hash = client_call (p_GetBlockVerbose N hash)"

text \<open>No client counts its transactions in flight: the counter of the Esplora client is never written.\<close>

fun p_InFlightTxs :: "provider \<Rightarrow> u64" where
  "p_InFlightTxs (EsploraClient c fc fl) = fl"
| "p_InFlightTxs (BlockchainInfoClient c) = 0"

fun btc_InFlightTxs :: "BtcClient \<Rightarrow> u64" where
  "btc_InFlightTxs (Single p) = p_InFlightTxs p"
| "btc_InFlightTxs (Multi m) = sum_list (map p_InFlightTxs (mcClients m))"

text \<open>The statistics are keyed by the kind of provider: of two of a kind the later one is reported.\<close>

definition mcName :: "multiClient \<Rightarrow> nat \<Rightarrow> string" where
  "mcName m i = (if i < length (mcNames m) then mcNames m ! i else ''unknown'')"

definition multi_ProviderStats :: "multiClient \<Rightarrow> (string \<rightharpoonup> u64) \<times> (string \<rightharpoonup> u64) \<times> string" where
  "multi_ProviderStats m =
     (let is = [0..<length (mcClients m)]; lastIdx = unat (mcLast m) in
      (map_of (rev (map (\<lambda>i. (mcName m i, mcCounts m ! i)) is)),
       map_of (rev (map (\<lambda>i. (mcName m i, mcErrors m ! i)) is)),
       if lastIdx < length (mcNames m) then mcNames m ! lastIdx else ''''))"

fun btc_ProviderStats :: "BtcClient \<Rightarrow> (string \<rightharpoonup> u64) \<times> (string \<rightharpoonup> u64) \<times> string" where
  "btc_ProviderStats (Single p) = (Map.empty, Map.empty, '''')"
| "btc_ProviderStats (Multi m) = multi_ProviderStats m"

definition newProvider :: "(string \<Rightarrow> go_url res) \<Rightarrow> UTXOConfig \<Rightarrow> string \<Rightarrow> (provider \<times> string) res" where
  "newProvider urlParse cfg raw =
     (case urlParse raw of
        Inl err \<Rightarrow> Inl err
      | Inr u \<Rightarrow>
          let host = ToLower (urlHost u) in
          if Contains host ''blockchain.info'' \<or> Contains host ''blockchain.com''
          then rbind (newBaseClient urlParse cfg raw) (\<lambda>c. Inr (BlockchainInfoClient c, ''blockchain''))
          else rbind (newBaseClient urlParse cfg raw) (\<lambda>c.
            Inr (EsploraClient c (if utxoTxFetchConcurrency cfg \<le> 0 then 20 else utxoTxFetchConcurrency cfg) 0, ''esplora'')))"

definition newBitcoinClient :: "(string \<Rightarrow> go_url res) \<Rightarrow> UTXOConfig \<Rightarrow> BtcClient res" where
  "newBitcoinClient urlParse cfg =
     (let urls = (if utxoAPIURLs cfg = [] \<and> utxoAPIURL cfg \<noteq> '''' then [utxoAPIURL cfg] else utxoAPIURLs cfg) in
      if urls = [] then Inl (ErrorString ''no bitcoin api urls configured'')
      else rbind (mapM (newProvider urlParse cfg) urls) (\<lambda>ps.
        Inr (case ps of [(p, _)] \<Rightarrow> Single p | _ \<Rightarrow> Multi (newMultiClient (map fst ps) (map snd ps)))))"

section \<open>What the calls leave alone\<close>

definition btcio_frame :: "'e btcio \<Rightarrow> ('e \<Rightarrow> 'v) \<Rightarrow> bool" where
  "btcio_frame N view \<longleftrightarrow> net_frame (bioNet N) view \<and> (\<forall>e. view (snd (bioReserve N e)) = view e)"

lemma reserve_frame: "btcio_frame N view \<Longrightarrow> bioReserve N e = (r, e') \<Longrightarrow> view e' = view e"
  unfolding btcio_frame_def by (metis snd_conv)

lemma wait_frame:
  assumes "btcio_frame N view" "waitRateLimit N op e = (r, e')"
  shows "view e' = view e"
proof -
  have n: "net_frame (bioNet N) view" using assms(1) by (simp add: btcio_frame_def)
  obtain d e1 where d: "bioReserve N e = (d, e1)" by fastforce
  note reserve_frame [OF assms(1) d]
  then show ?thesis
    using assms(2) d by (auto simp: waitRateLimit_def dest: net_frameD(3) [OF n] split: option.splits if_splits prod.splits bool.splits)
qed

lemma backoff_frame:
  assumes "net_frame N view"
  shows "backoffLoop N req n delay lst e = (r, e') \<Longrightarrow> view e' = view e"
proof (induction n arbitrary: delay lst e)
  case (Suc n)
  obtain x e1 where d: "net_do N req e = (x, e1)" by fastforce
  obtain b1 e2 where s1: "net_sleep N delay e1 = (b1, e2)" by fastforce
  note f1 = net_frameD(1) [OF assms d] and f2 = net_frameD(3) [OF assms s1]
  show ?case
  proof (cases x)
    case (Inl err)
    with Suc.prems d f1 show ?thesis by simp
  next
    case (Inr resp)
    show ?thesis
    proof (cases "respStatus resp \<noteq> 429")
      case True
      with Suc.prems d f1 Inr show ?thesis by simp
    next
      case False
      note bad = this
      show ?thesis
      proof (cases "respRetryAfter resp")
        case None
        with Suc.prems Suc.IH d f1 f2 s1 Inr bad show ?thesis by (fastforce split: bool.splits)
      next
        case (Some t)
        obtain b3 e3 where s3: "net_sleep N t e1 = (b3, e3)" by fastforce
        note f3 = net_frameD(3) [OF assms s3]
        from Suc.prems Suc.IH d f1 f3 s3 Inr bad Some show ?thesis by (fastforce split: bool.splits)
      qed
    qed
  qed
qed simp

lemma get_frame:
  assumes "btcio_frame N view"
  shows "btc_get N c path e = (r, e') \<Longrightarrow> view e' = view e" "limited_get N c op path e = (x, e') \<Longrightarrow> view e' = view e"
proof -
  have n: "net_frame (bioNet N) view" using assms by (simp add: btcio_frame_def)
  have g: "view e' = view e" if "btc_get N c path e = (r, e')" for r e e'
    using that backoff_frame [OF n] by (auto simp: btc_get_def doWithBackoff_def)
  then show "btc_get N c path e = (r, e') \<Longrightarrow> view e' = view e" by blast
  show "limited_get N c op path e = (x, e') \<Longrightarrow> view e' = view e"
    using wait_frame [OF assms] g by (fastforce simp: limited_get_def split: prod.splits option.splits)
qed

lemma response_frame: "response_of f (x, e1) = (r, e') \<Longrightarrow> e' = e1"
  by (auto simp: response_of_def split: sum.splits)

lemma pages_frame:
  assumes "btcio_frame N view"
  shows "esploraPages N c hash k n start txs e = (r, e') \<Longrightarrow> view e' = view e"
proof (induction n arbitrary: start txs e)
  case (Suc n)
  obtain x e1 where g: "limited_get N c ''get_block_txs'' (''/block/'' @ hash @ ''/txs/'' @ FormatInt start) e = (x, e1)"
    by fastforce
  note f = get_frame(2) [OF assms g]
  from Suc.prems g have "e' = e1 \<or> (\<exists>s' t'. esploraPages N c hash k n s' t' e1 = (r, e'))"
    by (auto split: sum.splits if_splits)
  with Suc.IH f show ?case by auto
qed simp

lemma provider_frame:
  assumes F: "btcio_frame N view"
  shows "p_GetBlockCount N p e = (r1, e') \<Longrightarrow> view e' = view e"
    "p_GetBlockHash N h p e = (r2, e') \<Longrightarrow> view e' = view e"
    "p_GetBlockVerbose N hash p e = (r3, e') \<Longrightarrow> view e' = view e"
proof -
  note G = get_frame [OF F]
  have R: "view e' = view e" if "response_of f (btc_get N c path e) = (r, e')" for f c path r e'
  proof -
    obtain x e1 where g: "btc_get N c path e = (x, e1)" by fastforce
    with that have "e' = e1" by (auto dest: response_frame)
    with G(1) [OF g] show ?thesis by simp
  qed
  have L: "view e' = view e" if "response_of f (limited_get N c op path e) = (r, e')" for f c op path r e'
  proof -
    obtain x e1 where g: "limited_get N c op path e = (x, e1)" by fastforce
    with that have "e' = e1" by (auto dest: response_frame)
    with G(2) [OF g] show ?thesis by simp
  qed
  show "p_GetBlockCount N p e = (r1, e') \<Longrightarrow> view e' = view e"
    by (cases p) (auto simp: esplora_GetBlockCount_def info_GetBlockCount_def dest: R)
  show "p_GetBlockHash N h p e = (r2, e') \<Longrightarrow> view e' = view e"
    by (cases p) (auto simp: esplora_GetBlockHash_def info_GetBlockHash_def dest: L)
  show "p_GetBlockVerbose N hash p e = (r3, e') \<Longrightarrow> view e' = view e"
  proof (cases p)
    case (EsploraClient c fc fl)
    assume "p_GetBlockVerbose N hash p e = (r3, e')"
    then have v: "esplora_GetBlockVerbose N c hash e = (r3, e')" using EsploraClient by simp
    obtain x e1 where g: "limited_get N c ''get_block_header'' (''/block/'' @ hash) e = (x, e1)" by fastforce
    from v g have "e' = e1 \<or> (\<exists>k n y. esploraPages N c hash k n 0 [] e1 = (y, e'))"
      unfolding esplora_GetBlockVerbose_def by (auto split: sum.splits prod.splits)
    then show ?thesis using G(2) [OF g] pages_frame [OF F] by metis
  qed (auto simp: info_GetBlockVerbose_def dest: L)
qed

lemma failover_frame:
  assumes "\<And>p e r e'. f p e = (r, e') \<Longrightarrow> view e' = view e"
  shows "failover f start k lastErr (m, e) = (r, (m', e')) \<Longrightarrow> view e' = view e"
proof (induction k arbitrary: lastErr m e)
  case (Suc k)
  let ?idx = "(start + (length (mcClients m) - Suc k)) mod length (mcClients m)"
  obtain x e1 where g: "f (mcClients m ! ?idx) e = (x, e1)" by fastforce
  note F = assms [OF g]
  from Suc.prems g have "e' = e1 \<or> (\<exists>err. failover f start k err (logFail ?idx m, e1) = (r, (m', e')))"
    by (auto simp: Let_def split: sum.splits)
  with Suc.IH F show ?case by auto
qed simp

lemma client_frame:
  assumes "\<And>p e r e'. f p e = (r, e') \<Longrightarrow> view e' = view e" "client_call f (c, e) = (r, (c', e'))"
  shows "view e' = view e"
proof (cases c)
  case (Single p)
  with assms show ?thesis by (auto split: prod.splits)
next
  case (Multi m)
  then show ?thesis
    using assms(2) failover_frame [where f = f and view = view, OF assms(1)]
    by (auto simp: multi_call_def split: prod.splits if_splits)
qed

section \<open>Failing over\<close>

lemma failover_lengths:
  "failover f start k lastErr (m, e) = (r, (m', e')) \<Longrightarrow>
   mcClients m' = mcClients m \<and> length (mcErrors m') = length (mcErrors m) \<and> length (mcCounts m') = length (mcCounts m)"
proof (induction k arbitrary: lastErr m e)
  case (Suc k)
  let ?idx = "(start + (length (mcClients m) - Suc k)) mod length (mcClients m)"
  obtain x e1 where g: "f (mcClients m ! ?idx) e = (x, e1)" by fastforce
  show ?case
  proof (cases x)
    case (Inl err)
    with Suc.prems g have "failover f start k err (logFail ?idx m, e1) = (r, (m', e'))" by (simp add: Let_def)
    from Suc.IH [OF this] show ?thesis by (simp add: logFail_def)
  next
    case (Inr y)
    with Suc.prems g have "m' = markSuccess ?idx m" by (simp add: Let_def)
    then show ?thesis by (simp add: markSuccess_def)
  qed
qed simp

text \<open>The rotation visits every provider: its last \<open>k\<close> turns, when \<open>k\<close> is their number, are all of them.\<close>

lemma rotation_covers: "0 < n \<Longrightarrow> j < n \<Longrightarrow> \<exists>i < n. (start + i) mod n = (j :: nat)"
proof -
  assume n: "0 < n" and j: "j < n"
  let ?i = "(j + (n - start mod n)) mod n"
  have "(start + ?i) mod n = (start mod n + (j + (n - start mod n))) mod n" by (simp add: mod_simps)
  also have "start mod n + (j + (n - start mod n)) = j + n" using mod_less_divisor [OF n, of start] by linarith
  finally have "(start + ?i) mod n = j" using j by simp
  moreover have "?i < n" using n by simp
  ultimately show ?thesis by blast
qed

lemma failover_error:
  "failover f start k lastErr (m, e) = (Inl err, (m', e')) \<Longrightarrow> k \<le> length (mcClients m) \<Longrightarrow>
   \<forall>i. length (mcClients m) - k \<le> i \<and> i < length (mcClients m) \<longrightarrow>
     (\<exists>e1 x e2. f (mcClients m ! ((start + i) mod length (mcClients m))) e1 = (Inl x, e2))"
proof (induction k arbitrary: lastErr m e)
  case (Suc k)
  let ?n = "length (mcClients m)"
  let ?i0 = "?n - Suc k"
  obtain x e1 where g: "f (mcClients m ! ((start + ?i0) mod ?n)) e = (x, e1)" by fastforce
  then obtain err0 where x: "x = Inl err0"
    and rest: "failover f start k err0 (logFail ((start + ?i0) mod ?n) m, e1) = (Inl err, (m', e'))"
    using Suc.prems(1) by (auto simp: Let_def split: sum.splits)
  have c: "mcClients (logFail j m) = mcClients m" for j by (simp add: logFail_def)
  note IH = Suc.IH [OF rest, unfolded c]
  show ?case
  proof (intro allI impI)
    fix i
    assume i: "?n - Suc k \<le> i \<and> i < ?n"
    show "\<exists>e1 x e2. f (mcClients m ! ((start + i) mod ?n)) e1 = (Inl x, e2)"
    proof (cases "i = ?i0")
      case True
      with g x show ?thesis by blast
    next
      case False
      then have "?n - k \<le> i" using i Suc.prems(2) by linarith
      with i Suc.prems(2) IH show ?thesis by simp
    qed
  qed
qed auto

section \<open>Properties of the clients\<close>

text \<open>
  C??: The client with several providers fails over. As long as one of them answers, wherever it is in the list
  and wherever the rotation starts (the counter wraps around), the call succeeds; an error is returned only when
  every provider has failed in the same call.
\<close>

theorem btc_failover:
  assumes "mcClients m \<noteq> []" "multi_call f (m, e) = (r, (m', e'))"
  shows "(p \<in> set (mcClients m) \<longrightarrow> (\<forall>e0. \<exists>x e1. f p e0 = (Inr x, e1)) \<longrightarrow> (\<exists>x. r = Inr x)) \<and>
    (\<forall>err. r = Inl err \<longrightarrow> (\<forall>q \<in> set (mcClients m). \<exists>e0 x e1. f q e0 = (Inl x, e1))) \<and>
    mcClients m' = mcClients m"
proof -
  let ?n = "length (mcClients m)"
  obtain start m1 where s: "nextIndex m = (start, m1)" by fastforce
  have c: "mcClients m1 = mcClients m" using s by (auto simp: nextIndex_def Let_def)
  have f: "failover f start ?n (ErrorString '''') (m1, e) = (r, (m', e'))" using assms s by (simp add: multi_call_def)
  have all: "\<exists>e0 x e1. f q e0 = (Inl x, e1)" if bad: "r = Inl err" and q: "q \<in> set (mcClients m)" for err q
  proof -
    obtain j where j: "j < ?n" "q = mcClients m ! j" using q by (auto simp: in_set_conv_nth)
    obtain i where i: "i < ?n" "(start + i) mod ?n = j" using rotation_covers [OF _ j(1), of start] assms(1) by auto
    from failover_error [OF f [unfolded bad], unfolded c] i j show ?thesis by auto
  qed
  have "\<exists>x. r = Inr x" if p: "p \<in> set (mcClients m)" and ok: "\<forall>e0. \<exists>x e1. f p e0 = (Inr x, e1)"
  proof (cases r)
    case (Inl err)
    from all [OF this p] ok show ?thesis by (metis Inl_Inr_False prod.inject)
  qed simp
  with all failover_lengths [OF f] c show ?thesis by auto
qed

text \<open>A provider that refuses and one that answers, for the examples.\<close>

definition demo_url :: go_url where
  "demo_url = \<lparr>urlPrefix = ''http://a'', urlHost = ''a'', urlPath = ''/api'', urlSuffix = ''''\<rparr>"

definition demo_btc_base :: baseClient where
  "demo_btc_base = \<lparr>bcBase = demo_url, bcTimeout = 0, bcRate = 3, bcBurst = 5\<rparr>"

definition demo_multi :: multiClient where
  "demo_multi = newMultiClient [BlockchainInfoClient demo_btc_base, EsploraClient demo_btc_base 20 0] [''blockchain'', ''esplora'']"

definition demo_answer :: "provider \<Rightarrow> unit \<Rightarrow> u64 res \<times> unit" where
  "demo_answer p e = (case p of EsploraClient _ _ _ \<Rightarrow> (Inr 7, e) | BlockchainInfoClient _ \<Rightarrow> (Inl DeadlineExceeded, e))"

theorem btc_failover_witness:
  "\<exists>x m'. multi_call demo_answer (demo_multi\<lparr>mcNext := 3\<rparr>, ()) = (Inr x, (m', ())) \<and> mcErrors m' = [1, 0]"
proof -
  let ?m = "demo_multi\<lparr>mcNext := 3\<rparr>" and ?p = "EsploraClient demo_btc_base 20 0"
  obtain r m' where r: "multi_call demo_answer (?m, ()) = (r, (m', ()))" by (metis (full_types) old.unit.exhaust prod_cases3)
  have e: "mcErrors (fst (snd (multi_call demo_answer (?m, ())))) = [1, 0]" by code_simp
  have c: "mcClients ?m \<noteq> []" "?p \<in> set (mcClients ?m)" "\<forall>e0. \<exists>x e1. demo_answer ?p e0 = (Inr x, e1)"
    by (simp_all add: demo_multi_def newMultiClient_def demo_answer_def)
  from btc_failover [OF c(1) r, of ?p] c(2,3) obtain x where "r = Inr x" by blast
  with r e show ?thesis by auto
qed

text \<open>
  The pages of a block: with the number of transactions known, the bound on the pages is never reached, since
  every page brings at least one transaction.
\<close>

lemma pages_never_limited:
  assumes "0 < txCount" "txCount - start \<le> int n" "start < txCount"
  shows "esploraPages N c hash txCount n start txs e = esploraPages N c hash txCount (n + k) start txs e"
  using assms(2,3)
proof (induction n arbitrary: start txs e)
  case (Suc n)
  obtain x e1 where g: "limited_get N c ''get_block_txs'' (''/block/'' @ hash @ ''/txs/'' @ FormatInt start) e = (x, e1)"
    by fastforce
  show ?case
  proof (cases "\<exists>resp page. x = Inr resp \<and> decode_body (dec_list dec_esploraTx) resp = Inr page \<and> page \<noteq> [] \<and>
      start + int (length page) < txCount")
    case True
    then obtain resp page where p: "x = Inr resp" "decode_body (dec_list dec_esploraTx) resp = Inr page" "page \<noteq> []"
      "start + int (length page) < txCount" by blast
    have "1 \<le> length page" using p(3) by (cases page) auto
    then have "txCount - (start + int (length page)) \<le> int n" using Suc.prems(1) by linarith
    from Suc.IH [OF this p(4)] g p show ?thesis by simp
  next
    case False
    with g assms(1) show ?thesis by (auto split: sum.splits)
  qed
qed simp

end
