(* ===== verification/Bitcoin_Processor.thy ===== *)
theory Bitcoin_Processor
  imports Bitcoin_Client Client_World
begin

text \<open>
  The block processor of the UTXO chains (\<open>internal/blockchain/bitcoin/processor.go\<close>): the tip behind a short
  cache, and the scan of a block for deposits to and withdrawals from watched wallets. Lookups and publishing go
  through the interfaces of the storage and the publisher; the calls of the client are the record \<open>BtcOps\<close>.
  Decoding the text of a cache entry is the parameter \<open>jsonOf\<close>.

  The second half specifies the events of a block as a function of the watch list, and proves in the locale
  \<open>event_env\<close> that the processor follows it: unlike the other chains' processors it reports every failure, so a
  block reported as complete had all of its events published.
\<close>

section \<open>State\<close>

record BitcoinProcessor =
  bpConfig :: UTXOConfig
  bpNetwork :: BlockchainType
  bpCurrency :: Currency
  bpTipTTL :: duration

record 'w BtcOps =
  bo_GetBlockCount :: "'w \<Rightarrow> u64 res \<times> 'w"
  bo_GetBlockHash :: "u64 \<Rightarrow> 'w \<Rightarrow> string res \<times> 'w"
  bo_GetBlockVerbose :: "string \<Rightarrow> 'w \<Rightarrow> btcBlock res \<times> 'w"

definition NewBitcoinProcessor :: "UTXOConfig \<Rightarrow> BitcoinProcessor res" where
  "NewBitcoinProcessor cfg =
     (if utxoNetwork cfg = '''' then Inl (ErrorString ''UTXO network is required'')
      else if utxoNativeCurrency cfg = ''''
      then Inl (ErrorString (''native currency is required for UTXO network '' @ utxoNetwork cfg))
      else Inr \<lparr>bpConfig = cfg, bpNetwork = utxoNetwork cfg, bpCurrency = utxoNativeCurrency cfg, bpTipTTL = 2 * Second\<rparr>)"

section \<open>The tip\<close>

definition tip_json :: "u64 \<Rightarrow> string" where
  "tip_json h = ''{'' @ [CHR 0x22] @ ''height'' @ [CHR 0x22] @ '':'' @ FormatUint h @ ''}''"

definition dec_tip :: "json \<Rightarrow> u64 res" where
  "dec_tip j = rbind (as_obj j) (\<lambda>o'. dec_uint64 (field ''height'' o'))"

definition btc_GetCurrentBlockHeight ::
  "(string \<Rightarrow> json option) \<Rightarrow> BitcoinProcessor \<Rightarrow> 'w BtcOps \<Rightarrow> 'w Storage \<Rightarrow> 'w \<Rightarrow> u64 res \<times> 'w" where
  "btc_GetCurrentBlockHeight jsonOf p O' S w =
     (let cacheKey = tipCacheKey (bpNetwork p);
          miss = (\<lambda>w1. case bo_GetBlockCount O' w1 of
              (Inl err, w2) \<Rightarrow> (Inl err, w2)
            | (Inr h, w2) \<Rightarrow> (case st_SetCache S cacheKey (Inr (tip_json h)) (bpTipTTL p) w2 of (_, w3) \<Rightarrow> (Inr h, w3)))
      in case st_GetCache S cacheKey w of
           (Inl err, w1) \<Rightarrow> miss w1
         | (Inr s, w1) \<Rightarrow> (case jsonOf s of
             None \<Rightarrow> miss w1
           | Some j \<Rightarrow> (case dec_tip j of
               Inl err \<Rightarrow> miss w1
             | Inr h \<Rightarrow> if h > 0 then (Inr h, w1) else miss w1)))"

section \<open>Scanning a transaction\<close>

text \<open>
  What the loop over the inputs collects: the watched wallet that pays and its address, whether a second one pays
  too (the loop then ends), the first address, and the inputs seen.
\<close>

record inputScan =
  isWallet :: string
  isAddress :: string
  isMulti :: bool
  isFrom :: string
  isInputs :: "WalletInput list"

definition scan_start :: inputScan where
  "scan_start = \<lparr>isWallet = '''', isAddress = '''', isMulti = False, isFrom = '''', isInputs = []\<rparr>"

definition seen_input :: "btcVin \<Rightarrow> inputScan \<Rightarrow> inputScan" where
  "seen_input vin st = st\<lparr>isFrom := (if isFrom st = '''' then vinAddress vin else isFrom st),
     isInputs := isInputs st @ [\<lparr>wiAddress = vinAddress vin, wiAmount = format8 (btc_amount (vinValue vin))\<rparr>]\<rparr>"

fun scanInputs :: "'w Storage \<Rightarrow> BlockchainType \<Rightarrow> btcVin list \<Rightarrow> inputScan \<Rightarrow> 'w \<Rightarrow> inputScan res \<times> 'w" where
  "scanInputs S network [] st w = (Inr st, w)"
| "scanInputs S network (vin # vins) st w =
     (let addr = vinAddress vin in
      if addr = '''' then scanInputs S network vins st w
      else let st1 = seen_input vin st in
        (case st_IsWatchedWallet S network addr w of
           (Inl err, w1) \<Rightarrow> (Inl err, w1)
         | (Inr (walletID, isWatched), w1) \<Rightarrow>
             if \<not> isWatched then scanInputs S network vins st1 w1
             else if isWallet st1 = '''' then scanInputs S network vins (st1\<lparr>isWallet := walletID, isAddress := addr\<rparr>) w1
             else if walletID \<noteq> isWallet st1 then (Inr (st1\<lparr>isMulti := True\<rparr>), w1)
             else scanInputs S network vins st1 w1))"

text \<open>The loop over the outputs of a payment: the amount to unwatched addresses, the first of them, and all of them.\<close>

fun externalOutputs ::
  "'w Storage \<Rightarrow> BlockchainType \<Rightarrow> btcVout list \<Rightarrow> rat \<times> string \<times> WalletOutput list \<Rightarrow> 'w \<Rightarrow>
   (rat \<times> string \<times> WalletOutput list) res \<times> 'w" where
  "externalOutputs S network [] acc w = (Inr acc, w)"
| "externalOutputs S network (vout # vouts) (externalAmount, externalTo, outputs) w =
     (case voutAddresses vout of
        [] \<Rightarrow> externalOutputs S network vouts (externalAmount, externalTo, outputs) w
      | addr # _ \<Rightarrow> (case st_IsWatchedWallet S network addr w of
          (Inl err, w1) \<Rightarrow> (Inl err, w1)
        | (Inr (_, isWatched), w1) \<Rightarrow>
            if isWatched then externalOutputs S network vouts (externalAmount, externalTo, outputs) w1
            else externalOutputs S network vouts
              (float64 (externalAmount + voutValue vout), if externalTo = '''' then addr else externalTo,
               outputs @ [\<lparr>woAddress = addr, woAmount = format8 (voutValue vout)\<rparr>]) w1))"

definition btcWithdrawal ::
  "BitcoinProcessor \<Rightarrow> u64 \<Rightarrow> go_time \<Rightarrow> string \<Rightarrow> string \<Rightarrow> string \<Rightarrow> rat \<times> string \<times> WalletOutput list \<Rightarrow> WalletWithdrawal" where
  "btcWithdrawal p b ts txid wallet addr ext = (case ext of (amount, to', outputs) \<Rightarrow>
     \<lparr>wTxHash = txid, wWalletID = wallet, wWalletAddress = addr, wToAddress = to', wOutputs = outputs,
      wAmount = format8 amount, wCurrency = bpCurrency p, wNetwork = bpNetwork p, wBlockNumber = b,
      wConfirmations = to_uint64 (utxoConfirmations (bpConfig p)), wTimestamp = ts, wNetworkFee = '''',
      wStatus = StatusConfirmed\<rparr>)"

definition btcDeposit ::
  "BitcoinProcessor \<Rightarrow> u64 \<Rightarrow> go_time \<Rightarrow> string \<Rightarrow> inputScan \<Rightarrow> string \<Rightarrow> string \<Rightarrow> rat \<Rightarrow> WalletDeposit" where
  "btcDeposit p b ts txid st walletID addr value =
     \<lparr>dTxHash = txid, dWalletID = walletID, dWalletAddress = addr, dFromAddress = isFrom st, dInputs = isInputs st,
      dAmount = format8 value, dCurrency = bpCurrency p, dNetwork = bpNetwork p, dBlockNumber = b,
      dConfirmations = to_uint64 (utxoConfirmations (bpConfig p)), dTimestamp = ts, dNetworkFee = '''',
      dStatus = StatusConfirmed\<rparr>"

text \<open>Publishing through the base tracker, where there is one, with the error the block fails with.\<close>

definition btc_publishW :: "'w Publisher option \<Rightarrow> WalletWithdrawal \<Rightarrow> 'w \<Rightarrow> error option \<times> 'w" where
  "btc_publishW pub x w = (case pub of
     None \<Rightarrow> (None, w)
   | Some pb \<Rightarrow> (case bt_PublishWithdrawal pb x w of
       (None, w1) \<Rightarrow> (None, w1)
     | (Some err, w1) \<Rightarrow> (Some (Wrap (''publish withdrawal for tx '' @ wTxHash x @ '' in block '' @ FormatUint (wBlockNumber x)) err), w1)))"

definition btc_publishD :: "'w Publisher option \<Rightarrow> WalletDeposit \<Rightarrow> 'w \<Rightarrow> error option \<times> 'w" where
  "btc_publishD pub d w = (case pub of
     None \<Rightarrow> (None, w)
   | Some pb \<Rightarrow> (case bt_PublishDeposit pb d w of
       (None, w1) \<Rightarrow> (None, w1)
     | (Some err, w1) \<Rightarrow> (Some (Wrap (''publish deposit for tx '' @ dTxHash d @ '' in block '' @ FormatUint (dBlockNumber d)) err), w1)))"

text \<open>The two nested loops over the outputs and their addresses, as one over the pairs.\<close>

definition outputPairs :: "btcTx \<Rightarrow> (rat \<times> string) list" where
  "outputPairs tx = concat (map (\<lambda>vout. map (Pair (voutValue vout)) (voutAddresses vout)) (btxVout tx))"

fun depositLoop ::
  "BitcoinProcessor \<Rightarrow> 'w Storage \<Rightarrow> 'w Publisher option \<Rightarrow> u64 \<Rightarrow> go_time \<Rightarrow> string \<Rightarrow> inputScan \<Rightarrow>
   (rat \<times> string) list \<Rightarrow> 'w \<Rightarrow> error option \<times> 'w" where
  "depositLoop p S pub b ts txid st [] w = (None, w)"
| "depositLoop p S pub b ts txid st ((value, addr) # outs) w =
     (case st_IsWatchedWallet S (bpNetwork p) addr w of
        (Inl err, w1) \<Rightarrow> (Some err, w1)
      | (Inr (walletID, isWatched), w1) \<Rightarrow>
          if \<not> isWatched then depositLoop p S pub b ts txid st outs w1
          else if isWallet st \<noteq> '''' \<and> walletID = isWallet st then depositLoop p S pub b ts txid st outs w1
          else (case btc_publishD pub (btcDeposit p b ts txid st walletID addr value) w1 of
              (Some err, w2) \<Rightarrow> (Some err, w2)
            | (None, w2) \<Rightarrow> depositLoop p S pub b ts txid st outs w2))"

definition withdrawalStep ::
  "BitcoinProcessor \<Rightarrow> 'w Storage \<Rightarrow> 'w Publisher option \<Rightarrow> u64 \<Rightarrow> go_time \<Rightarrow> btcTx \<Rightarrow> inputScan \<Rightarrow> 'w \<Rightarrow> error option \<times> 'w" where
  "withdrawalStep p S pub b ts tx st w =
     (if isWallet st \<noteq> '''' \<and> \<not> isMulti st then
        (case externalOutputs S (bpNetwork p) (btxVout tx) (0, '''', []) w of
           (Inl err, w1) \<Rightarrow> (Some err, w1)
         | (Inr ext, w1) \<Rightarrow>
             if fst ext > 0 then btc_publishW pub (btcWithdrawal p b ts (btxTxid tx) (isWallet st) (isAddress st) ext) w1
             else (None, w1))
      else (None, w))"

definition btc_processTx ::
  "BitcoinProcessor \<Rightarrow> 'w Storage \<Rightarrow> 'w Publisher option \<Rightarrow> u64 \<Rightarrow> go_time \<Rightarrow> btcTx \<Rightarrow> 'w \<Rightarrow> error option \<times> 'w" where
  "btc_processTx p S pub b ts tx w =
     (case scanInputs S (bpNetwork p) (btxVin tx) scan_start w of
        (Inl err, w1) \<Rightarrow> (Some err, w1)
      | (Inr st, w1) \<Rightarrow> (case withdrawalStep p S pub b ts tx st w1 of
          (Some err, w2) \<Rightarrow> (Some err, w2)
        | (None, w2) \<Rightarrow> depositLoop p S pub b ts (btxTxid tx) st (outputPairs tx) w2))"

fun btc_processTxs ::
  "BitcoinProcessor \<Rightarrow> 'w Storage \<Rightarrow> 'w Publisher option \<Rightarrow> u64 \<Rightarrow> go_time \<Rightarrow> btcTx list \<Rightarrow> 'w \<Rightarrow> error option \<times> 'w" where
  "btc_processTxs p S pub b ts [] w = (None, w)"
| "btc_processTxs p S pub b ts (tx # txs) w =
     (case btc_processTx p S pub b ts tx w of
        (Some err, w1) \<Rightarrow> (Some err, w1)
      | (None, w1) \<Rightarrow> btc_processTxs p S pub b ts txs w1)"

definition btc_ProcessBlock ::
  "BitcoinProcessor \<Rightarrow> 'w BtcOps \<Rightarrow> 'w Storage \<Rightarrow> 'w Publisher option \<Rightarrow> u64 \<Rightarrow> 'w state \<Rightarrow> bool res \<times> 'w state" where
  "btc_ProcessBlock p O' S pub blockNumber s = (case s of (t, w) \<Rightarrow>
     (case bo_GetBlockHash O' blockNumber w of
        (Inl err, w1) \<Rightarrow> (Inl err, (t, w1))
      | (Inr hash, w1) \<Rightarrow> (case bo_GetBlockVerbose O' hash w1 of
          (Inl err, w2) \<Rightarrow> (Inl err, (t, w2))
        | (Inr block, w2) \<Rightarrow>
            (case btc_processTxs p S pub blockNumber (bbTime block * Second) (bbTx block) w2 of
               (Some err, w3) \<Rightarrow> (Inl err, (t, w3))
             | (None, w3) \<Rightarrow>
                 (Inr True, (if pub = None then t else IncrementTxCount (of_nat (length (bbTx block))) t, w3))))))"

section \<open>Specification\<close>

text \<open>
  The events of a transaction under a watch list \<open>m\<close>, without loops. Inputs and outputs without an address do not
  count. The payer is the first watched input wallet (with a non-empty identifier); the inputs after it conflict
  when they belong to another watched wallet, and then there is no withdrawal and the inputs an event lists end
  with the first conflict.
\<close>

definition named :: "(string \<rightharpoonup> string) \<Rightarrow> btcVin \<Rightarrow> bool" where
  "named m v \<longleftrightarrow> m (vinAddress v) \<noteq> None \<and> m (vinAddress v) \<noteq> Some ''''"

definition conflicts :: "(string \<rightharpoonup> string) \<Rightarrow> string \<Rightarrow> btcVin \<Rightarrow> bool" where
  "conflicts m i v \<longleftrightarrow> m (vinAddress v) \<noteq> None \<and> m (vinAddress v) \<noteq> Some i"

fun upto_first :: "('a \<Rightarrow> bool) \<Rightarrow> 'a list \<Rightarrow> 'a list" where
  "upto_first P [] = []"
| "upto_first P (x # xs) = x # (if P x then [] else upto_first P xs)"

definition addressed :: "btcVin list \<Rightarrow> btcVin list" where
  "addressed vins = filter (\<lambda>v. vinAddress v \<noteq> '''') vins"

definition wallet_inputs :: "btcVin list \<Rightarrow> WalletInput list" where
  "wallet_inputs vs = map (\<lambda>v. \<lparr>wiAddress = vinAddress v, wiAmount = format8 (btc_amount (vinValue v))\<rparr>) vs"

definition first_address :: "btcVin list \<Rightarrow> string" where
  "first_address vs = (case vs of [] \<Rightarrow> '''' | v # _ \<Rightarrow> vinAddress v)"

text \<open>The payer with its address and whether another watched wallet pays too; and the inputs of the events.\<close>

definition payer :: "(string \<rightharpoonup> string) \<Rightarrow> btcVin list \<Rightarrow> (string \<times> string \<times> bool) option" where
  "payer m vs = (case dropWhile (\<lambda>v. \<not> named m v) vs of
     [] \<Rightarrow> None
   | v # rest \<Rightarrow> let i = the (m (vinAddress v)) in Some (i, vinAddress v, list_ex (conflicts m i) rest))"

definition scanned :: "(string \<rightharpoonup> string) \<Rightarrow> btcVin list \<Rightarrow> btcVin list" where
  "scanned m vs = takeWhile (\<lambda>v. \<not> named m v) vs @ (case dropWhile (\<lambda>v. \<not> named m v) vs of
     [] \<Rightarrow> [] | v # rest \<Rightarrow> v # upto_first (conflicts m (the (m (vinAddress v)))) rest)"

definition externals :: "(string \<rightharpoonup> string) \<Rightarrow> btcTx \<Rightarrow> btcVout list" where
  "externals m tx = filter (\<lambda>vo. voutAddresses vo \<noteq> [] \<and> m (hd (voutAddresses vo)) = None) (btxVout tx)"

definition external_part :: "btcVout list \<Rightarrow> rat \<times> string \<times> WalletOutput list" where
  "external_part vos =
     (float_sum (map voutValue vos),
      case filter (\<lambda>vo. hd (voutAddresses vo) \<noteq> '''') vos of [] \<Rightarrow> '''' | vo # _ \<Rightarrow> hd (voutAddresses vo),
      map (\<lambda>vo. \<lparr>woAddress = hd (voutAddresses vo), woAmount = format8 (voutValue vo)\<rparr>) vos)"

definition btcWithdrawals :: "BitcoinProcessor \<Rightarrow> u64 \<Rightarrow> go_time \<Rightarrow> btcTx \<Rightarrow> (string \<rightharpoonup> string) \<Rightarrow> payload list" where
  "btcWithdrawals p b ts tx m = (case payer m (addressed (btxVin tx)) of
     Some (i, a, False) \<Rightarrow>
       let ext = external_part (externals m tx)
       in if fst ext > 0 then [PWithdrawal (btcWithdrawal p b ts (btxTxid tx) i a ext)] else []
   | _ \<Rightarrow> [])"

definition btcDeposits :: "BitcoinProcessor \<Rightarrow> u64 \<Rightarrow> go_time \<Rightarrow> btcTx \<Rightarrow> (string \<rightharpoonup> string) \<Rightarrow> payload list" where
  "btcDeposits p b ts tx m =
     (let vs = addressed (btxVin tx);
          st = \<lparr>isWallet = '''', isAddress = '''', isMulti = False, isFrom = first_address vs,
                isInputs = wallet_inputs (scanned m vs)\<rparr>
      in concat (map (\<lambda>(value, addr). case m addr of
           None \<Rightarrow> []
         | Some i \<Rightarrow> (if map_option fst (payer m vs) = Some i then []
                      else [PDeposit (btcDeposit p b ts (btxTxid tx) st i addr value)])) (outputPairs tx)))"

definition btcTxEvents :: "BitcoinProcessor \<Rightarrow> u64 \<Rightarrow> go_time \<Rightarrow> btcTx \<Rightarrow> (string \<rightharpoonup> string) \<Rightarrow> payload list" where
  "btcTxEvents p b ts tx m = btcWithdrawals p b ts tx m @ btcDeposits p b ts tx m"

definition btcEvents :: "BitcoinProcessor \<Rightarrow> u64 \<Rightarrow> btcBlock \<Rightarrow> (string \<rightharpoonup> string) \<Rightarrow> payload list" where
  "btcEvents p b block m = concat (map (\<lambda>tx. btcTxEvents p b (bbTime block * Second) tx m) (bbTx block))"

section \<open>The loops compute the specification\<close>

text \<open>The loops with every lookup answered by the watch list \<open>m\<close>.\<close>

fun pureScan :: "(string \<rightharpoonup> string) \<Rightarrow> btcVin list \<Rightarrow> inputScan \<Rightarrow> inputScan" where
  "pureScan m [] st = st"
| "pureScan m (vin # vins) st =
     (let addr = vinAddress vin in
      if addr = '''' then pureScan m vins st
      else let st1 = seen_input vin st in
        (case m addr of
           None \<Rightarrow> pureScan m vins st1
         | Some walletID \<Rightarrow>
             if isWallet st1 = '''' then pureScan m vins (st1\<lparr>isWallet := walletID, isAddress := addr\<rparr>)
             else if walletID \<noteq> isWallet st1 then st1\<lparr>isMulti := True\<rparr>
             else pureScan m vins st1))"

fun pureExternal ::
  "(string \<rightharpoonup> string) \<Rightarrow> btcVout list \<Rightarrow> rat \<times> string \<times> WalletOutput list \<Rightarrow> rat \<times> string \<times> WalletOutput list" where
  "pureExternal m [] acc = acc"
| "pureExternal m (vout # vouts) (amount, to', outputs) =
     (case voutAddresses vout of
        [] \<Rightarrow> pureExternal m vouts (amount, to', outputs)
      | addr # _ \<Rightarrow>
          if m addr \<noteq> None then pureExternal m vouts (amount, to', outputs)
          else pureExternal m vouts
            (float64 (amount + voutValue vout), if to' = '''' then addr else to',
             outputs @ [\<lparr>woAddress = addr, woAmount = format8 (voutValue vout)\<rparr>]))"

lemma seen_input_simps [simp]:
  "isWallet (seen_input v st) = isWallet st" "isAddress (seen_input v st) = isAddress st"
  "isMulti (seen_input v st) = isMulti st"
  "isFrom (seen_input v st) = (if isFrom st = '''' then vinAddress v else isFrom st)"
  "isInputs (seen_input v st) = isInputs st @ wallet_inputs [v]"
  by (simp_all add: seen_input_def wallet_inputs_def)

lemma wallet_inputs_simps [simp]:
  "wallet_inputs [] = []" "wallet_inputs (xs @ ys) = wallet_inputs xs @ wallet_inputs ys"
  "wallet_inputs (v # vs) = \<lparr>wiAddress = vinAddress v, wiAmount = format8 (btc_amount (vinValue v))\<rparr> # wallet_inputs vs"
  by (simp_all add: wallet_inputs_def)

lemma addressed_simps [simp]:
  "addressed [] = []" "addressed (v # vs) = (if vinAddress v \<noteq> '''' then v # addressed vs else addressed vs)"
  by (simp_all add: addressed_def)

text \<open>Once the payer is known.\<close>

lemma pureScan_payer:
  "isWallet st \<noteq> '''' \<Longrightarrow>
   isWallet (pureScan m vins st) = isWallet st \<and> isAddress (pureScan m vins st) = isAddress st \<and>
   (isMulti (pureScan m vins st) \<longleftrightarrow> isMulti st \<or> list_ex (conflicts m (isWallet st)) (addressed vins)) \<and>
   isFrom (pureScan m vins st) = (if isFrom st = '''' then first_address (addressed vins) else isFrom st) \<and>
   isInputs (pureScan m vins st) =
     isInputs st @ wallet_inputs (upto_first (conflicts m (isWallet st)) (addressed vins))"
proof (induction vins arbitrary: st)
  case (Cons v vins)
  show ?case
  proof (cases "vinAddress v = '''' \<or> conflicts m (isWallet st) v")
    case True
    with Cons show ?thesis by (auto simp: conflicts_def first_address_def Let_def)
  next
    case False
    then have "pureScan m (v # vins) st = pureScan m vins (seen_input v st)"
      using Cons.prems by (auto simp: conflicts_def Let_def split: option.splits)
    with False Cons.IH [of "seen_input v st"] Cons.prems show ?thesis
      by (auto simp: first_address_def)
  qed
qed (simp add: first_address_def)

lemma pureScan_spec:
  assumes "isWallet st = ''''"
  shows "isWallet (pureScan m vins st) = (case payer m (addressed vins) of None \<Rightarrow> '''' | Some (i, _) \<Rightarrow> i) \<and>
    (case payer m (addressed vins) of None \<Rightarrow> True
     | Some (i, a, x) \<Rightarrow> i \<noteq> '''' \<and> isAddress (pureScan m vins st) = a \<and> isMulti (pureScan m vins st) = (isMulti st \<or> x)) \<and>
    isFrom (pureScan m vins st) = (if isFrom st = '''' then first_address (addressed vins) else isFrom st) \<and>
    isInputs (pureScan m vins st) = isInputs st @ wallet_inputs (scanned m (addressed vins))"
  using assms
proof (induction vins arbitrary: st)
  case (Cons v vins)
  let ?a = "vinAddress v"
  consider (skip) "?a = ''''" | (free) "?a \<noteq> ''''" "\<not> named m v" | (pay) i where "?a \<noteq> ''''" "m ?a = Some i" "i \<noteq> ''''"
    unfolding named_def by blast
  then show ?case
  proof cases
    case skip
    then have "pureScan m (v # vins) st = pureScan m vins st" "addressed (v # vins) = addressed vins" by simp_all
    with Cons show ?thesis by (simp only:)
  next
    case free
    define st1 where "st1 = (if m ?a = None then seen_input v st else (seen_input v st)\<lparr>isWallet := '''', isAddress := ?a\<rparr>)"
    have s: "pureScan m (v # vins) st = pureScan m vins st1"
      using free Cons.prems by (auto simp: named_def st1_def Let_def split: option.splits)
    have "isWallet st1 = ''''" "isMulti st1 = isMulti st" "isFrom st1 = (if isFrom st = '''' then ?a else isFrom st)"
      "isInputs st1 = isInputs st @ wallet_inputs [v]"
      using Cons.prems by (auto simp: st1_def)
    with Cons.IH [of st1] s free show ?thesis
      by (auto simp: payer_def scanned_def first_address_def split: option.splits)
  next
    case pay
    define st1 where "st1 = (seen_input v st)\<lparr>isWallet := i, isAddress := ?a\<rparr>"
    have n: "named m v" using pay by (simp add: named_def)
    have s: "pureScan m (v # vins) st = pureScan m vins st1"
      using pay Cons.prems by (simp add: st1_def Let_def)
    from pureScan_payer [of st1 m vins] pay n show ?thesis
      unfolding s by (auto simp: payer_def scanned_def first_address_def st1_def)
  qed
qed (simp add: payer_def scanned_def first_address_def)

lemma pureExternal_spec:
  "pureExternal m vouts (amount, to', outputs) =
   (case external_part (filter (\<lambda>vo. voutAddresses vo \<noteq> [] \<and> m (hd (voutAddresses vo)) = None) vouts) of
      (_, to1, outputs1) \<Rightarrow>
      (foldl (\<lambda>s x. float64 (s + x)) amount
         (map voutValue (filter (\<lambda>vo. voutAddresses vo \<noteq> [] \<and> m (hd (voutAddresses vo)) = None) vouts)),
       if to' = '''' then to1 else to', outputs @ outputs1))"
proof (induction vouts arbitrary: amount to' outputs)
  case (Cons vo vouts)
  show ?case by (cases "voutAddresses vo") (auto simp: Cons external_part_def)
qed (simp add: external_part_def)

lemma pureExternal_externals: "pureExternal m (btxVout tx) (0, '''', []) = external_part (externals m tx)"
  unfolding pureExternal_spec externals_def [symmetric] by (simp add: external_part_def float_sum_def)

section \<open>The processor follows the specification\<close>

lemma follows_prefix: "follows V c f w w' \<Longrightarrow> \<not> c' \<Longrightarrow> follows V c' (\<lambda>m. f m @ g m) w w'"
  unfolding follows_def by (rule emits_prefix)

text \<open>A step \<open>g\<close> after a step that may fail: the run stops at the failure.\<close>

lemma follows_seq:
  assumes "follows V (r1 = None) f w w1" "r1 = None \<Longrightarrow> follows V c g w1 w2" "r1 \<noteq> None \<Longrightarrow> w2 = w1 \<and> \<not> c"
  shows "follows V c (\<lambda>m. f m @ g m) w w2"
proof (cases "r1 = None")
  case True
  from follows_trans [OF assms(1) assms(2) [OF True], of c] True show ?thesis by simp
next
  case False
  with assms(3) have e: "w2 = w1" "\<not> c" by auto
  show ?thesis unfolding e(1) by (rule follows_prefix [OF assms(1)]) (rule e(2))
qed

lemma follows_cong:
  "follows V c f w w' \<Longrightarrow> (ev_sinv V w \<Longrightarrow> f (ev_watched V w) = g (ev_watched V w)) \<Longrightarrow> follows V c g w w'"
  by (auto simp: follows_def emits_def)

text \<open>The events of a transaction in terms of what the scan of its inputs collected.\<close>

definition depositsOf ::
  "BitcoinProcessor \<Rightarrow> u64 \<Rightarrow> go_time \<Rightarrow> string \<Rightarrow> inputScan \<Rightarrow> (rat \<times> string) list \<Rightarrow> (string \<rightharpoonup> string) \<Rightarrow> payload list" where
  "depositsOf p b ts txid st outs m = concat (map (\<lambda>(value, addr). case m addr of
     None \<Rightarrow> []
   | Some i \<Rightarrow> (if isWallet st \<noteq> '''' \<and> i = isWallet st then [] else [PDeposit (btcDeposit p b ts txid st i addr value)])) outs)"

definition withdrawalsOf ::
  "BitcoinProcessor \<Rightarrow> u64 \<Rightarrow> go_time \<Rightarrow> btcTx \<Rightarrow> inputScan \<Rightarrow> (string \<rightharpoonup> string) \<Rightarrow> payload list" where
  "withdrawalsOf p b ts tx st m =
     (if isWallet st \<noteq> '''' \<and> \<not> isMulti st then
        let ext = external_part (externals m tx)
        in if fst ext > 0 then [PWithdrawal (btcWithdrawal p b ts (btxTxid tx) (isWallet st) (isAddress st) ext)] else []
      else [])"

text \<open>The calls of the client change nothing the events depend on.\<close>

definition btc_ops_silent :: "('w, 'v) event_view \<Rightarrow> 'w BtcOps \<Rightarrow> bool" where
  "btc_ops_silent V O' \<longleftrightarrow> (\<forall>w. ev_winv V w \<longrightarrow>
     silent V w (snd (bo_GetBlockCount O' w)) \<and> (\<forall>b. silent V w (snd (bo_GetBlockHash O' b w))) \<and>
     (\<forall>h. silent V w (snd (bo_GetBlockVerbose O' h w))))"

context event_env
begin

text \<open>What a loop of lookups has done when it returns \<open>r\<close>: nothing observable, and \<open>x\<close> was computed.\<close>

definition looked_up :: "'x res \<Rightarrow> ((string \<rightharpoonup> string) \<Rightarrow> 'x) \<Rightarrow> 'w \<Rightarrow> 'w \<Rightarrow> bool" where
  "looked_up r f w w' \<longleftrightarrow> silent V w w' \<and>
     (ev_sinv V w \<longrightarrow> (\<forall>x. r = Inr x \<longrightarrow> x = f (ev_watched V w)) \<and> (ev_healthy V \<longrightarrow> (\<exists>x. r = Inr x)))"

lemma looked_up_then:
  assumes "silent V w w1" "looked_up r f w1 w'" "ev_sinv V w \<Longrightarrow> f (ev_watched V w) = g (ev_watched V w)"
  shows "looked_up r g w w'"
proof -
  have "silent V w w'" using silent_then [OF assms(1)] assms(2) by (simp add: looked_up_def)
  moreover have "(\<forall>x. r = Inr x \<longrightarrow> x = g (ev_watched V w)) \<and> (ev_healthy V \<longrightarrow> (\<exists>x. r = Inr x))" if i: "ev_sinv V w"
    using emits_watched [OF assms(1) i] assms(2) assms(3) [OF i] by (simp add: looked_up_def)
  ultimately show ?thesis by (simp add: looked_up_def)
qed

lemma lookup_step:
  assumes "ev_winv V w" "st_IsWatchedWallet S network a w = (r, w1)"
  shows "looked_up r (\<lambda>m. wallet_of m a) w w1"
  using lookup_silent [OF assms] lookup_val [OF assms(1)] lookup_healthy [OF assms(1) _ _ assms(2)] assms(2)
  unfolding looked_up_def by blast

lemma lookup_failed: "looked_up (Inl err) f w w' \<Longrightarrow> looked_up (Inl err') g w w'"
  by (auto simp: looked_up_def)

lemma wallet_of_pair: "(i, b) = wallet_of m a \<longleftrightarrow> (if b then m a = Some i else m a = None \<and> i = '''')"
  by (cases b) (auto simp: wallet_of_def split: option.splits)

lemma scanInputs_looked_up:
  "ev_winv V w \<Longrightarrow> scanInputs S network vins st w = (r, w') \<Longrightarrow> looked_up r (\<lambda>m. pureScan m vins st) w w'"
proof (induction vins arbitrary: st w)
  case Nil
  then show ?case by (auto simp: looked_up_def emits_refl)
next
  case (Cons v vins)
  let ?a = "vinAddress v"
  show ?case
  proof (cases "?a = ''''")
    case True
    with Cons show ?thesis by simp
  next
    case False
    obtain x w1 where l: "st_IsWatchedWallet S network ?a w = (x, w1)" by fastforce
    note L = lookup_step [OF Cons.prems(1) l]
    have s: "silent V w w1" using L by (simp add: looked_up_def)
    note w1 = emits_winv [OF s]
    show ?thesis
    proof (cases x)
      case (Inl err)
      with Cons.prems(2) l False have "r = Inl err" "w' = w1" by simp_all
      with lookup_failed L Inl show ?thesis by blast
    next
      case (Inr y)
      obtain i b where y: "y = (i, b)" by (cases y)
      have m: "ev_sinv V w \<Longrightarrow> (if b then ev_watched V w ?a = Some i else ev_watched V w ?a = None)"
        using L Inr y wallet_of_pair [of i b] by (auto simp: looked_up_def split: if_splits)
      let ?st1 = "seen_input v st"
      consider (free) "\<not> b" | (pay) "b" "isWallet st = ''''" | (other) "b" "isWallet st \<noteq> ''''" "i \<noteq> isWallet st"
        | (same) "b" "isWallet st \<noteq> ''''" "i = isWallet st" by blast
      then show ?thesis
      proof cases
        case free
        then have "scanInputs S network vins ?st1 w1 = (r, w')" using Cons.prems(2) l False Inr y by simp
        from looked_up_then [OF s Cons.IH [OF w1 this]] m free False show ?thesis by simp
      next
        case pay
        then have "scanInputs S network vins (?st1\<lparr>isWallet := i, isAddress := ?a\<rparr>) w1 = (r, w')"
          using Cons.prems(2) l False Inr y by simp
        from looked_up_then [OF s Cons.IH [OF w1 this]] m pay False show ?thesis by simp
      next
        case other
        then have "r = Inr (?st1\<lparr>isMulti := True\<rparr>)" "w' = w1" using Cons.prems(2) l False Inr y by simp_all
        with s m other False show ?thesis by (auto simp: looked_up_def)
      next
        case same
        then have "scanInputs S network vins ?st1 w1 = (r, w')" using Cons.prems(2) l False Inr y by simp
        from looked_up_then [OF s Cons.IH [OF w1 this]] m same False show ?thesis by simp
      qed
    qed
  qed
qed

lemma externalOutputs_looked_up:
  "ev_winv V w \<Longrightarrow> externalOutputs S network vouts acc w = (r, w') \<Longrightarrow> looked_up r (\<lambda>m. pureExternal m vouts acc) w w'"
proof (induction vouts arbitrary: acc w)
  case Nil
  then show ?case by (cases acc) (auto simp: looked_up_def emits_refl)
next
  case (Cons vo vouts)
  obtain amt t outs where acc: "acc = (amt, t, outs)" by (cases acc)
  show ?case
  proof (cases "voutAddresses vo")
    case Nil
    with Cons acc show ?thesis by simp
  next
    case as: (Cons a as)
    obtain x w1 where l: "st_IsWatchedWallet S network a w = (x, w1)" by fastforce
    note L = lookup_step [OF Cons.prems(1) l]
    have s: "silent V w w1" using L by (simp add: looked_up_def)
    note w1 = emits_winv [OF s]
    show ?thesis
    proof (cases x)
      case (Inl err)
      with Cons.prems(2) l as acc have "r = Inl err" "w' = w1" by simp_all
      with lookup_failed L Inl show ?thesis by blast
    next
      case (Inr y)
      obtain i b where y: "y = (i, b)" by (cases y)
      have m: "ev_sinv V w \<Longrightarrow> (if b then ev_watched V w a = Some i else ev_watched V w a = None)"
        using L Inr y wallet_of_pair [of i b] by (auto simp: looked_up_def split: if_splits)
      from Cons.prems(2) l as acc Inr y obtain acc1 where
        "externalOutputs S network vouts acc1 w1 = (r, w')"
        "acc1 = (if b then (amt, t, outs) else (float64 (amt + voutValue vo), if t = '''' then a else t,
           outs @ [\<lparr>woAddress = a, woAmount = format8 (voutValue vo)\<rparr>]))" by (cases b) auto
      with looked_up_then [OF s Cons.IH [OF w1]] m acc as show ?thesis by (cases b) simp_all
    qed
  qed
qed

text \<open>Publishing one event, with the error the block fails with.\<close>

lemma btc_publishW_follows:
  assumes "ev_winv V w" "btc_publishW (Some pub) x w = (r, w')"
  shows "follows V (r = None) (\<lambda>m. [PWithdrawal x]) w w'" "ev_healthy V \<Longrightarrow> payload_ok (PWithdrawal x) \<Longrightarrow> r = None"
proof -
  obtain ro w1 where p: "bt_PublishWithdrawal pub x w = (ro, w1)" by fastforce
  with assms(2) have e: "w' = w1" "r = None \<longleftrightarrow> ro = None" by (auto simp: btc_publishW_def split: option.splits)
  with bt_withdrawal_emits [OF assms(1) p] show "follows V (r = None) (\<lambda>m. [PWithdrawal x]) w w'" by (simp add: follows_def)
  show "ev_healthy V \<Longrightarrow> payload_ok (PWithdrawal x) \<Longrightarrow> r = None" using bt_withdrawal_ok [OF assms(1) _ _ p] e by simp
qed

lemma btc_publishD_follows:
  assumes "ev_winv V w" "btc_publishD (Some pub) d w = (r, w')"
  shows "follows V (r = None) (\<lambda>m. [PDeposit d]) w w'" "ev_healthy V \<Longrightarrow> payload_ok (PDeposit d) \<Longrightarrow> r = None"
proof -
  obtain ro w1 where p: "bt_PublishDeposit pub d w = (ro, w1)" by fastforce
  with assms(2) have e: "w' = w1" "r = None \<longleftrightarrow> ro = None" by (auto simp: btc_publishD_def split: option.splits)
  with bt_deposit_emits [OF assms(1) p] show "follows V (r = None) (\<lambda>m. [PDeposit d]) w w'" by (simp add: follows_def)
  show "ev_healthy V \<Longrightarrow> payload_ok (PDeposit d) \<Longrightarrow> r = None" using bt_deposit_ok [OF assms(1) _ _ p] e by simp
qed

text \<open>A step follows the events \<open>f\<close> and fails only where a service does or the time of the block is out of range.\<close>

definition follows_step :: "go_time \<Rightarrow> error option \<Rightarrow> ((string \<rightharpoonup> string) \<Rightarrow> payload list) \<Rightarrow> 'w \<Rightarrow> 'w \<Rightarrow> bool" where
  "follows_step ts r f w w' \<longleftrightarrow> follows V (r = None) f w w' \<and>
     (ev_sinv V w \<longrightarrow> ev_healthy V \<longrightarrow> time_marshals ts \<longrightarrow> r = None)"

lemma follows_step_seq:
  assumes "follows_step ts r1 f w w1" "r1 = None \<Longrightarrow> follows_step ts r g w1 w2" "r1 \<noteq> None \<Longrightarrow> w2 = w1 \<and> r \<noteq> None"
  shows "follows_step ts r (\<lambda>m. f m @ g m) w w2"
proof -
  have "follows V (r = None) (\<lambda>m. f m @ g m) w w2"
    by (rule follows_seq [of V r1]) (use assms in \<open>auto simp: follows_step_def\<close>)
  moreover have "ev_sinv V w \<Longrightarrow> r1 = None \<Longrightarrow> ev_sinv V w1"
    using assms(1) by (auto simp: follows_step_def follows_def emits_def)
  ultimately show ?thesis using assms by (auto simp: follows_step_def)
qed

lemma follows_step_looked:
  assumes "looked_up x h w w1" "\<And>y. x = Inr y \<Longrightarrow> follows_step ts r (g y) w1 w2" "\<And>err. x = Inl err \<Longrightarrow> w2 = w1 \<and> r \<noteq> None"
    and "\<And>y. x = Inr y \<Longrightarrow> ev_sinv V w \<Longrightarrow> g y (ev_watched V w) = f (ev_watched V w)"
  shows "follows_step ts r f w w2"
proof (cases x)
  case (Inl err)
  with assms(1,3) show ?thesis by (auto simp: looked_up_def follows_step_def intro!: follows_stuck)
next
  case (Inr y)
  have s: "silent V w w1" using assms(1) by (simp add: looked_up_def)
  note g = assms(2) [OF Inr]
  then have g1: "follows V (r = None) (g y) w1 w2" by (simp add: follows_step_def)
  have "follows V (r = None) f w w2"
    using follows_cong [OF silent_follows [OF s g1], of f] assms(4) [OF Inr] by blast
  moreover have "ev_sinv V w \<Longrightarrow> ev_sinv V w1" using emits_watched [OF s] by simp
  ultimately show ?thesis using g by (auto simp: follows_step_def)
qed

lemma follows_step_none: "ev_winv V w \<Longrightarrow> follows_step ts None (\<lambda>m. []) w w"
  by (simp add: follows_step_def follows_silent emits_refl)

lemma follows_step_winv: "follows_step ts r f w w' \<Longrightarrow> ev_winv V w'"
  by (auto simp: follows_step_def dest: follows_winv)

lemma follows_step_cong:
  "follows_step ts r f w w' \<Longrightarrow> (ev_sinv V w \<Longrightarrow> f (ev_watched V w) = g (ev_watched V w)) \<Longrightarrow> follows_step ts r g w w'"
  by (auto simp: follows_step_def intro: follows_cong)

text \<open>The steps of a transaction.\<close>

lemma depositLoop_follows:
  assumes "network = bpNetwork p"
  shows "ev_winv V w \<Longrightarrow> depositLoop p S (Some pub) b ts txid st outs w = (r, w') \<Longrightarrow>
    follows_step ts r (depositsOf p b ts txid st outs) w w'"
proof (induction outs arbitrary: w)
  case Nil
  then show ?case by (simp add: depositsOf_def follows_step_none)
next
  case (Cons o' outs)
  obtain v a where o': "o' = (v, a)" by (cases o')
  obtain x w1 where l: "st_IsWatchedWallet S network a w = (x, w1)" by fastforce
  note L = lookup_step [OF Cons.prems(1) l]
  have w1: "ev_winv V w1" using L by (auto simp: looked_up_def dest: emits_winv)
  let ?g = "\<lambda>y m. (case y of (i, t) \<Rightarrow>
      if t \<and> \<not> (isWallet st \<noteq> '''' \<and> i = isWallet st) then [PDeposit (btcDeposit p b ts txid st i a v)] else []) @
    depositsOf p b ts txid st outs m"
  show ?case
  proof (rule follows_step_looked [OF L, where g = ?g])
    fix y
    assume x: "x = Inr y"
    obtain i t where y: "y = (i, t)" by (cases y)
    show "follows_step ts r (?g y) w1 w'"
    proof (cases "t \<and> \<not> (isWallet st \<noteq> '''' \<and> i = isWallet st)")
      case False
      then have "depositLoop p S (Some pub) b ts txid st outs w1 = (r, w')"
        using Cons.prems(2) o' l x y by (auto simp: assms split: if_splits)
      from Cons.IH [OF w1 this] False y show ?thesis by auto
    next
      case True
      let ?d = "btcDeposit p b ts txid st i a v"
      obtain r1 w2 where d: "btc_publishD (Some pub) ?d w1 = (r1, w2)" by fastforce
      have "payload_ok (PDeposit ?d) \<longleftrightarrow> time_marshals ts" by (simp add: payload_ok_def btcDeposit_def)
      then have s: "follows_step ts r1 (\<lambda>m. [PDeposit ?d]) w1 w2"
        using btc_publishD_follows [OF w1 d] by (simp add: follows_step_def)
      have "follows_step ts r (\<lambda>m. [PDeposit ?d] @ depositsOf p b ts txid st outs m) w1 w'"
      proof (rule follows_step_seq [OF s])
        assume "r1 = None"
        then have "depositLoop p S (Some pub) b ts txid st outs w2 = (r, w')"
          using Cons.prems(2) o' l x y d True by (auto simp: assms split: if_splits)
        from Cons.IH [OF follows_step_winv [OF s] this]
        show "follows_step ts r (depositsOf p b ts txid st outs) w2 w'" .
      next
        assume "r1 \<noteq> None"
        then show "w' = w2 \<and> r \<noteq> None"
          using Cons.prems(2) o' l x y d True by (auto simp: assms split: if_splits option.splits)
      qed
      then show ?thesis using True y by simp
    qed
  next
    fix err
    assume "x = Inl err"
    then show "w' = w1 \<and> r \<noteq> None" using Cons.prems(2) o' l by (auto simp: assms)
  next
    fix y
    assume "x = Inr y" "ev_sinv V w"
    then have "y = wallet_of (ev_watched V w) a" using L by (simp add: looked_up_def)
    then show "?g y (ev_watched V w) = depositsOf p b ts txid st (o' # outs) (ev_watched V w)"
      by (auto simp: depositsOf_def o' wallet_of_def split: option.splits)
  qed
qed

lemma withdrawalStep_follows:
  assumes "network = bpNetwork p" "ev_winv V w" "withdrawalStep p S (Some pub) b ts tx st w = (r, w')"
  shows "follows_step ts r (withdrawalsOf p b ts tx st) w w'"
proof (cases "isWallet st \<noteq> '''' \<and> \<not> isMulti st")
  case False
  then have "withdrawalsOf p b ts tx st = (\<lambda>m. [])" by (auto simp: withdrawalsOf_def)
  moreover have "r = None" "w' = w" using False assms(3) by (auto simp: withdrawalStep_def)
  ultimately show ?thesis using follows_step_none [OF assms(2)] by simp
next
  case True
  obtain x w1 where l: "externalOutputs S network (btxVout tx) (0, '''', []) w = (x, w1)" by fastforce
  note L = externalOutputs_looked_up [OF assms(2) l]
  have w1: "ev_winv V w1" using L by (auto simp: looked_up_def dest: emits_winv)
  let ?W = "btcWithdrawal p b ts (btxTxid tx) (isWallet st) (isAddress st)"
  let ?g = "\<lambda>ext m. if fst ext > 0 then [PWithdrawal (?W ext)] else []"
  show ?thesis
  proof (rule follows_step_looked [OF L, where g = ?g])
    fix ext
    assume x: "x = Inr ext"
    show "follows_step ts r (?g ext) w1 w'"
    proof (cases "fst ext > 0")
      case False
      then have "r = None" "w' = w1" using assms(3) True l x by (simp_all add: withdrawalStep_def assms(1) [symmetric])
      with follows_step_none [OF w1] False show ?thesis by simp
    next
      case pos: True
      then have d: "btc_publishW (Some pub) (?W ext) w1 = (r, w')"
        using assms(3) True l x by (simp add: withdrawalStep_def assms(1) [symmetric])
      have "payload_ok (PWithdrawal (?W ext)) \<longleftrightarrow> time_marshals ts"
        by (simp add: payload_ok_def btcWithdrawal_def split: prod.splits)
      with btc_publishW_follows [OF w1 d] pos show ?thesis by (simp add: follows_step_def)
    qed
  next
    fix err
    assume "x = Inl err"
    then show "w' = w1 \<and> r \<noteq> None" using assms(3) True l by (auto simp: withdrawalStep_def assms(1) [symmetric])
  next
    fix ext
    assume "x = Inr ext" "ev_sinv V w"
    then have "ext = external_part (externals (ev_watched V w) tx)"
      using L by (simp add: looked_up_def pureExternal_externals)
    with True show "?g ext (ev_watched V w) = withdrawalsOf p b ts tx st (ev_watched V w)"
      by (simp add: withdrawalsOf_def Let_def)
  qed
qed

lemma btc_processTx_follows:
  assumes "network = bpNetwork p" "ev_winv V w" "btc_processTx p S (Some pub) b ts tx w = (r, w')"
  shows "follows_step ts r (btcTxEvents p b ts tx) w w'"
proof -
  obtain x w1 where l: "scanInputs S network (btxVin tx) scan_start w = (x, w1)" by fastforce
  note L = scanInputs_looked_up [OF assms(2) l]
  have w1: "ev_winv V w1" using L by (auto simp: looked_up_def dest: emits_winv)
  let ?g = "\<lambda>st m. withdrawalsOf p b ts tx st m @ depositsOf p b ts (btxTxid tx) st (outputPairs tx) m"
  show ?thesis
  proof (rule follows_step_looked [OF L, where g = ?g])
    fix st
    assume x: "x = Inr st"
    obtain r1 w2 where s: "withdrawalStep p S (Some pub) b ts tx st w1 = (r1, w2)" by fastforce
    note W = withdrawalStep_follows [OF assms(1) w1 s]
    have rest: "case r1 of Some err \<Rightarrow> r = r1 \<and> w' = w2
      | None \<Rightarrow> depositLoop p S (Some pub) b ts (btxTxid tx) st (outputPairs tx) w2 = (r, w')"
      using assms(3) l x s by (auto simp: btc_processTx_def assms(1) split: option.splits)
    show "follows_step ts r (?g st) w1 w'"
    proof (rule follows_step_seq [OF W])
      assume "r1 = None"
      with rest depositLoop_follows [OF assms(1) follows_step_winv [OF W]]
      show "follows_step ts r (depositsOf p b ts (btxTxid tx) st (outputPairs tx)) w2 w'" by simp
    qed (use rest in auto)
  next
    fix err
    assume "x = Inl err"
    then show "w' = w1 \<and> r \<noteq> None" using assms(3) l by (auto simp: btc_processTx_def assms(1))
  next
    fix st
    assume "x = Inr st" "ev_sinv V w"
    then have st: "st = pureScan (ev_watched V w) (btxVin tx) scan_start" using L by (simp add: looked_up_def)
    let ?m = "ev_watched V w" and ?vs = "addressed (btxVin tx)"
    have s0: "isWallet scan_start = ''''" "isFrom scan_start = ''''" "isInputs scan_start = []" "\<not> isMulti scan_start"
      by (simp_all add: scan_start_def)
    note P = pureScan_spec [OF s0(1), of ?m "btxVin tx", folded st, unfolded s0(2,3) append_Nil]
    have D: "btcDeposit p b ts txid st i a v = btcDeposit p b ts txid \<lparr>isWallet = '''', isAddress = '''', isMulti = False,
        isFrom = first_address ?vs, isInputs = wallet_inputs (scanned ?m ?vs)\<rparr> i a v" for txid i a v
      using P by (simp add: btcDeposit_def)
    have d: "depositsOf p b ts (btxTxid tx) st (outputPairs tx) ?m = btcDeposits p b ts tx ?m"
      unfolding depositsOf_def btcDeposits_def D Let_def
      by (rule arg_cong [where f = concat], rule map_cong [OF refl])
        (use P in \<open>auto split: option.splits prod.splits if_splits\<close>)
    have "withdrawalsOf p b ts tx st ?m = btcWithdrawals p b ts tx ?m"
      using P s0(4) by (auto simp: withdrawalsOf_def btcWithdrawals_def split: option.splits prod.splits bool.splits)
    with d show "?g st ?m = btcTxEvents p b ts tx ?m" by (simp add: btcTxEvents_def)
  qed
qed

lemma btc_processTxs_follows:
  assumes "network = bpNetwork p"
  shows "ev_winv V w \<Longrightarrow> btc_processTxs p S (Some pub) b ts txs w = (r, w') \<Longrightarrow>
    follows_step ts r (\<lambda>m. concat (map (\<lambda>tx. btcTxEvents p b ts tx m) txs)) w w'"
proof (induction txs arbitrary: w)
  case Nil
  then show ?case by (simp add: follows_step_none)
next
  case (Cons tx txs)
  obtain r1 w1 where t: "btc_processTx p S (Some pub) b ts tx w = (r1, w1)" by fastforce
  note T = btc_processTx_follows [OF assms Cons.prems(1) t]
  show ?case
  proof (simp, rule follows_step_seq [OF T])
    assume "r1 = None"
    with Cons.prems(2) t Cons.IH [OF follows_step_winv [OF T]]
    show "follows_step ts r (\<lambda>m. concat (map (\<lambda>tx. btcTxEvents p b ts tx m) txs)) w1 w'" by simp
  next
    assume "r1 \<noteq> None"
    with Cons.prems(2) t show "w' = w1 \<and> r \<noteq> None" by auto
  qed
qed

text \<open>A block: what the reads of the client returned determines its events.\<close>

lemma btc_ProcessBlock_follows:
  assumes "network = bpNetwork p" "ev_winv V w2"
    and "bo_GetBlockHash O' b w = (Inr hash, w1)" "bo_GetBlockVerbose O' hash w1 = (Inr block, w2)"
    and "btc_ProcessBlock p O' S (Some pub) b (t, w) = (r, (t', w'))"
  shows "\<exists>eo. follows_step (bbTime block * Second) eo (btcEvents p b block) w2 w' \<and> (eo = None \<longleftrightarrow> r = Inr True) \<and>
    (\<forall>err. eo = Some err \<longrightarrow> r = Inl err) \<and> t' = t\<lparr>processedTxs := processedTxs t'\<rparr>"
proof -
  obtain eo w3 where x: "btc_processTxs p S (Some pub) b (bbTime block * Second) (bbTx block) w2 = (eo, w3)" by fastforce
  note F = btc_processTxs_follows [OF assms(1,2) x]
  have "w' = w3" "eo = None \<longleftrightarrow> r = Inr True" "\<forall>err. eo = Some err \<longrightarrow> r = Inl err" "t' = t\<lparr>processedTxs := processedTxs t'\<rparr>"
    using assms(3-5) x by (auto simp: btc_ProcessBlock_def IncrementTxCount_def split: option.splits)
  with F show ?thesis unfolding btcEvents_def by blast
qed

lemma btc_ops_silentD:
  assumes "btc_ops_silent V O'" "ev_winv V w"
  shows "bo_GetBlockCount O' w = (r1, w') \<Longrightarrow> silent V w w'" "bo_GetBlockHash O' b w = (r2, w') \<Longrightarrow> silent V w w'"
    "bo_GetBlockVerbose O' h w = (r3, w') \<Longrightarrow> silent V w w'"
  using assms unfolding btc_ops_silent_def by (metis snd_conv)+

lemma btc_height_silent:
  assumes "network = bpNetwork p" "btc_ops_silent V O'" "ev_winv V w" "btc_GetCurrentBlockHeight jsonOf p O' S w = (r, w')"
  shows "silent V w w'"
proof -
  let ?k = "tipCacheKey network"
  obtain x w1 where g: "st_GetCache S ?k w = (x, w1)" by fastforce
  obtain y w2 where c: "bo_GetBlockCount O' w1 = (y, w2)" by fastforce
  obtain z w3 where t: "st_SetCache S ?k (Inr (tip_json (projr y))) (bpTipTTL p) w2 = (z, w3)" by fastforce
  note s1 = getCache_silent [OF assms(3) proc_keys(3) g]
  note s2 = silent_then [OF s1 btc_ops_silentD(1) [OF assms(2) emits_winv [OF s1] c]]
  note s3 = silent_then [OF s2 setCache_silent [OF emits_winv [OF s2] proc_keys(3) t]]
  from assms(4) g c t have "w' = w1 \<or> w' = w2 \<or> w' = w3"
    by (auto simp: btc_GetCurrentBlockHeight_def Let_def assms(1) split: sum.splits option.splits if_splits)
  with s1 s2 s3 show ?thesis by auto
qed

lemma btc_ProcessBlock_frame:
  assumes "network = bpNetwork p" "btc_ops_silent V O'" "ev_winv V w"
    and "btc_ProcessBlock p O' S (Some pub) b (t, w) = (r, (t', w'))"
  shows "ev_frame V w' = ev_frame V w \<and> ev_winv V w' \<and> t' = t\<lparr>processedTxs := processedTxs t'\<rparr>"
proof -
  obtain x w1 where h: "bo_GetBlockHash O' b w = (x, w1)" by fastforce
  note s1 = btc_ops_silentD(2) [OF assms(2,3) h]
  show ?thesis
  proof (cases x)
    case (Inl err)
    with s1 h assms(4) show ?thesis by (auto simp: btc_ProcessBlock_def emits_def)
  next
    case (Inr hash)
    obtain y w2 where v: "bo_GetBlockVerbose O' hash w1 = (y, w2)" by fastforce
    note s2 = silent_then [OF s1 btc_ops_silentD(3) [OF assms(2) emits_winv [OF s1] v]]
    show ?thesis
    proof (cases y)
      case (Inl err)
      with s2 h v Inr assms(4) show ?thesis by (auto simp: btc_ProcessBlock_def emits_def)
    next
      case y: (Inr block)
      from btc_ProcessBlock_follows [OF assms(1) emits_winv [OF s2] h [unfolded Inr] v [unfolded y] assms(4)]
      have "ev_frame V w' = ev_frame V w2 \<and> ev_winv V w' \<and> t' = t\<lparr>processedTxs := processedTxs t'\<rparr>"
        by (auto simp: follows_step_def dest: follows_frame follows_winv)
      with s2 show ?thesis by (simp add: emits_def)
    qed
  qed
qed

end

end
