(* ===== verification/Spec2Isabelle.thy ===== *)
theory Spec2Isabelle
  imports Tracker_Concurrency Solana_Client Evm_Service Api_Handlers Bitcoin_Processor
begin

text \<open>
  A verification of bloop.
\<close>

end
